(* ===== verification/Prelude.thy ===== *)
theory Prelude
  imports Main "HOL-Library.Word" "HOL-Library.Sublist"
begin

text \<open>
  Shared vocabulary of the development: bytes and byte strings, Rust results, machine-sized
  lengths, big-endian integers, UTF-8 validity and the generic lemmas on them.

  \<^item> \<open>u8\<close> is an 8-bit word; \<open>Bytes\<close>, \<open>BytesMut\<close>, \<open>Vec<u8>\<close> and \<open>&[u8]\<close> are all lists of
    such words (their value is the byte sequence; sharing of storage is not observable).
  \<^item> A Rust \<open>String\<close> is the list of its UTF-8 bytes; \<open>utf8_valid\<close> is the check of
    \<open>String::from_utf8\<close>.
  \<^item> \<open>usize\<close> is a natural number together with the bounds \<open>usize_MAX\<close> and \<open>isize_MAX\<close>
    of a 64-bit target; where the code adds or multiplies sizes the overflow is written out.
  \<^item> \<open>Result<T, E>\<close> is the sum \<open>'e + 'a\<close>, \<open>Err\<close> being \<open>Inl\<close> and \<open>Ok\<close> being \<open>Inr\<close>.
  \<^item> A function that can panic returns an \<open>option\<close>; \<open>None\<close> is the panic.
\<close>

section \<open>Collections of rewrite rules\<close>

named_theorems queue_eval \<open>evaluation of the fair queue on concrete states\<close>
named_theorems handshake_eval \<open>evaluation of the handshake on concrete connections\<close>

section \<open>Results\<close>

abbreviation Ok :: "'a \<Rightarrow> 'e + 'a" where "Ok \<equiv> Inr"
abbreviation Err :: "'e \<Rightarrow> 'e + 'a" where "Err \<equiv> Inl"

text \<open>The question-mark operator: continue with the value, or return the error at once.\<close>

definition and_then :: "'e + 'a \<Rightarrow> ('a \<Rightarrow> 'e + 'b) \<Rightarrow> 'e + 'b" where
  "and_then r f = (case r of Inl e \<Rightarrow> Inl e | Inr a \<Rightarrow> f a)"

lemma and_then_simps [simp]:
  "and_then (Inl e) f = Inl e"
  "and_then (Inr a) f = f a"
  by (simp_all add: and_then_def)

lemma and_then_Ok_iff: "and_then r f = Inr b \<longleftrightarrow> (\<exists>a. r = Inr a \<and> f a = Inr b)"
  by (cases r) auto

definition map_err :: "('e \<Rightarrow> 'f) \<Rightarrow> 'e + 'a \<Rightarrow> 'f + 'a" where
  "map_err f r = (case r of Inl e \<Rightarrow> Inl (f e) | Inr a \<Rightarrow> Inr a)"

lemma map_err_simps [simp]:
  "map_err f (Inl e) = Inl (f e)"
  "map_err f (Inr a) = Inr a"
  by (simp_all add: map_err_def)

lemma map_err_Ok_iff [simp]: "map_err f r = Inr a \<longleftrightarrow> r = Inr a"
  by (cases r) auto

section \<open>Polling\<close>

text \<open>\<open>std::task::Poll\<close>.\<close>

datatype 'a poll = Pending | Ready 'a

section \<open>Bytes, strings and sizes\<close>

type_synonym byte = "8 word"
type_synonym bytes = "byte list"

definition str :: "string \<Rightarrow> bytes" where
  "str s = map of_char s"

lemma length_str [simp]: "length (str s) = length s"
  by (simp add: str_def)

lemma str_simps [simp]:
  "str [] = []"
  "str (c # s) = of_char c # str s"
  by (simp_all add: str_def)

definition usize_MAX :: nat where "usize_MAX = 2 ^ 64 - 1"
definition isize_MAX :: nat where "isize_MAX = 2 ^ 63 - 1"

lemma isize_le_usize: "isize_MAX \<le> usize_MAX"
  by (simp add: isize_MAX_def usize_MAX_def)

text \<open>\<open>a + b\<close> on \<open>usize\<close>: \<open>None\<close> when the sum is not representable (\<open>checked_add\<close>, and
  the overflow panic of the plain operator).\<close>

definition checked_add :: "nat \<Rightarrow> nat \<Rightarrow> nat option" where
  "checked_add a b = (if a + b \<le> usize_MAX then Some (a + b) else None)"

lemma checked_add_Some [simp]: "a + b \<le> usize_MAX \<Longrightarrow> checked_add a b = Some (a + b)"
  by (simp add: checked_add_def)

lemma checked_add_eq_Some: "checked_add a b = Some c \<longleftrightarrow> c = a + b \<and> a + b \<le> usize_MAX"
  by (auto simp: checked_add_def)

section \<open>Big-endian integers\<close>

text \<open>\<open>be_bytes k n\<close> are the \<open>k\<close> big-endian bytes of \<open>n\<close> truncated to \<open>k\<close> bytes: the
  \<open>as u64\<close>/\<open>as u32\<close> cast followed by \<open>to_be_bytes\<close> or \<open>put_u64\<close>/\<open>put_u32\<close>.\<close>

fun be_bytes :: "nat \<Rightarrow> nat \<Rightarrow> bytes" where
  "be_bytes 0 n = []"
| "be_bytes (Suc k) n = be_bytes k (n div 256) @ [word_of_nat n]"

definition be_val :: "bytes \<Rightarrow> nat" where
  "be_val bs = foldl (\<lambda>acc b. acc * 256 + unat b) 0 bs"

lemma length_be_bytes [simp]: "length (be_bytes k n) = k"
  by (induction k arbitrary: n) auto

lemma be_val_Nil [simp]: "be_val [] = 0"
  by (simp add: be_val_def)

lemma be_val_snoc [simp]: "be_val (bs @ [b]) = be_val bs * 256 + unat b"
  by (simp add: be_val_def)

lemma unat_byte_of_nat [simp]: "unat (word_of_nat n :: byte) = n mod 256"
  by (simp add: unat_of_nat)

lemma byte_of_nat_eq_iff: "m < 256 \<Longrightarrow> n < 256 \<Longrightarrow> (word_of_nat m :: byte) = word_of_nat n \<longleftrightarrow> m = n"
  by (metis mod_less unat_byte_of_nat)

lemma unat_byte_less [simp]: "unat (b :: byte) < 256"
  using unsigned_less [where 'a = nat and w = b] by simp

lemma be_val_be_bytes: "be_val (be_bytes k n) = n mod 256 ^ k"
proof (induction k arbitrary: n)
  case 0
  then show ?case by simp
next
  case (Suc k)
  have "n mod 256 ^ Suc k = 256 * (n div 256 mod 256 ^ k) + n mod 256"
    using mod_mult2_eq [of n 256 "256 ^ k"] by simp
  with Suc.IH show ?case by simp
qed

lemma be_val_be_bytes_id [simp]: "n < 256 ^ k \<Longrightarrow> be_val (be_bytes k n) = n"
  by (simp add: be_val_be_bytes)

lemma be_val_less: "be_val bs < 256 ^ length bs"
proof (induction bs rule: rev_induct)
  case Nil
  then show ?case by simp
next
  case (snoc b bs)
  have "be_val bs * 256 + unat b < (be_val bs + 1) * 256"
    using unat_byte_less [of b] by simp
  also have "\<dots> \<le> 256 ^ length bs * 256"
    using snoc.IH by (intro mult_le_mono1) simp
  finally show ?case by simp
qed

section \<open>UTF-8\<close>

definition utf8_cont :: "byte \<Rightarrow> bool" where
  "utf8_cont b \<longleftrightarrow> 0x80 \<le> b \<and> b \<le> 0xBF"

text \<open>The well-formed byte sequences of the Unicode standard, as checked by
  \<open>String::from_utf8\<close>: no overlong forms, no surrogates, nothing above U+10FFFF.\<close>

fun utf8_valid :: "bytes \<Rightarrow> bool" where
  "utf8_valid [] = True"
| "utf8_valid (a # as) =
     (if a < 0x80 then utf8_valid as
      else case as of
        [] \<Rightarrow> False
      | b # bs \<Rightarrow>
          if 0xC2 \<le> a \<and> a \<le> 0xDF then utf8_cont b \<and> utf8_valid bs
          else case bs of
            [] \<Rightarrow> False
          | c # cs \<Rightarrow>
              if a = 0xE0 then 0xA0 \<le> b \<and> b \<le> 0xBF \<and> utf8_cont c \<and> utf8_valid cs
              else if a = 0xED then 0x80 \<le> b \<and> b \<le> 0x9F \<and> utf8_cont c \<and> utf8_valid cs
              else if 0xE1 \<le> a \<and> a \<le> 0xEF then utf8_cont b \<and> utf8_cont c \<and> utf8_valid cs
              else case cs of
                [] \<Rightarrow> False
              | d # ds \<Rightarrow>
                  if a = 0xF0 then 0x90 \<le> b \<and> b \<le> 0xBF \<and> utf8_cont c \<and> utf8_cont d \<and> utf8_valid ds
                  else if 0xF1 \<le> a \<and> a \<le> 0xF3
                    then utf8_cont b \<and> utf8_cont c \<and> utf8_cont d \<and> utf8_valid ds
                  else a = 0xF4 \<and> 0x80 \<le> b \<and> b \<le> 0x8F \<and> utf8_cont c \<and> utf8_cont d
                    \<and> utf8_valid ds)"

declare utf8_valid.simps(2) [simp del]

lemma utf8_valid_ascii [simp]: "a < 0x80 \<Longrightarrow> utf8_valid (a # as) = utf8_valid as"
  by (simp add: utf8_valid.simps(2))

lemma utf8_valid_all_ascii: "\<forall>a \<in> set as. a < 0x80 \<Longrightarrow> utf8_valid as"
  by (induction as) auto

definition from_utf8 :: "bytes \<Rightarrow> bytes option" where
  "from_utf8 bs = (if utf8_valid bs then Some bs else None)"

lemma from_utf8_eq_Some [simp]: "from_utf8 bs = Some s \<longleftrightarrow> s = bs \<and> utf8_valid bs"
  by (auto simp: from_utf8_def)

section \<open>Lists and maps\<close>

lemma take_length_append [simp]: "take (length xs) (xs @ ys) = xs"
  by simp

lemma finite_dom_map_upds [simp]: "finite (dom (m(k \<mapsto> v))) \<longleftrightarrow> finite (dom m)"
  by simp

text \<open>The iteration order of a hash map is a parameter: some enumeration of its keys,
  each exactly once.\<close>

definition enumerates :: "'k list \<Rightarrow> ('k \<rightharpoonup> 'v) \<Rightarrow> bool" where
  "enumerates ks m \<longleftrightarrow> distinct ks \<and> set ks = dom m"

lemma enumerates_finite: "enumerates ks m \<Longrightarrow> finite (dom m)"
  by (metis enumerates_def finite_set)

lemma enumerates_length: "enumerates ks m \<Longrightarrow> length ks = card (dom m)"
  by (metis enumerates_def distinct_card)

lemma enumerates_empty [simp]: "enumerates ks Map.empty \<longleftrightarrow> ks = []"
  by (auto simp: enumerates_def)

lemma enumerates_lookup: "enumerates ks m \<Longrightarrow> k \<in> set ks \<longleftrightarrow> m k \<noteq> None"
  by (auto simp: enumerates_def)

end
