(* ===== verification/Options.thy ===== *)
theory Options
  imports Prelude
begin

text \<open>
  \<open>SocketOptions\<close> of \<open>src/lib.rs\<close>: the configuration a socket shares with all its
  connections. A \<open>Duration\<close> is its number of nanoseconds; a \<open>PeerIdentity\<close> is its bytes.
\<close>

section \<open>Definitions\<close>

type_synonym peer_identity = bytes
type_synonym duration = nat

definition DEFAULT_CONNECT_TIMEOUT :: duration where
  "DEFAULT_CONNECT_TIMEOUT = 30 * 10 ^ 9"

record socket_options =
  peer_id :: "peer_identity option"
  connect_timeout :: "duration option"
  read_buffer_initial_size :: nat
  read_buffer_max_size :: nat
  read_buffer_short_reads :: nat

definition options_default :: socket_options where
  "options_default =
     \<lparr>peer_id = None, connect_timeout = Some DEFAULT_CONNECT_TIMEOUT,
      read_buffer_initial_size = 128, read_buffer_max_size = 64 * 1024,
      read_buffer_short_reads = 2\<rparr>"

text \<open>The four assertions of \<open>read_buffer\<close>; a failed one panics.\<close>

definition read_buffer :: "socket_options \<Rightarrow> nat \<Rightarrow> nat \<Rightarrow> nat \<Rightarrow> socket_options option" where
  "read_buffer opts initial_size max_size short_reads =
     (if \<not> initial_size > 0 then None
      else if \<not> initial_size \<le> max_size then None
      else if \<not> max_size \<le> isize_MAX div 2 then None
      else if \<not> short_reads > 0 then None
      else Some (opts\<lparr>read_buffer_initial_size := initial_size,
                      read_buffer_max_size := max_size,
                      read_buffer_short_reads := short_reads\<rparr>))"

definition set_peer_identity :: "socket_options \<Rightarrow> peer_identity \<Rightarrow> socket_options" where
  "set_peer_identity opts i = opts\<lparr>peer_id := Some i\<rparr>"

definition set_connect_timeout :: "socket_options \<Rightarrow> duration \<Rightarrow> socket_options" where
  "set_connect_timeout opts t = opts\<lparr>connect_timeout := Some t\<rparr>"

definition no_connect_timeout :: "socket_options \<Rightarrow> socket_options" where
  "no_connect_timeout opts = opts\<lparr>connect_timeout := None\<rparr>"

section \<open>The invariant of every reachable configuration\<close>

definition options_wf :: "socket_options \<Rightarrow> bool" where
  "options_wf opts \<longleftrightarrow>
     0 < read_buffer_initial_size opts
     \<and> read_buffer_initial_size opts \<le> read_buffer_max_size opts
     \<and> read_buffer_max_size opts \<le> isize_MAX div 2
     \<and> 0 < read_buffer_short_reads opts"

text \<open>The builder calls that a user can chain on the default options.\<close>

inductive buildable :: "socket_options \<Rightarrow> bool" where
  default: "buildable options_default"
| read_buffer: "buildable opts \<Longrightarrow> read_buffer opts i m s = Some opts' \<Longrightarrow> buildable opts'"
| peer_identity: "buildable opts \<Longrightarrow> buildable (set_peer_identity opts i)"
| timeout: "buildable opts \<Longrightarrow> buildable (set_connect_timeout opts t)"
| no_timeout: "buildable opts \<Longrightarrow> buildable (no_connect_timeout opts)"

lemma options_default_wf: "options_wf options_default"
  by (simp add: options_wf_def options_default_def isize_MAX_def)

lemma read_buffer_wf: "read_buffer opts i m s = Some opts' \<Longrightarrow> options_wf opts'"
  by (auto simp: read_buffer_def options_wf_def split: if_splits)

lemma buildable_options_wf: "buildable opts \<Longrightarrow> options_wf opts"
proof (induction rule: buildable.induct)
  case default
  show ?case by (rule options_default_wf)
next
  case (read_buffer opts i m s opts')
  then show ?case by (auto intro: read_buffer_wf)
qed (simp_all add: options_wf_def set_peer_identity_def set_connect_timeout_def
      no_connect_timeout_def)

end
