(* ===== verification/Greeting.thy ===== *)
theory Greeting
  imports Prelude
begin

text \<open>
  \<open>src/codec/error.rs\<close>, \<open>src/codec/mechanism.rs\<close> and \<open>src/codec/greeting.rs\<close>: the codec's
  errors, the security mechanisms and the 64-byte greeting that opens every connection.
\<close>

section \<open>Errors\<close>

text \<open>An \<open>std::io::Error\<close> is represented by its kind, the only part the code inspects.\<close>

datatype io_error =
  ConnectionRefused | NotFound | BrokenPipe | UnexpectedEof | WouldBlock | OtherIoError string

datatype codec_error =
    CodecCommand string
  | CodecGreeting string
  | CodecMechanism string
  | CodecDecode string
  | CodecIo io_error
  | CodecOther string

section \<open>Mechanisms\<close>

datatype zmq_mechanism = NULL | PLAIN | CURVE

fun mechanism_as_str :: "zmq_mechanism \<Rightarrow> bytes" where
  "mechanism_as_str NULL = str ''NULL''"
| "mechanism_as_str PLAIN = str ''PLAIN''"
| "mechanism_as_str CURVE = str ''CURVE''"

text \<open>The first segment of the zero-separated field.\<close>

definition mechanism_try_from :: "bytes \<Rightarrow> codec_error + zmq_mechanism" where
  "mechanism_try_from value =
     (let mech = takeWhile (\<lambda>x. x \<noteq> 0) value
      in if mech = str ''NULL'' then Ok NULL
         else if mech = str ''PLAIN'' then Ok PLAIN
         else if mech = str ''CURVE'' then Ok CURVE
         else Err (CodecMechanism ''Failed to parse ZmqMechanism''))"

section \<open>Greetings\<close>

type_synonym zmtp_version = "byte \<times> byte"

record zmq_greeting =
  version :: zmtp_version
  mechanism :: zmq_mechanism
  as_server :: bool

definition greeting_default :: zmq_greeting where
  "greeting_default = \<lparr>version = (3, 0), mechanism = NULL, as_server = False\<rparr>"

definition greeting_try_from :: "bytes \<Rightarrow> codec_error + zmq_greeting" where
  "greeting_try_from value =
     (if length value \<noteq> 64 \<or> \<not> (value ! 0 = 0xff \<and> value ! 9 = 0x7f)
      then Err (CodecGreeting ''Failed to parse greeting'')
      else and_then (mechanism_try_from (take 20 (drop 12 value)))
        (\<lambda>mech. Ok \<lparr>version = (value ! 10, value ! 11), mechanism = mech,
                    as_server = (value ! 32 = 0x01)\<rparr>))"

text \<open>\<open>copy_from_slice\<close> into a range of a fixed-size array.\<close>

definition copy_into :: "nat \<Rightarrow> bytes \<Rightarrow> bytes \<Rightarrow> bytes" where
  "copy_into at' src data = take at' data @ src @ drop (at' + length src) data"

definition greeting_to_bytes :: "zmq_greeting \<Rightarrow> bytes" where
  "greeting_to_bytes greet =
     (let data = (replicate 64 0)[0 := 0xff, 9 := 0x7f,
                   10 := fst (version greet), 11 := snd (version greet)];
          data = copy_into 12 (mechanism_as_str (mechanism greet)) data
      in data[32 := (if as_server greet then 1 else 0)])"

section \<open>Lemmas\<close>

lemma length_copy_into [simp]:
  "n + length s \<le> length d \<Longrightarrow> length (copy_into n s d) = length d"
  by (simp add: copy_into_def)

lemma nth_copy_into:
  assumes "n + length s \<le> length d" and "i < length d"
  shows "copy_into n s d ! i =
    (if n \<le> i \<and> i < n + length s then s ! (i - n) else d ! i)"
  using assms by (auto simp: copy_into_def nth_append)

lemma mechanism_as_str_length: "length (mechanism_as_str m) \<le> 5"
  by (cases m) simp_all

lemma length_greeting_to_bytes [simp]: "length (greeting_to_bytes g) = 64"
  using mechanism_as_str_length [of "mechanism g"]
  by (simp add: greeting_to_bytes_def Let_def)

lemma nth_greeting_to_bytes:
  assumes "i < 64"
  shows "greeting_to_bytes g ! i =
    (if i = 32 then (if as_server g then 1 else 0)
     else if 12 \<le> i \<and> i < 12 + length (mechanism_as_str (mechanism g))
       then mechanism_as_str (mechanism g) ! (i - 12)
     else if i = 0 then 0xff else if i = 9 then 0x7f
     else if i = 10 then fst (version g) else if i = 11 then snd (version g) else 0)"
  using assms mechanism_as_str_length [of "mechanism g"]
  by (auto simp: greeting_to_bytes_def Let_def nth_copy_into nth_list_update)

lemma mechanism_field:
  "take 20 (drop 12 (greeting_to_bytes g)) =
     mechanism_as_str (mechanism g) @ replicate (20 - length (mechanism_as_str (mechanism g))) 0"
  using mechanism_as_str_length [of "mechanism g"]
  by (auto intro!: nth_equalityI simp: nth_greeting_to_bytes nth_append)

lemma mechanism_try_from_as_str:
  "mechanism_try_from (mechanism_as_str m @ replicate n 0) = Ok m"
  by (cases m; cases n) (simp_all add: mechanism_try_from_def Let_def)

text \<open>The first byte of an encoded greeting is the signature byte that the decoder checks.\<close>

lemma hd_greeting_to_bytes: "greeting_to_bytes g ! 0 = 0xff"
  by (simp add: nth_greeting_to_bytes)

lemma greeting_roundtrip: "greeting_try_from (greeting_to_bytes g) = Ok g"
  by (simp add: greeting_try_from_def mechanism_field mechanism_try_from_as_str
      nth_greeting_to_bytes)

end
