(* ===== verification/SocketTypes.thy ===== *)
theory SocketTypes
  imports Prelude
begin

text \<open>
  The socket types of \<open>src/lib.rs\<close>: the enumeration, its names on the wire and the
  compatibility matrix that the READY exchange consults.
\<close>

section \<open>Definitions\<close>

datatype socket_type =
  PAIR | PUB | SUB | REQ | REP | DEALER | ROUTER | PULL | PUSH | XPUB | XSUB | STREAM

text \<open>The discriminants of the \<open>repr(usize)\<close> enumeration.\<close>

fun socket_index :: "socket_type \<Rightarrow> nat" where
  "socket_index PAIR = 0"
| "socket_index PUB = 1"
| "socket_index SUB = 2"
| "socket_index REQ = 3"
| "socket_index REP = 4"
| "socket_index DEALER = 5"
| "socket_index ROUTER = 6"
| "socket_index PULL = 7"
| "socket_index PUSH = 8"
| "socket_index XPUB = 9"
| "socket_index XSUB = 10"
| "socket_index STREAM = 11"

definition COMPATIBILITY_MATRIX :: "nat list" where
  "COMPATIBILITY_MATRIX =
    [1, 0, 0, 0, 0, 0, 0, 0, 0, 0, 0,
     0, 0, 1, 0, 0, 0, 0, 0, 0, 0, 1,
     0, 1, 0, 0, 0, 0, 0, 0, 0, 1, 0,
     0, 0, 0, 0, 1, 0, 1, 0, 0, 0, 0,
     0, 0, 0, 1, 0, 1, 0, 0, 0, 0, 0,
     0, 0, 0, 0, 1, 1, 1, 0, 0, 0, 0,
     0, 0, 0, 1, 0, 1, 1, 0, 0, 0, 0,
     0, 0, 0, 0, 0, 0, 0, 0, 1, 0, 0,
     0, 0, 0, 0, 0, 0, 0, 1, 0, 0, 0,
     0, 0, 1, 0, 0, 0, 0, 0, 0, 0, 1,
     0, 1, 0, 0, 0, 0, 0, 0, 0, 1, 0]"

text \<open>Indexing past the end of the array panics.\<close>

definition compatible :: "socket_type \<Rightarrow> socket_type \<Rightarrow> bool option" where
  "compatible self other =
     (let i = socket_index self * 11 + socket_index other
      in if i < length COMPATIBILITY_MATRIX then Some (COMPATIBILITY_MATRIX ! i \<noteq> 0) else None)"

fun socket_as_str :: "socket_type \<Rightarrow> bytes" where
  "socket_as_str PAIR = str ''PAIR''"
| "socket_as_str PUB = str ''PUB''"
| "socket_as_str SUB = str ''SUB''"
| "socket_as_str REQ = str ''REQ''"
| "socket_as_str REP = str ''REP''"
| "socket_as_str DEALER = str ''DEALER''"
| "socket_as_str ROUTER = str ''ROUTER''"
| "socket_as_str PULL = str ''PULL''"
| "socket_as_str PUSH = str ''PUSH''"
| "socket_as_str XPUB = str ''XPUB''"
| "socket_as_str XSUB = str ''XSUB''"
| "socket_as_str STREAM = str ''STREAM''"

definition socket_try_from :: "bytes \<Rightarrow> string + socket_type" where
  "socket_try_from s =
     (if s = str ''PAIR'' then Ok PAIR
      else if s = str ''PUB'' then Ok PUB
      else if s = str ''SUB'' then Ok SUB
      else if s = str ''REQ'' then Ok REQ
      else if s = str ''REP'' then Ok REP
      else if s = str ''DEALER'' then Ok DEALER
      else if s = str ''ROUTER'' then Ok ROUTER
      else if s = str ''PULL'' then Ok PULL
      else if s = str ''PUSH'' then Ok PUSH
      else if s = str ''XPUB'' then Ok XPUB
      else if s = str ''XSUB'' then Ok XSUB
      else if s = str ''STREAM'' then Ok STREAM
      else Err ''Unknown socket type'')"

section \<open>The RFC's pairs\<close>

text \<open>The combinations that the ZMTP specification lists as valid, written as unordered
  pairs, each once.\<close>

definition rfc_pairs :: "(socket_type \<times> socket_type) set" where
  "rfc_pairs =
     {(PAIR, PAIR), (PUB, SUB), (PUB, XSUB), (XPUB, SUB), (XPUB, XSUB), (REQ, REP), (REQ, ROUTER),
      (DEALER, REP), (DEALER, DEALER), (DEALER, ROUTER), (ROUTER, ROUTER), (PUSH, PULL)}"

lemmas matrix_simps = compatible_def COMPATIBILITY_MATRIX_def Let_def

lemma socket_try_from_as_str: "socket_try_from (socket_as_str t) = Ok t"
  by (cases t) (simp_all add: socket_try_from_def)

lemma socket_try_from_Ok: "socket_try_from s = Ok t \<longleftrightarrow> s = socket_as_str t"
proof
  assume "socket_try_from s = Ok t"
  then show "s = socket_as_str t"
    unfolding socket_try_from_def by (simp only: split: if_splits) auto
next
  assume "s = socket_as_str t"
  then show "socket_try_from s = Ok t" by (simp add: socket_try_from_as_str)
qed

section \<open>Properties\<close>

text \<open>The compatibility matrix against the protocol's list of valid socket combinations: for all socket types
  but STREAM, \<open>compatible\<close> returns, is symmetric and accepts exactly the pairs of the list, in either
  order. For every socket type but STREAM the one index outside of the matrix is that of XSUB and
  STREAM.\<close>

theorem compatible_is_rfc:
  "(s \<noteq> STREAM \<and> t \<noteq> STREAM \<longrightarrow> compatible s t = Some ((s, t) \<in> rfc_pairs \<or> (t, s) \<in> rfc_pairs))
   \<and> (s \<noteq> STREAM \<longrightarrow> (compatible s t = None \<longleftrightarrow> s = XSUB \<and> t = STREAM))"
  by (cases s; cases t) (simp_all add: matrix_simps rfc_pairs_def)

theorem compatible_is_rfc_witness: "compatible PUB XSUB = Some True \<and> compatible PUB REQ = Some False"
  using compatible_is_rfc [of PUB XSUB] compatible_is_rfc [of PUB REQ] by (simp add: rfc_pairs_def)

end
