(* ===== verification/Command.thy ===== *)
theory Command
  imports Greeting SocketTypes
begin

text \<open>
  \<open>src/codec/command.rs\<close>: the READY command with its property map, its parser and its
  serialisation into a command frame. The order in which \<open>HashMap::iter\<close> visits the properties
  is the parameter \<open>iter\<close>.
\<close>

section \<open>Definitions\<close>

datatype zmq_command_name = READY

fun command_as_str :: "zmq_command_name \<Rightarrow> bytes" where
  "command_as_str READY = str ''READY''"

type_synonym property_map = "bytes \<rightharpoonup> bytes"

record zmq_command =
  cmd_name :: zmq_command_name
  properties :: property_map

definition ready :: "socket_type \<Rightarrow> zmq_command" where
  "ready socket = \<lparr>cmd_name = READY, properties = [str ''Socket-Type'' \<mapsto> socket_as_str socket]\<rparr>"

definition add_prop :: "zmq_command \<Rightarrow> bytes \<Rightarrow> bytes \<Rightarrow> zmq_command" where
  "add_prop c name value = c\<lparr>properties := (properties c)(name \<mapsto> value)\<rparr>"

definition add_properties :: "zmq_command \<Rightarrow> property_map \<Rightarrow> zmq_command" where
  "add_properties c map' = c\<lparr>properties := properties c ++ map'\<rparr>"

text \<open>The \<open>while\<close> loop of the parser.\<close>

function parse_properties :: "bytes \<Rightarrow> property_map \<Rightarrow> codec_error + property_map" where
  "parse_properties [] props = Ok props"
| "parse_properties (n # buf) props =
     (let prop_len = unat n in
      if length buf < prop_len then Err (CodecDecode ''Property name exceeds frame length'')
      else case from_utf8 (take prop_len buf) of
        None \<Rightarrow> Err (CodecDecode ''Invalid property identifier'')
      | Some property \<Rightarrow>
          let buf = drop prop_len buf in
          if length buf < 4 then Err (CodecDecode ''Missing property value length'')
          else
            let prop_val_len = be_val (take 4 buf); buf = drop 4 buf in
            if length buf < prop_val_len
            then Err (CodecDecode ''Property value exceeds frame length'')
            else parse_properties (drop prop_val_len buf)
                   (props(property \<mapsto> take prop_val_len buf)))"
  by pat_completeness auto
termination
  by (relation "measure (\<lambda>(buf, props). length buf)") auto

definition command_try_from :: "bytes \<Rightarrow> codec_error + zmq_command" where
  "command_try_from buf =
     (case buf of
        [] \<Rightarrow> Err (CodecDecode ''Missing command length'')
      | n # buf \<Rightarrow>
          let command_len = unat n in
          if length buf < command_len
          then Err (CodecDecode ''Command name exceeds frame length'')
          else if take command_len buf \<noteq> str ''READY''
          then Err (CodecCommand ''Unknown command received'')
          else and_then (parse_properties (drop command_len buf) Map.empty)
            (\<lambda>props. Ok \<lparr>cmd_name = READY, properties = props\<rparr>))"

text \<open>One property on the wire: name length as \<open>u8\<close>, name, value length as \<open>u32\<close>, value.\<close>

definition encode_property :: "bytes \<times> bytes \<Rightarrow> bytes" where
  "encode_property kv =
     (case kv of (prop, val) \<Rightarrow>
        [word_of_nat (length prop)] @ prop @ be_bytes 4 (length val) @ val)"

definition property_list :: "(property_map \<Rightarrow> bytes list) \<Rightarrow> property_map \<Rightarrow> (bytes \<times> bytes) list" where
  "property_list iter props = map (\<lambda>k. (k, the (props k))) (iter props)"

definition command_len :: "(property_map \<Rightarrow> bytes list) \<Rightarrow> zmq_command \<Rightarrow> nat" where
  "command_len iter c =
     length (command_as_str (cmd_name c)) + 1
     + sum_list (map (\<lambda>(prop, val). (length prop + 1) + (length val + 4))
                     (property_list iter (properties c)))"

text \<open>The body that follows the frame header.\<close>

definition command_body :: "(property_map \<Rightarrow> bytes list) \<Rightarrow> zmq_command \<Rightarrow> bytes" where
  "command_body iter c =
     [word_of_nat (length (command_as_str (cmd_name c)))] @ command_as_str (cmd_name c)
     @ concat (map encode_property (property_list iter (properties c)))"

definition command_to_bytes :: "(property_map \<Rightarrow> bytes list) \<Rightarrow> zmq_command \<Rightarrow> bytes" where
  "command_to_bytes iter c =
     (let message_len = command_len iter c in
      (if message_len > 255 then [0x06] @ be_bytes 8 message_len
       else [0x04, word_of_nat message_len])
      @ command_body iter c)"

text \<open>A command whose encoding loses nothing: property names are UTF-8 strings of at most 255
  bytes and values fit a 32-bit length.\<close>

definition encodable_command :: "zmq_command \<Rightarrow> bool" where
  "encodable_command c \<longleftrightarrow>
     (\<forall>k v. properties c k = Some v \<longrightarrow> utf8_valid k \<and> length k \<le> 255 \<and> length v < 2 ^ 32)"

section \<open>Lemmas\<close>

declare parse_properties.simps(2) [simp del]

lemma length_encode_property [simp]:
  "length (encode_property (k, v)) = length k + 1 + (length v + 4)"
  by (simp add: encode_property_def)

lemma length_command_body [simp]: "length (command_body iter c) = command_len iter c"
proof -
  have "length (concat (map encode_property kvs))
      = sum_list (map (\<lambda>(prop, val). (length prop + 1) + (length val + 4)) kvs)" for kvs
    by (induction kvs) (auto split: prod.splits)
  then show ?thesis by (simp add: command_body_def command_len_def)
qed

lemma parse_properties_step:
  assumes "utf8_valid k" and "length k \<le> 255" and "length v < 2 ^ 32"
  shows "parse_properties (encode_property (k, v) @ rest) props
    = parse_properties rest (props(k \<mapsto> v))"
  using assms
  by (simp add: encode_property_def parse_properties.simps(2) Let_def from_utf8_def)

lemma parse_properties_list:
  assumes "\<forall>(k, v) \<in> set kvs. utf8_valid k \<and> length k \<le> 255 \<and> length v < 2 ^ 32"
  shows "parse_properties (concat (map encode_property kvs)) props
    = Ok (foldl (\<lambda>m (k, v). m(k \<mapsto> v)) props kvs)"
  using assms
  by (induction kvs arbitrary: props) (auto simp: parse_properties_step)

lemma foldl_upd_enumerated:
  "foldl (\<lambda>m (k, v). m(k \<mapsto> v)) m0 (map (\<lambda>k. (k, the (m k))) ks)
    = (\<lambda>k. if k \<in> set ks then Some (the (m k)) else m0 k)"
  by (induction ks arbitrary: m0) auto

lemma parse_encoded_properties:
  assumes "enumerates (iter (properties c)) (properties c)" and "encodable_command c"
  shows "parse_properties (concat (map encode_property (property_list iter (properties c)))) Map.empty
    = Ok (properties c)"
proof -
  let ?ks = "iter (properties c)"
  have dom: "k \<in> set ?ks \<longleftrightarrow> (\<exists>v. properties c k = Some v)" for k
    using assms(1) by (auto simp: enumerates_def)
  have "\<forall>(k, v) \<in> set (property_list iter (properties c)).
      utf8_valid k \<and> length k \<le> 255 \<and> length v < 2 ^ 32"
    using assms(2) dom by (force simp: property_list_def encodable_command_def)
  then have "parse_properties (concat (map encode_property (property_list iter (properties c)))) Map.empty
    = Ok (foldl (\<lambda>m (k, v). m(k \<mapsto> v)) Map.empty (property_list iter (properties c)))"
    by (rule parse_properties_list)
  also have "foldl (\<lambda>m (k, v). m(k \<mapsto> v)) Map.empty (property_list iter (properties c)) = properties c"
    unfolding property_list_def foldl_upd_enumerated by (auto simp: dom fun_eq_iff split: option.splits)
  finally show ?thesis .
qed

lemma command_try_from_body:
  assumes "enumerates (iter (properties c)) (properties c)" and "encodable_command c"
  shows "command_try_from (command_body iter c) = Ok c"
proof (cases c)
  case (fields nm ps)
  with parse_encoded_properties [where iter = iter and c = c] assms show ?thesis
    by (cases nm) (simp add: command_try_from_def command_body_def)
qed

end
