(* ===== verification/Message.thy ===== *)
theory Message
  imports Prelude
begin

text \<open>
  \<open>src/message.rs\<close>: the multipart message \<open>ZmqMessage\<close>, a deque of frames, with its deque
  operations and its conversions from and to byte vectors and strings.
\<close>

section \<open>Definitions\<close>

record zmq_message =
  frames :: "bytes list"

datatype zmq_empty_message_error = ZmqEmptyMessageError

definition push_back :: "zmq_message \<Rightarrow> bytes \<Rightarrow> zmq_message" where
  "push_back m frame = m\<lparr>frames := frames m @ [frame]\<rparr>"

definition push_front :: "zmq_message \<Rightarrow> bytes \<Rightarrow> zmq_message" where
  "push_front m frame = m\<lparr>frames := frame # frames m\<rparr>"

definition pop_front :: "zmq_message \<Rightarrow> bytes option \<times> zmq_message" where
  "pop_front m = (case frames m of [] \<Rightarrow> (None, m) | f # fs \<Rightarrow> (Some f, m\<lparr>frames := fs\<rparr>))"

definition msg_len :: "zmq_message \<Rightarrow> nat" where
  "msg_len m = length (frames m)"

definition msg_is_empty :: "zmq_message \<Rightarrow> bool" where
  "msg_is_empty m \<longleftrightarrow> frames m = []"

definition msg_get :: "zmq_message \<Rightarrow> nat \<Rightarrow> bytes option" where
  "msg_get m index = (if index < length (frames m) then Some (frames m ! index) else None)"

text \<open>\<open>iter\<close> yields the frames from front to back; \<open>into_vecdeque\<close> and \<open>into_vec\<close> hand them over.\<close>

definition msg_iter :: "zmq_message \<Rightarrow> bytes list" where
  "msg_iter m = frames m"

definition into_vecdeque :: "zmq_message \<Rightarrow> bytes list" where
  "into_vecdeque m = frames m"

definition into_vec :: "zmq_message \<Rightarrow> bytes list" where
  "into_vec m = into_vecdeque m"

text \<open>\<open>prepend\<close> pushes the other message's frames to the front, last frame first.\<close>

definition prepend :: "zmq_message \<Rightarrow> zmq_message \<Rightarrow> zmq_message" where
  "prepend m message = foldl push_front m (rev (frames message))"

text \<open>\<open>VecDeque::split_off\<close> panics past the end; otherwise the message keeps the frames before
  \<open>at\<close> and the rest is returned.\<close>

definition split_off :: "zmq_message \<Rightarrow> nat \<Rightarrow> (zmq_message \<times> zmq_message) option" where
  "split_off m at' =
     (if at' \<le> length (frames m)
      then Some (m\<lparr>frames := take at' (frames m)\<rparr>, \<lparr>frames = drop at' (frames m)\<rparr>)
      else None)"

definition message_try_from :: "bytes list \<Rightarrow> zmq_empty_message_error + zmq_message" where
  "message_try_from v = (if v = [] then Err ZmqEmptyMessageError else Ok \<lparr>frames = v\<rparr>)"

definition message_from :: "bytes \<Rightarrow> zmq_message" where
  "message_from b = \<lparr>frames = [b]\<rparr>"

text \<open>The conversions check the number of frames and then unwrap the result of \<open>pop_front\<close>; \<open>None\<close> is a panic of that
  unwrap.\<close>

definition message_to_vec :: "zmq_message \<Rightarrow> (string + bytes) option" where
  "message_to_vec z =
     (if msg_len z \<noteq> 1 then Some (Err ''Message must have only 1 frame to convert to Vec<u8>'')
      else map_option Ok (fst (pop_front z)))"

definition message_to_string :: "zmq_message \<Rightarrow> (string + bytes) option" where
  "message_to_string z =
     (if msg_len z \<noteq> 1 then Some (Err ''Message must have only 1 frame to convert to String'')
      else map_option
        (\<lambda>f. case from_utf8 f of Some s \<Rightarrow> Ok s | None \<Rightarrow> Err ''Could not parse string from message'')
        (fst (pop_front z)))"

section \<open>Lemmas\<close>

lemma frames_push [simp]:
  "frames (push_back m f) = frames m @ [f]"
  "frames (push_front m f) = f # frames m"
  by (simp_all add: push_back_def push_front_def)

lemma frames_foldl_push_front: "frames (foldl push_front m fs) = rev fs @ frames m"
  by (induction fs arbitrary: m) auto

lemma frames_prepend [simp]: "frames (prepend m e) = frames e @ frames m"
  by (simp add: prepend_def frames_foldl_push_front)

lemma frames_message_from [simp]: "frames (message_from b) = [b]"
  by (simp add: message_from_def)

lemma msg_eq_iff: "(m :: zmq_message) = n \<longleftrightarrow> frames m = frames n"
  by (cases m; cases n) simp

lemma frames_literal [simp]: "\<lparr>frames = frames m\<rparr> = (m :: zmq_message)"
  by (simp add: msg_eq_iff)

lemma pop_front_push_front [simp]: "pop_front (push_front m f) = (Some f, m)"
  by (simp add: pop_front_def push_front_def)

lemma pop_front_Some: "pop_front m = (Some f, m') \<longleftrightarrow> m = push_front m' f"
  by (auto simp: pop_front_def push_front_def msg_eq_iff split: list.splits)

lemma msg_get_0 [simp]: "msg_get m 0 = (case frames m of [] \<Rightarrow> None | f # _ \<Rightarrow> Some f)"
  by (simp add: msg_get_def split: list.splits)

lemma split_off_frames:
  "split_off m n = Some (h, t) \<longleftrightarrow>
     n \<le> length (frames m) \<and> frames h = take n (frames m) \<and> frames t = drop n (frames m)"
  by (auto simp: split_off_def msg_eq_iff)

section \<open>Properties\<close>

text \<open>The conversions do not panic, and they invert the conversion from one frame; a string comes back exactly when it
  is valid UTF-8.\<close>

theorem message_conversions:
  "message_to_vec z \<noteq> None \<and> message_to_string z \<noteq> None
    \<and> message_to_vec (message_from f) = Some (Ok f)
    \<and> (message_to_string (message_from f) = Some (Ok f) \<longleftrightarrow> utf8_valid f)"
  by (cases "frames z")
    (auto simp: message_to_vec_def message_to_string_def message_from_def msg_len_def pop_front_def from_utf8_def)

end
