(* ===== verification/Zmq_Codec.thy ===== *)
theory Zmq_Codec
  imports Command Message Options
begin

unbundle bit_operations_syntax

text \<open>
  \<open>src/codec/zmq_codec.rs\<close> and the \<open>Message\<close> enumeration of \<open>src/codec/mod.rs\<close>: the incremental
  frame decoder and the encoder.

  One turn of the decoder's loop is \<open>decode_step\<close>, the loop itself is \<open>decode\<close>. Every slice,
  index and addition that could panic in the code has a panic outcome in the model, so that the
  theorem that no reachable call panics has content. The order in which \<open>HashMap::iter\<close> visits
  the properties of a command is the parameter \<open>iter\<close> of the encoder.
\<close>

section \<open>Definitions\<close>

datatype message =
  Message_Greeting zmq_greeting | Message_Command zmq_command | Message_Message zmq_message

record frame =
  fr_command :: bool
  fr_long :: bool
  fr_more :: bool

datatype decoder_state = DGreeting | FrameHeader | FrameLen frame | Frame frame

record zmq_codec =
  state :: decoder_state
  waiting_for :: nat
  buffered_message :: "zmq_message option"
  max_read_chunk_size :: nat

definition codec_with_options :: "socket_options \<Rightarrow> zmq_codec" where
  "codec_with_options options =
     \<lparr>state = DGreeting, waiting_for = 64, buffered_message = None,
      max_read_chunk_size = read_buffer_max_size options\<rparr>"

definition codec_new :: zmq_codec where
  "codec_new = codec_with_options options_default"

definition bytes_needed :: "zmq_codec \<Rightarrow> nat \<Rightarrow> nat" where
  "bytes_needed c buffered_len = waiting_for c - buffered_len"

text \<open>What a call of \<open>decode\<close> produces: a panic, an error, \<open>Ok(None)\<close> after asking the buffer to
  reserve some bytes, or an item.\<close>

datatype decode_result = DecPanic | DecErr codec_error | DecNeed nat | DecItem message

datatype step_result =
    Return decode_result zmq_codec bytes
  | Continue zmq_codec bytes

text \<open>The capacity target of the reservation; \<open>None\<close> is an arithmetic overflow.\<close>

definition reserve_to :: "zmq_codec \<Rightarrow> nat option" where
  "reserve_to c =
     (if 2 * max_read_chunk_size c > usize_MAX then None
      else if waiting_for c > 2 * max_read_chunk_size c
        then checked_add (waiting_for c) (max_read_chunk_size c)
      else Some (waiting_for c))"

definition frame_of_flags :: "byte \<Rightarrow> frame" where
  "frame_of_flags flags =
     \<lparr>fr_command = (flags AND 0b00000100 \<noteq> 0), fr_long = (flags AND 0b00000010 \<noteq> 0),
      fr_more = (flags AND 0b00000001 \<noteq> 0)\<rparr>"

definition step_greeting :: "zmq_codec \<Rightarrow> bytes \<Rightarrow> step_result" where
  "step_greeting c src =
     (case src of
        [] \<Rightarrow> Return DecPanic c src
      | b # _ \<Rightarrow>
          if b \<noteq> 0xff then Return (DecErr (CodecDecode ''Bad first byte of greeting'')) c src
          else if length src < 64 then Return DecPanic c src
          else
            let c' = c\<lparr>state := FrameHeader, waiting_for := 1\<rparr> in
            (case greeting_try_from (take 64 src) of
               Inl e \<Rightarrow> Return (DecErr e) c' (drop 64 src)
             | Inr g \<Rightarrow> Return (DecItem (Message_Greeting g)) c' (drop 64 src)))"

definition step_header :: "zmq_codec \<Rightarrow> bytes \<Rightarrow> step_result" where
  "step_header c src =
     (case src of
        [] \<Rightarrow> Return DecPanic c src
      | flags # src' \<Rightarrow>
          let frame = frame_of_flags flags in
          Continue (c\<lparr>state := FrameLen frame, waiting_for := (if fr_long frame then 8 else 1)\<rparr>) src')"

abbreviation capacity_error :: decode_result where
  "capacity_error \<equiv> DecErr (CodecDecode ''Frame length exceeds read buffer capacity'')"

definition step_len :: "zmq_codec \<Rightarrow> frame \<Rightarrow> bytes \<Rightarrow> step_result" where
  "step_len c frame src =
     (if fr_long frame then
        if length src < 8 then Return DecPanic c src
        else
          let len = be_val (take 8 src); src' = drop 8 src in
          if len > usize_MAX then Return capacity_error c src'
          else case checked_add len (max_read_chunk_size c) of
            None \<Rightarrow> Return capacity_error c src'
          | Some capacity \<Rightarrow>
              if capacity > isize_MAX then Return capacity_error c src'
              else Continue (c\<lparr>state := Frame frame, waiting_for := len\<rparr>) src'
      else case src of
        [] \<Rightarrow> Return DecPanic c src
      | b # src' \<Rightarrow> Continue (c\<lparr>state := Frame frame, waiting_for := unat b\<rparr>) src')"

definition step_frame :: "zmq_codec \<Rightarrow> frame \<Rightarrow> bytes \<Rightarrow> step_result" where
  "step_frame c frame src =
     (if length src < waiting_for c then Return DecPanic c src
      else
        let data = take (waiting_for c) src; src' = drop (waiting_for c) src;
            c' = c\<lparr>state := FrameHeader, waiting_for := 1\<rparr> in
        if fr_command frame then
          (case command_try_from data of
             Inl e \<Rightarrow> Return (DecErr e) c' src'
           | Inr cmd \<Rightarrow> Return (DecItem (Message_Command cmd)) c' src')
        else
          let buffered = (case buffered_message c' of
                Some v \<Rightarrow> Some (push_back v data)
              | None \<Rightarrow> Some (message_from data)) in
          if \<not> fr_more frame then
            (case buffered of
               Some m \<Rightarrow> Return (DecItem (Message_Message m)) (c'\<lparr>buffered_message := None\<rparr>) src'
             | None \<Rightarrow> Return DecPanic c' src')
          else Continue (c'\<lparr>buffered_message := buffered\<rparr>) src')"

definition decode_step :: "zmq_codec \<Rightarrow> bytes \<Rightarrow> step_result" where
  "decode_step c src =
     (if length src < waiting_for c then
        (case reserve_to c of
           None \<Rightarrow> Return DecPanic c src
         | Some to \<Rightarrow> Return (DecNeed (to - length src)) c src)
      else case state c of
        DGreeting \<Rightarrow> step_greeting c src
      | FrameHeader \<Rightarrow> step_header c src
      | FrameLen frame \<Rightarrow> step_len c frame src
      | Frame frame \<Rightarrow> step_frame c frame src)"

text \<open>Every turn of the loop consumes input, except that a frame of length zero only moves the
  state on.\<close>

fun state_rank :: "decoder_state \<Rightarrow> nat" where
  "state_rank (Frame _) = 1"
| "state_rank _ = 0"

definition decode_measure :: "zmq_codec \<times> bytes \<Rightarrow> nat" where
  "decode_measure cs = (case cs of (c, src) \<Rightarrow> 2 * length src + state_rank (state c))"

lemmas step_defs =
  decode_step_def step_greeting_def step_header_def step_len_def step_frame_def Let_def

lemma decode_step_Continue_measure:
  "decode_step c src = Continue c' src' \<Longrightarrow> decode_measure (c', src') < decode_measure (c, src)"
  by (auto simp: step_defs decode_measure_def split: if_splits option.splits decoder_state.splits
      list.splits sum.splits)

function decode :: "zmq_codec \<Rightarrow> bytes \<Rightarrow> decode_result \<times> zmq_codec \<times> bytes" where
  "decode c src =
     (case decode_step c src of
        Return r c' src' \<Rightarrow> (r, c', src')
      | Continue c' src' \<Rightarrow> decode c' src')"
  by pat_completeness auto
termination
  by (relation "measure decode_measure") (auto simp: decode_step_Continue_measure)

definition encode_frame :: "bytes \<Rightarrow> bool \<Rightarrow> bytes" where
  "encode_frame frame more' =
     (let flags = (if more' then 0b00000001 else 0) :: byte; len = length frame in
      (if len > 255 then [flags OR 0b00000010] @ be_bytes 8 len
       else [flags, word_of_nat len])
      @ frame)"

text \<open>The bytes that \<open>encode\<close> appends to its buffer. A message without frames makes
  \<open>message.len() - 1\<close> underflow: \<open>None\<close>.\<close>

definition encode :: "(property_map \<Rightarrow> bytes list) \<Rightarrow> message \<Rightarrow> bytes option" where
  "encode iter message =
     (case message of
        Message_Greeting payload \<Rightarrow> Some (greeting_to_bytes payload)
      | Message_Command command \<Rightarrow> Some (command_to_bytes iter command)
      | Message_Message m \<Rightarrow>
          if msg_len m = 0 then None
          else
            let last_element = msg_len m - 1 in
            Some (concat (map (\<lambda>(idx, part). encode_frame part (idx \<noteq> last_element))
                              (List.enumerate 0 (frames m)))))"

section \<open>The loop\<close>

declare decode.simps [simp del]

lemma decode_Continue: "decode_step c src = Continue c' src' \<Longrightarrow> decode c src = decode c' src'"
  by (simp add: decode.simps [of c src])

lemma decode_Return: "decode_step c src = Return r c' src' \<Longrightarrow> decode c src = (r, c', src')"
  by (simp add: decode.simps [of c src])

text \<open>Induction along the loop for a property of its result.\<close>

lemma decode_induct [consumes 1, case_names Return Continue]:
  assumes "decode c src = (r, c', src')"
    and "\<And>c src r c' src'. decode_step c src = Return r c' src' \<Longrightarrow> P c src r c' src'"
    and "\<And>c src c1 src1 r c' src'. decode_step c src = Continue c1 src1 \<Longrightarrow>
           decode c1 src1 = (r, c', src') \<Longrightarrow> P c1 src1 r c' src' \<Longrightarrow> P c src r c' src'"
  shows "P c src r c' src'"
  using assms(1)
proof (induction c src rule: decode.induct)
  case (1 c src)
  show ?case
  proof (cases "decode_step c src")
    case (Return r1 c1 src1)
    with "1.prems" assms(2) show ?thesis by (simp add: decode_Return)
  next
    case (Continue c1 src1)
    with "1.prems" have "decode c1 src1 = (r, c', src')" by (simp add: decode_Continue)
    with Continue "1.IH" assms(3) show ?thesis by blast
  qed
qed

section \<open>The decoder's invariant\<close>

definition waiting_ok :: "zmq_codec \<Rightarrow> bool" where
  "waiting_ok c =
     (case state c of
        DGreeting \<Rightarrow> waiting_for c = 64
      | FrameHeader \<Rightarrow> waiting_for c = 1
      | FrameLen fr \<Rightarrow> waiting_for c = (if fr_long fr then 8 else 1)
      | Frame fr \<Rightarrow>
          if fr_long fr then waiting_for c + max_read_chunk_size c \<le> isize_MAX
          else waiting_for c \<le> 255)"

definition codec_wf :: "zmq_codec \<Rightarrow> bool" where
  "codec_wf c \<longleftrightarrow>
     max_read_chunk_size c \<le> isize_MAX div 2
     \<and> waiting_ok c
     \<and> (\<forall>m. buffered_message c = Some m \<longrightarrow> frames m \<noteq> [])"

lemma codec_wf_with_options: "options_wf opts \<Longrightarrow> codec_wf (codec_with_options opts)"
  by (simp add: codec_wf_def waiting_ok_def codec_with_options_def options_wf_def)

lemma codec_wf_waiting_bound:
  "codec_wf c \<Longrightarrow> waiting_for c + max_read_chunk_size c \<le> isize_MAX"
  by (auto simp: codec_wf_def waiting_ok_def isize_MAX_def split: decoder_state.splits if_splits)

lemma codec_wf_reserve_to:
  assumes "codec_wf c"
  shows "\<exists>to. reserve_to c = Some to \<and> waiting_for c \<le> to \<and> to \<le> isize_MAX"
proof -
  have "waiting_for c + max_read_chunk_size c \<le> isize_MAX"
    using assms by (rule codec_wf_waiting_bound)
  moreover have "2 * max_read_chunk_size c \<le> isize_MAX"
    using assms by (auto simp: codec_wf_def)
  ultimately show ?thesis
    using isize_le_usize by (auto simp: reserve_to_def checked_add_def)
qed

lemmas step_splits = if_splits option.splits decoder_state.splits list.splits sum.splits

lemma decode_step_wf_Continue:
  "codec_wf c \<Longrightarrow> decode_step c src = Continue c' src' \<Longrightarrow> codec_wf c'"
  by (auto simp: step_defs codec_wf_def waiting_ok_def checked_add_eq_Some unat_byte_less
      less_Suc_eq_le [symmetric] split: step_splits)

lemma decode_step_wf_Return:
  "codec_wf c \<Longrightarrow> decode_step c src = Return r c' src' \<Longrightarrow> codec_wf c'"
  by (auto simp: step_defs codec_wf_def waiting_ok_def split: step_splits)

lemma decode_step_no_panic:
  assumes wf: "codec_wf c"
  shows "decode_step c src \<noteq> Return DecPanic c' src'"
proof (cases "length src < waiting_for c")
  case True
  with codec_wf_reserve_to [OF wf] show ?thesis by (auto simp: decode_step_def)
next
  case False
  with wf show ?thesis
    by (auto simp: step_defs codec_wf_def waiting_ok_def split: step_splits)
qed

lemma decode_wf: "decode c src = (r, c', src') \<Longrightarrow> codec_wf c \<Longrightarrow> codec_wf c'"
  by (induction rule: decode_induct) (auto dest: decode_step_wf_Return decode_step_wf_Continue)

lemma decode_no_panic: "decode c src = (r, c', src') \<Longrightarrow> codec_wf c \<Longrightarrow> r \<noteq> DecPanic"
  by (induction rule: decode_induct) (auto dest: decode_step_no_panic decode_step_wf_Continue)

lemma decode_step_Need:
  "decode_step c src = Return (DecNeed n) c' src' \<longleftrightarrow>
     c' = c \<and> src' = src \<and> length src < waiting_for c
     \<and> (\<exists>to. reserve_to c = Some to \<and> n = to - length src)"
  by (auto simp: step_defs split: step_splits)

lemma decode_Need:
  assumes "decode c src = (DecNeed n, c', src')" and "codec_wf c"
  shows "length src' < waiting_for c' \<and> bytes_needed c' (length src') \<le> n
    \<and> length src' + n \<le> isize_MAX"
  using assms
proof (induction r \<equiv> "DecNeed n" c' src' rule: decode_induct)
  case (Return c src c' src')
  then obtain to where "c' = c" "src' = src" "length src < waiting_for c"
      "reserve_to c = Some to" "n = to - length src"
    by (auto simp: decode_step_Need)
  with codec_wf_reserve_to [OF Return.prems] show ?case
    by (auto simp: bytes_needed_def)
next
  case (Continue c src c1 src1 c' src')
  then show ?case by (blast dest: decode_step_wf_Continue)
qed

section \<open>Incremental decoding\<close>

text \<open>A turn of the loop that did not run out of input does the same when more input follows.\<close>

lemma decode_step_append_Continue:
  "decode_step c src = Continue c' src' \<Longrightarrow> decode_step c (src @ b) = Continue c' (src' @ b)"
  by (auto simp: step_defs split: step_splits)

lemma decode_step_append_Return:
  assumes "decode_step c src = Return r c' src'" and "r \<noteq> DecPanic" and "\<forall>n. r \<noteq> DecNeed n"
  shows "decode_step c (src @ b) = Return r c' (src' @ b)"
proof -
  have ge: "\<not> length src < waiting_for c"
    using assms by (auto simp: decode_step_def split: option.splits if_splits)
  show ?thesis
  proof (cases "state c")
    case DGreeting
    with ge assms show ?thesis
      by (auto simp: decode_step_def step_greeting_def Let_def split: if_splits list.splits sum.splits)
  next
    case FrameHeader
    with ge assms show ?thesis
      by (auto simp: decode_step_def step_header_def Let_def split: list.splits)
  next
    case (FrameLen fr)
    with ge assms show ?thesis
      by (auto simp: decode_step_def step_len_def Let_def split: if_splits option.splits list.splits)
  next
    case (Frame fr)
    with ge assms show ?thesis
      by (auto simp: decode_step_def step_frame_def Let_def split: if_splits option.splits sum.splits)
  qed
qed

lemma decode_append:
  assumes "decode c src = (r, c', src')" and "r \<noteq> DecPanic"
  shows "decode c (src @ b) =
    (case r of DecNeed n \<Rightarrow> decode c' (src' @ b) | _ \<Rightarrow> (r, c', src' @ b))"
  using assms
proof (induction rule: decode_induct)
  case (Return c src r c' src')
  show ?case
  proof (cases "\<exists>n. r = DecNeed n")
    case True
    with Return show ?thesis by (auto simp: decode_step_Need)
  next
    case False
    with Return.prems decode_step_append_Return [OF Return.hyps, of b]
    have "decode c (src @ b) = (r, c', src' @ b)" by (intro decode_Return) auto
    with False Return.prems show ?thesis by (auto split: decode_result.splits)
  qed
next
  case (Continue c src c1 src1 r c' src')
  then show ?case by (simp add: decode_Continue [OF decode_step_append_Continue])
qed

lemma decode_append_Need:
  "decode c src = (DecNeed n, c', src') \<Longrightarrow> decode c (src @ b) = decode c' (src' @ b)"
  by (simp add: decode_append)

lemma decode_append_Item:
  "decode c src = (DecItem m, c', src') \<Longrightarrow> decode c (src @ b) = (DecItem m, c', src' @ b)"
  by (simp add: decode_append)

lemma decode_append_Err:
  "decode c src = (DecErr e, c', src') \<Longrightarrow> decode c (src @ b) = (DecErr e, c', src' @ b)"
  by (simp add: decode_append)

lemma decode_step_suffix_Continue:
  "decode_step c src = Continue c' src' \<Longrightarrow> suffix src' src"
  by (auto simp: step_defs suffix_drop suffix_ConsI split: step_splits)

lemma decode_step_suffix_Return:
  "decode_step c src = Return r c' src' \<Longrightarrow> suffix src' src"
  by (auto simp: step_defs suffix_drop suffix_ConsI split: step_splits)

lemma decode_suffix: "decode c src = (r, c', src') \<Longrightarrow> suffix src' src"
  by (induction rule: decode_induct)
    (auto dest: decode_step_suffix_Return decode_step_suffix_Continue suffix_order.trans)

lemma decode_step_Item_measure:
  "decode_step c src = Return (DecItem m) c' src' \<Longrightarrow> decode_measure (c', src') < decode_measure (c, src)"
  by (auto simp: step_defs decode_measure_def split: step_splits)

lemma decode_Item_measure:
  assumes "decode c src = (DecItem m, c', src')"
  shows "decode_measure (c', src') < decode_measure (c, src)"
  using assms
  by (induction r \<equiv> "DecItem m" c' src' rule: decode_induct)
    (auto dest: decode_step_Item_measure decode_step_Continue_measure)

lemma decode_step_Item_state:
  "decode_step c src = Return (DecItem m) c' src' \<Longrightarrow> state c' = FrameHeader \<and> waiting_for c' = 1
    \<and> max_read_chunk_size c' = max_read_chunk_size c"
  by (auto simp: step_defs split: step_splits)

lemma decode_step_chunk_size:
  "decode_step c src = Continue c' src' \<Longrightarrow> max_read_chunk_size c' = max_read_chunk_size c"
  by (auto simp: step_defs split: step_splits)

section \<open>Decoding what was encoded\<close>

text \<open>A codec between two frames.\<close>

definition at_header :: "zmq_codec \<Rightarrow> bool" where
  "at_header c \<longleftrightarrow> state c = FrameHeader \<and> waiting_for c = 1"

definition frame_fits :: "zmq_codec \<Rightarrow> nat \<Rightarrow> bool" where
  "frame_fits c n \<longleftrightarrow> n + max_read_chunk_size c \<le> isize_MAX"

lemma frame_of_flags_simps [simp]:
  "frame_of_flags 0 = \<lparr>fr_command = False, fr_long = False, fr_more = False\<rparr>"
  "frame_of_flags 1 = \<lparr>fr_command = False, fr_long = False, fr_more = True\<rparr>"
  "frame_of_flags 2 = \<lparr>fr_command = False, fr_long = True, fr_more = False\<rparr>"
  "frame_of_flags 3 = \<lparr>fr_command = False, fr_long = True, fr_more = True\<rparr>"
  "frame_of_flags 4 = \<lparr>fr_command = True, fr_long = False, fr_more = False\<rparr>"
  "frame_of_flags 6 = \<lparr>fr_command = True, fr_long = True, fr_more = False\<rparr>"
  by (simp_all add: frame_of_flags_def)

text \<open>The header and length fields of a frame bring the decoder to the frame's body.\<close>

lemma decode_short_prefix:
  assumes "at_header c" and "\<not> fr_long (frame_of_flags flags)"
  shows "decode c (flags # n # rest) =
    decode (c\<lparr>state := Frame (frame_of_flags flags), waiting_for := unat n\<rparr>) rest"
proof -
  let ?c1 = "c\<lparr>state := FrameLen (frame_of_flags flags), waiting_for := 1\<rparr>"
  have "decode_step c (flags # n # rest) = Continue ?c1 (n # rest)"
    using assms by (simp add: step_defs at_header_def)
  moreover have "decode_step ?c1 (n # rest)
      = Continue (?c1\<lparr>state := Frame (frame_of_flags flags), waiting_for := unat n\<rparr>) rest"
    using assms by (simp add: step_defs)
  ultimately show ?thesis by (simp add: decode_Continue)
qed

lemma decode_long_prefix:
  assumes "at_header c" and "fr_long (frame_of_flags flags)" and "frame_fits c n"
  shows "decode c (flags # be_bytes 8 n @ rest) =
    decode (c\<lparr>state := Frame (frame_of_flags flags), waiting_for := n\<rparr>) rest"
proof -
  let ?c1 = "c\<lparr>state := FrameLen (frame_of_flags flags), waiting_for := 8\<rparr>"
  have bound: "n + max_read_chunk_size c \<le> usize_MAX" "n < 256 ^ 8" "n \<le> usize_MAX"
    using assms(3) by (auto simp: frame_fits_def isize_MAX_def usize_MAX_def)
  have "decode_step c (flags # be_bytes 8 n @ rest) = Continue ?c1 (be_bytes 8 n @ rest)"
    using assms by (simp add: step_defs at_header_def)
  moreover have "decode_step ?c1 (be_bytes 8 n @ rest)
      = Continue (?c1\<lparr>state := Frame (frame_of_flags flags), waiting_for := n\<rparr>) rest"
    using assms bound by (simp add: step_defs frame_fits_def)
  ultimately show ?thesis by (simp add: decode_Continue)
qed

definition append_frame :: "zmq_message option \<Rightarrow> bytes \<Rightarrow> zmq_message" where
  "append_frame buffered data =
     (case buffered of Some v \<Rightarrow> push_back v data | None \<Rightarrow> message_from data)"

lemma frames_append_frame:
  "frames (append_frame b data) = (case b of Some v \<Rightarrow> frames v | None \<Rightarrow> []) @ [data]"
  by (simp add: append_frame_def split: option.splits)

lemma decode_frame_body:
  assumes "\<not> fr_command fr"
  shows "decode (c\<lparr>state := Frame fr, waiting_for := length data\<rparr>) (data @ rest) =
    (if fr_more fr
     then decode (c\<lparr>state := FrameHeader, waiting_for := 1,
                    buffered_message := Some (append_frame (buffered_message c) data)\<rparr>) rest
     else (DecItem (Message_Message (append_frame (buffered_message c) data)),
           c\<lparr>state := FrameHeader, waiting_for := 1, buffered_message := None\<rparr>, rest))"
proof -
  let ?c = "c\<lparr>state := Frame fr, waiting_for := length data\<rparr>"
  show ?thesis
  proof (cases "fr_more fr")
    case True
    with assms have "decode_step ?c (data @ rest) = Continue (c\<lparr>state := FrameHeader,
        waiting_for := 1, buffered_message := Some (append_frame (buffered_message c) data)\<rparr>) rest"
      by (auto simp: step_defs append_frame_def split: option.splits)
    with True show ?thesis by (simp add: decode_Continue)
  next
    case False
    with assms have "decode_step ?c (data @ rest)
        = Return (DecItem (Message_Message (append_frame (buffered_message c) data)))
            (c\<lparr>state := FrameHeader, waiting_for := 1, buffered_message := None\<rparr>) rest"
      by (auto simp: step_defs append_frame_def split: option.splits)
    with False show ?thesis by (simp add: decode_Return)
  qed
qed

lemma decode_encode_frame:
  assumes "at_header c" and "frame_fits c (length f)"
  shows "decode c (encode_frame f more' @ rest) =
    (if more'
     then decode (c\<lparr>buffered_message := Some (append_frame (buffered_message c) f)\<rparr>) rest
     else (DecItem (Message_Message (append_frame (buffered_message c) f)),
           c\<lparr>buffered_message := None\<rparr>, rest))"
proof -
  have st: "c\<lparr>state := FrameHeader, waiting_for := 1, buffered_message := b\<rparr>
      = c\<lparr>buffered_message := b\<rparr>" for b
    using assms(1) by (cases c) (simp add: at_header_def)
  show ?thesis
  proof (cases "length f > 255")
    case True
    with assms show ?thesis
      by (cases more') (simp_all add: encode_frame_def decode_long_prefix decode_frame_body st [simplified])
  next
    case False
    with assms show ?thesis
      by (cases more') (simp_all add: encode_frame_def decode_short_prefix decode_frame_body st [simplified])
  qed
qed

text \<open>The frames of a message, each but the last flagged with more.\<close>

fun encode_frames :: "bytes list \<Rightarrow> bytes" where
  "encode_frames [] = []"
| "encode_frames [f] = encode_frame f False"
| "encode_frames (f # g # fs) = encode_frame f True @ encode_frames (g # fs)"

lemma encode_enumerate:
  "fs \<noteq> [] \<Longrightarrow>
    concat (map (\<lambda>(idx, part). encode_frame part (idx \<noteq> n + length fs - 1)) (List.enumerate n fs))
    = encode_frames fs"
proof (induction fs arbitrary: n rule: encode_frames.induct)
  case (3 f g fs)
  from "3.IH" [of "Suc n"] show ?case by simp
qed simp_all

lemma encode_Message:
  "encode iter (Message_Message m) = (if frames m = [] then None else Some (encode_frames (frames m)))"
  using encode_enumerate [of "frames m" 0] by (simp add: encode_def msg_len_def Let_def)

lemma decode_encode_frames:
  assumes "at_header c" and "fs \<noteq> []" and "\<forall>f \<in> set fs. frame_fits c (length f)"
  shows "decode c (encode_frames fs @ rest) =
    (DecItem (Message_Message \<lparr>frames =
        (case buffered_message c of Some v \<Rightarrow> frames v | None \<Rightarrow> []) @ fs\<rparr>),
     c\<lparr>buffered_message := None\<rparr>, rest)"
  using assms
proof (induction fs arbitrary: c rule: encode_frames.induct)
  case (2 f)
  then show ?case by (simp add: decode_encode_frame msg_eq_iff frames_append_frame)
next
  case (3 f g fs)
  let ?c = "c\<lparr>buffered_message := Some (append_frame (buffered_message c) f)\<rparr>"
  have "decode c (encode_frames (f # g # fs) @ rest) = decode ?c (encode_frames (g # fs) @ rest)"
    using "3.prems" by (simp add: decode_encode_frame)
  moreover have "at_header ?c" "\<forall>f \<in> set (g # fs). frame_fits ?c (length f)"
    using "3.prems" by (auto simp: at_header_def frame_fits_def)
  ultimately show ?case using "3.IH" [of ?c]
    by (simp add: frames_append_frame)
qed simp

lemma decode_encode_command:
  assumes "at_header c" and "frame_fits c (command_len iter cmd)"
    and "enumerates (iter (properties cmd)) (properties cmd)" and "encodable_command cmd"
  shows "decode c (command_to_bytes iter cmd @ rest) = (DecItem (Message_Command cmd), c, rest)"
proof -
  let ?n = "command_len iter cmd"
  have c: "c\<lparr>state := FrameHeader, waiting_for := 1\<rparr> = c"
    using assms(1) by (cases c) (simp add: at_header_def)
  have body: "command_try_from (command_body iter cmd) = Ok cmd"
    using assms(3,4) by (rule command_try_from_body)
  have "decode (c\<lparr>state := Frame fr, waiting_for := ?n\<rparr>) (command_body iter cmd @ rest)
      = (DecItem (Message_Command cmd), c, rest)" if "fr_command fr" for fr
    using that body c by (intro decode_Return) (simp add: step_defs)
  then show ?thesis using assms(1,2)
    by (simp add: command_to_bytes_def Let_def decode_long_prefix decode_short_prefix)
qed

lemma decode_encode_greeting:
  assumes "state c = DGreeting" and "waiting_for c = 64"
  shows "decode c (greeting_to_bytes g @ rest)
    = (DecItem (Message_Greeting g), c\<lparr>state := FrameHeader, waiting_for := 1\<rparr>, rest)"
proof -
  obtain bs where bs: "greeting_to_bytes g = 0xff # bs"
    using hd_greeting_to_bytes [of g] length_greeting_to_bytes [of g]
    by (cases "greeting_to_bytes g") auto
  have len: "length (greeting_to_bytes g) = 64" by simp
  have "decode_step c (greeting_to_bytes g @ rest)
      = Return (DecItem (Message_Greeting g)) (c\<lparr>state := FrameHeader, waiting_for := 1\<rparr>) rest"
    using assms greeting_roundtrip [of g] len unfolding bs by (simp add: step_defs)
  then show ?thesis by (rule decode_Return)
qed

section \<open>Whole streams\<close>

text \<open>All items that repeated calls of \<open>decode\<close> take from a buffer, and how the last call ended.\<close>

function decode_all :: "zmq_codec \<Rightarrow> bytes \<Rightarrow> message list \<times> decode_result \<times> zmq_codec \<times> bytes" where
  "decode_all c src =
     (case decode c src of
        (DecItem m, c', src') \<Rightarrow> (let (ms, r) = decode_all c' src' in (m # ms, r))
      | (r, c', src') \<Rightarrow> ([], r, c', src'))"
  by pat_completeness auto
termination
  by (relation "measure decode_measure") (auto intro: decode_Item_measure [OF sym])

declare decode_all.simps [simp del]

lemma decode_all_Item:
  "decode c src = (DecItem m, c', src') \<Longrightarrow>
    decode_all c src = (let (ms, r) = decode_all c' src' in (m # ms, r))"
  by (simp add: decode_all.simps [of c src])

lemma decode_all_stop:
  "decode c src = (r, c', src') \<Longrightarrow> \<forall>m. r \<noteq> DecItem m \<Longrightarrow> decode_all c src = ([], r, c', src')"
  by (cases r) (simp_all add: decode_all.simps [of c src])

text \<open>Messages that a codec with these limits can carry between two frames.\<close>

definition wire_ok :: "(property_map \<Rightarrow> bytes list) \<Rightarrow> zmq_codec \<Rightarrow> message \<Rightarrow> bool" where
  "wire_ok iter c message =
     (case message of
        Message_Greeting _ \<Rightarrow> False
      | Message_Command cmd \<Rightarrow>
          frame_fits c (command_len iter cmd) \<and> encodable_command cmd
          \<and> enumerates (iter (properties cmd)) (properties cmd)
      | Message_Message m \<Rightarrow> frames m \<noteq> [] \<and> (\<forall>f \<in> set (frames m). frame_fits c (length f)))"

definition encoding :: "(property_map \<Rightarrow> bytes list) \<Rightarrow> message \<Rightarrow> bytes" where
  "encoding iter m = (case encode iter m of Some bs \<Rightarrow> bs | None \<Rightarrow> [])"

lemma encode_total: "wire_ok iter c m \<Longrightarrow> encode iter m = Some (encoding iter m)"
  by (cases m) (auto simp: wire_ok_def encoding_def encode_def msg_len_def)

lemma decode_encoding:
  assumes "at_header c" and "buffered_message c = None" and "wire_ok iter c m"
  shows "decode c (encoding iter m @ rest) = (DecItem m, c, rest)"
proof (cases m)
  case (Message_Greeting g)
  with assms show ?thesis by (simp add: wire_ok_def)
next
  case (Message_Command cmd)
  with assms show ?thesis
    using decode_encode_command [of c iter cmd rest]
    by (simp add: wire_ok_def encoding_def encode_def)
next
  case (Message_Message zm)
  moreover have "c\<lparr>buffered_message := None\<rparr> = c" using assms(2) by (cases c) simp
  ultimately show ?thesis
    using assms by (simp add: wire_ok_def encoding_def encode_Message decode_encode_frames)
qed

lemma decode_all_encodings:
  assumes "at_header c" and "buffered_message c = None" and "\<forall>m \<in> set ms. wire_ok iter c m"
  shows "decode_all c (concat (map (encoding iter) ms) @ rest) =
    (let (ms', r) = decode_all c rest in (ms @ ms', r))"
  using assms(3)
proof (induction ms)
  case Nil
  then show ?case by (simp add: case_prod_unfold)
next
  case (Cons m ms)
  have "decode c (encoding iter m @ concat (map (encoding iter) ms) @ rest)
      = (DecItem m, c, concat (map (encoding iter) ms) @ rest)"
    using assms(1,2) Cons.prems by (intro decode_encoding) auto
  then show ?case using Cons by (simp add: decode_all_Item case_prod_unfold Let_def)
qed

text \<open>Nothing is left to decode in an empty buffer between two frames.\<close>

lemma decode_all_empty:
  assumes "at_header c" and "codec_wf c"
  shows "\<exists>n. decode_all c [] = ([], DecNeed n, c, [])"
proof -
  obtain to where "reserve_to c = Some to" using codec_wf_reserve_to [OF assms(2)] by auto
  with assms(1) have "decode_step c [] = Return (DecNeed to) c []"
    by (simp add: decode_step_def at_header_def)
  from decode_all_stop [OF decode_Return [OF this]] show ?thesis by auto
qed

text \<open>Splitting the input does not matter: after \<open>Ok(None)\<close> the codec resumes exactly where it
  stopped.\<close>

lemma decode_all_append:
  assumes "decode_all c a = (ms, DecNeed n, c', a')"
  shows "decode_all c (a @ b) = (let (ms', r) = decode_all c' (a' @ b) in (ms @ ms', r))"
  using assms
proof (induction c a arbitrary: ms rule: decode_all.induct)
  case (1 c a)
  obtain r c1 a1 where d: "decode c a = (r, c1, a1)" by (cases "decode c a")
  show ?case
  proof (cases "\<exists>m. r = DecItem m")
    case True
    then obtain m where r: "r = DecItem m" by blast
    with d "1.prems" obtain ms1 where "decode_all c1 a1 = (ms1, DecNeed n, c', a')" "ms = m # ms1"
      by (auto simp: decode_all_Item case_prod_unfold Let_def prod_eq_iff)
    with "1.IH" d r show ?thesis
      by (simp add: decode_all_Item [OF decode_append_Item] case_prod_unfold Let_def)
  next
    case False
    with d "1.prems" have "r = DecNeed n" "ms = []" "c1 = c'" "a1 = a'"
      by (auto simp: decode_all_stop)
    with d decode_append_Need [of c a n c' a' b] show ?thesis
      by (simp add: decode_all.simps [of c "a @ b"] decode_all.simps [of c' "a' @ b"]
          case_prod_unfold)
  qed
qed

text \<open>An error, too, does not depend on what follows in the buffer.\<close>

lemma decode_all_append_Err:
  assumes "decode_all c a = (ms, DecErr e, c', a')"
  shows "decode_all c (a @ b) = (ms, DecErr e, c', a' @ b)"
  using assms
proof (induction c a arbitrary: ms rule: decode_all.induct)
  case (1 c a)
  obtain r c1 a1 where d: "decode c a = (r, c1, a1)" by (cases "decode c a")
  show ?case
  proof (cases "\<exists>m. r = DecItem m")
    case True
    then obtain m where r: "r = DecItem m" by blast
    with d "1.prems" obtain ms1 where "decode_all c1 a1 = (ms1, DecErr e, c', a')" "ms = m # ms1"
      by (auto simp: decode_all_Item case_prod_unfold Let_def prod_eq_iff)
    with "1.IH" d r show ?thesis
      by (simp add: decode_all_Item [OF decode_append_Item] case_prod_unfold Let_def)
  next
    case False
    with d "1.prems" have "r = DecErr e" "ms = []" "c1 = c'" "a1 = a'"
      by (auto simp: decode_all_stop)
    with d show ?thesis by (simp add: decode_all_stop [OF decode_append_Err])
  qed
qed

lemma decode_all_result:
  assumes "decode_all c a = (ms, r, c', a')" and "codec_wf c"
  shows "codec_wf c' \<and> ((\<exists>e. r = DecErr e)
    \<or> (\<exists>n. r = DecNeed n \<and> length a' < waiting_for c' \<and> length a' + n \<le> isize_MAX))"
  using assms
proof (induction c a arbitrary: ms rule: decode_all.induct)
  case (1 c a)
  obtain r1 c1 a1 where d: "decode c a = (r1, c1, a1)" by (cases "decode c a")
  then have wf: "codec_wf c1" "r1 \<noteq> DecPanic"
    using "1.prems"(2) decode_wf decode_no_panic by blast+
  show ?case
  proof (cases r1)
    case (DecItem m)
    with d "1.prems" obtain ms1 where "decode_all c1 a1 = (ms1, r, c', a')"
      by (auto simp: decode_all_Item case_prod_unfold Let_def prod_eq_iff)
    from "1.IH" [OF d [symmetric] DecItem refl this wf(1)] show ?thesis .
  next
    case (DecNeed n)
    with d "1.prems" decode_Need [of c a n c1 a1] wf show ?thesis by (auto simp: decode_all_stop)
  qed (use d "1.prems" wf in \<open>auto simp: decode_all_stop\<close>)
qed

text \<open>Input that arrives in chunks: after each chunk everything that can be decoded is; an error ends the
  decoding and leaves the rest of the input where it is.\<close>

fun decode_chunks :: "zmq_codec \<Rightarrow> bytes \<Rightarrow> bytes list \<Rightarrow> message list \<times> decode_result \<times> zmq_codec \<times> bytes" where
  "decode_chunks c buf [] = decode_all c buf"
| "decode_chunks c buf (x # xs) =
     (case decode_all c buf of
        (ms, DecNeed n, c', buf') \<Rightarrow> (let (ms', r) = decode_chunks c' (buf' @ x) xs in (ms @ ms', r))
      | (ms, r, c', buf') \<Rightarrow> (ms, r, c', buf' @ concat (x # xs)))"

lemma decode_chunks_eq:
  "codec_wf c \<Longrightarrow> decode_chunks c buf xs = decode_all c (buf @ concat xs)"
proof (induction xs arbitrary: c buf)
  case (Cons x xs)
  obtain ms r c' buf' where d: "decode_all c buf = (ms, r, c', buf')"
    by (cases "decode_all c buf")
  note res = decode_all_result [OF d Cons.prems]
  then consider e where "r = DecErr e" | n where "r = DecNeed n" by blast
  then show ?case
  proof cases
    case 1
    with d decode_all_append_Err [of c buf ms e c' buf' "concat (x # xs)"] show ?thesis by simp
  next
    case 2
    with d res Cons.IH [of c' "buf' @ x"] decode_all_append [of c buf ms n c' buf' "x @ concat xs"]
    show ?thesis by simp
  qed
qed simp

section \<open>Properties\<close>

text \<open>C17: Chunk independence: decoding a byte stream piece by piece, as the transport delivers it, gives the
  same messages, the same error and the same final state of the codec and buffer as decoding it in one go,
  however it is cut.\<close>

theorem codec_chunk_independence:
  assumes "codec_wf c" and "concat xs = concat ys"
  shows "decode_chunks c buf xs = decode_chunks c buf ys"
  using assms by (simp add: decode_chunks_eq)

theorem codec_chunk_independence_witness:
  "decode_chunks (codec_with_options options_default) [] [[0xff, 1], [], [2, 3]]
    = decode_chunks (codec_with_options options_default) [] [[0xff], [1, 2, 3]]"
  by (rule codec_chunk_independence) (simp_all add: codec_wf_with_options options_default_wf)

text \<open>C7: Round trip of a connection's byte stream: a codec with any admissible options that receives a greeting
  and then the encodings of any messages and commands whose frames fit the read buffer decodes exactly these,
  in order and in one piece each, and is left between two frames with an empty buffer.\<close>

theorem codec_stream_roundtrip:
  assumes "options_wf opts" and "\<forall>m \<in> set ms. wire_ok iter (codec_with_options opts) m"
  shows "\<exists>n. decode_all (codec_with_options opts)
      (greeting_to_bytes g @ concat (map (\<lambda>m. the (encode iter m)) ms))
    = (Message_Greeting g # ms, DecNeed n,
       (codec_with_options opts) \<lparr> state := FrameHeader, waiting_for := 1 \<rparr>, [])"
proof -
  let ?c = "codec_with_options opts" and ?c1 = "(codec_with_options opts) \<lparr> state := FrameHeader, waiting_for := 1 \<rparr>"
  let ?bs = "concat (map (encoding iter) ms)"
  have c1: "at_header ?c1" "buffered_message ?c1 = None"
    by (simp_all add: at_header_def codec_with_options_def)
  have wf1: "codec_wf ?c1" using codec_wf_with_options [OF assms(1)] by (simp add: codec_wf_def waiting_ok_def codec_with_options_def)
  have ok: "\<forall>m \<in> set ms. wire_ok iter ?c1 m"
    using assms(2) by (auto simp: wire_ok_def frame_fits_def split: message.splits)
  have bytes: "concat (map (\<lambda>m. the (encode iter m)) ms) = ?bs"
    using assms(2) by (intro arg_cong [of _ _ concat] map_cong refl) (auto simp: encode_total)
  obtain n where n: "decode_all ?c1 [] = ([], DecNeed n, ?c1, [])" using decode_all_empty [OF c1(1) wf1] by blast
  have "decode_all ?c1 (?bs @ []) = (ms, DecNeed n, ?c1, [])"
    unfolding decode_all_encodings [OF c1 ok, of "[]"] n by simp
  moreover have "decode ?c (greeting_to_bytes g @ ?bs) = (DecItem (Message_Greeting g), ?c1, ?bs)"
    by (rule decode_encode_greeting) (simp_all add: codec_with_options_def)
  ultimately show ?thesis unfolding bytes by (intro exI [of _ n]) (simp add: decode_all_Item)
qed

theorem codec_stream_roundtrip_witness:
  "\<exists>n. decode_all (codec_with_options options_default)
      (greeting_to_bytes greeting_default @ [1, 2, 7, 8, 0, 1, 9])
    = ([Message_Greeting greeting_default, Message_Message \<lparr> frames = [[7, 8], [9]] \<rparr>], DecNeed n,
       (codec_with_options options_default) \<lparr> state := FrameHeader, waiting_for := 1 \<rparr>, [])"
proof -
  let ?m = "Message_Message \<lparr> frames = [[7, 8], [9]] \<rparr>"
  have "wire_ok (\<lambda>_. []) (codec_with_options options_default) ?m"
    by (simp add: wire_ok_def frame_fits_def codec_with_options_def options_default_def isize_MAX_def)
  moreover have "the (encode (\<lambda>_. []) ?m) = [1, 2, 7, 8, 0, 1, 9]"
    by (simp add: encode_Message encode_frame_def)
  ultimately show ?thesis
    using codec_stream_roundtrip [OF options_default_wf, of "[?m]" "\<lambda>_. []" greeting_default] by simp
qed



text \<open>The encoder has a result for every greeting, every command and every message with at least one frame;
  for a message without frames the subtraction \<open>message.len() - 1\<close> underflows.\<close>

theorem encode_underflow_iff:
  "encode iter m = None \<longleftrightarrow> (\<exists>z. m = Message_Message z \<and> frames z = [])"
  by (cases m) (simp_all add: encode_def msg_len_def Let_def)

end
