(* ===== verification/Framed.thy ===== *)
theory Framed
  imports Zmq_Codec
begin

text \<open>
  \<open>src/codec/framed.rs\<close>: the framed reader with its adaptive read chunk.

  The transport (\<open>AsyncRead\<close>) is the parameter \<open>poll_read\<close>: given the reader's state and the
  length of the slice it is offered, it returns \<open>Pending\<close>, an error, or the bytes that it wrote
  into the slice. What the reader relies on is the contract \<open>transport\<close> below. The codec trait's
  \<open>decode_eof\<close>, whose default body \<open>ZmqCodec\<close> inherits, is the parameter \<open>decode_eof\<close>.

  The read loop takes fuel, one unit per turn; \<open>None\<close> means out of fuel. The lemma
  \<open>read_loop_terminates\<close> says how much is enough.
\<close>

section \<open>Definitions\<close>

record 'r framed_read =
  rd_inner :: 'r
  rd_codec :: zmq_codec
  rd_buffer :: bytes
  rd_chunk_size :: nat
  rd_options :: socket_options
  rd_short_reads :: nat

type_synonym 'r poll_read = "'r \<Rightarrow> nat \<Rightarrow> (io_error + bytes) poll \<times> 'r"
type_synonym eof_decoder = "zmq_codec \<Rightarrow> bytes \<Rightarrow> decode_result \<times> zmq_codec \<times> bytes"

definition framed_read_new :: "'r \<Rightarrow> socket_options \<Rightarrow> 'r framed_read" where
  "framed_read_new inner options =
     \<lparr>rd_inner = inner, rd_codec = codec_with_options options, rd_buffer = [],
      rd_chunk_size = read_buffer_initial_size options, rd_options = options,
      rd_short_reads = 0\<rparr>"

text \<open>\<open>usize::next_power_of_two\<close>.\<close>

fun next_power_of_two :: "nat \<Rightarrow> nat" where
  "next_power_of_two n = (if n \<le> 1 then 1 else 2 * next_power_of_two ((n + 1) div 2))"

declare next_power_of_two.simps [simp del]

definition read_size :: "'r framed_read \<Rightarrow> nat \<Rightarrow> nat" where
  "read_size rd min_read_size =
     min (max (rd_chunk_size rd) min_read_size) (read_buffer_max_size (rd_options rd))"

text \<open>The adaptation after a read of \<open>bytes_read\<close> bytes into a slice of \<open>rsize\<close> bytes.\<close>

definition grow_chunk :: "'r framed_read \<Rightarrow> nat \<Rightarrow> nat \<Rightarrow> 'r framed_read" where
  "grow_chunk rd rsize bytes_read =
     (if bytes_read \<ge> rsize \<and> rd_chunk_size rd < read_buffer_max_size (rd_options rd)
      then rd\<lparr>rd_chunk_size := min (rd_chunk_size rd * 2) (read_buffer_max_size (rd_options rd))\<rparr>
      else rd)"

definition count_short_read :: "'r framed_read \<Rightarrow> nat \<Rightarrow> 'r framed_read" where
  "count_short_read rd bytes_read =
     (if bytes_read > 0 \<and> bytes_read < rd_chunk_size rd div 2 then
        let rd' = rd\<lparr>rd_short_reads := rd_short_reads rd + 1\<rparr> in
        if rd_short_reads rd' = read_buffer_short_reads (rd_options rd') then
          rd'\<lparr>rd_chunk_size :=
                 min (max (next_power_of_two bytes_read * 2)
                          (read_buffer_initial_size (rd_options rd') * 2))
                     (rd_chunk_size rd'),
              rd_short_reads := 0\<rparr>
        else rd'
      else if bytes_read > 0 then rd\<lparr>rd_short_reads := 0\<rparr>
      else rd)"

datatype read_result = ReadPanic | ReadPending | ReadErr io_error | ReadOk nat

text \<open>Growing the buffer beyond \<open>isize::MAX\<close> bytes panics.\<close>

definition poll_read_into_buffer ::
    "'r poll_read \<Rightarrow> 'r framed_read \<Rightarrow> nat \<Rightarrow> read_result \<times> 'r framed_read" where
  "poll_read_into_buffer poll_read rd min_read_size =
     (let start = length (rd_buffer rd); rsize = read_size rd min_read_size in
      if start + rsize > isize_MAX then (ReadPanic, rd)
      else case poll_read (rd_inner rd) rsize of
        (Ready (Inr bs), r') \<Rightarrow>
          let rd' = rd\<lparr>rd_inner := r', rd_buffer := rd_buffer rd @ bs\<rparr> in
          (ReadOk (length bs), count_short_read (grow_chunk rd' rsize (length bs)) (length bs))
      | (Ready (Inl error), r') \<Rightarrow> (ReadErr error, rd\<lparr>rd_inner := r'\<rparr>)
      | (Pending, r') \<Rightarrow> (ReadPending, rd\<lparr>rd_inner := r'\<rparr>))"

datatype next_result = NextPanic | NextPending | NextEnd | NextItem "codec_error + message"

text \<open>A call of the decoder on the buffer: finished with a result, or \<open>Ok(None)\<close>.\<close>

definition decode_buffer ::
    "eof_decoder \<Rightarrow> 'r framed_read \<Rightarrow> next_result option \<times> 'r framed_read" where
  "decode_buffer dec rd =
     (case dec (rd_codec rd) (rd_buffer rd) of
        (r, c', b') \<Rightarrow>
          ((case r of
              DecPanic \<Rightarrow> Some NextPanic
            | DecErr e \<Rightarrow> Some (NextItem (Err e))
            | DecItem m \<Rightarrow> Some (NextItem (Ok m))
            | DecNeed _ \<Rightarrow> None),
           rd\<lparr>rd_codec := c', rd_buffer := b'\<rparr>))"

text \<open>What happens once the transport has reported the end of the stream.\<close>

definition finish_eof :: "eof_decoder \<Rightarrow> 'r framed_read \<Rightarrow> next_result \<times> 'r framed_read" where
  "finish_eof decode_eof rd =
     (if rd_buffer rd = [] then (NextEnd, rd)
      else case decode_buffer decode_eof rd of
        (Some r, rd') \<Rightarrow> (r, rd')
      | (None, rd') \<Rightarrow>
          if rd_buffer rd' = [] then (NextEnd, rd')
          else (NextItem (Err (CodecIo UnexpectedEof)), rd'))"

fun read_loop ::
    "nat \<Rightarrow> 'r poll_read \<Rightarrow> eof_decoder \<Rightarrow> 'r framed_read \<Rightarrow> (next_result \<times> 'r framed_read) option" where
  "read_loop 0 poll_read decode_eof rd = None"
| "read_loop (Suc fuel) poll_read decode_eof rd =
     (case poll_read_into_buffer poll_read rd (bytes_needed (rd_codec rd) (length (rd_buffer rd))) of
        (ReadPanic, rd') \<Rightarrow> Some (NextPanic, rd')
      | (ReadPending, rd') \<Rightarrow> Some (NextPending, rd')
      | (ReadErr e, rd') \<Rightarrow> Some (NextItem (Err (CodecIo e)), rd')
      | (ReadOk n, rd') \<Rightarrow>
          (case decode_buffer decode rd' of
             (Some r, rd'') \<Rightarrow> Some (r, rd'')
           | (None, rd'') \<Rightarrow>
               if n = 0 then Some (finish_eof decode_eof rd'')
               else read_loop fuel poll_read decode_eof rd''))"

definition framed_poll_next ::
    "nat \<Rightarrow> 'r poll_read \<Rightarrow> eof_decoder \<Rightarrow> 'r framed_read \<Rightarrow> (next_result \<times> 'r framed_read) option" where
  "framed_poll_next fuel poll_read decode_eof rd =
     (case decode_buffer decode rd of
        (Some r, rd') \<Rightarrow> Some (r, rd')
      | (None, rd') \<Rightarrow> read_loop fuel poll_read decode_eof rd')"

section \<open>The transport's contract\<close>

text \<open>\<open>stream r\<close> are the bytes that the transport will still deliver. A read writes at most as many
  bytes as it is offered, in order; a read of zero bytes into a non-empty slice is the end of the
  stream; a pending read delivers nothing.\<close>

definition transport :: "'r poll_read \<Rightarrow> ('r \<Rightarrow> bytes) \<Rightarrow> bool" where
  "transport poll_read stream \<longleftrightarrow>
     (\<forall>r n bs r'. poll_read r n = (Ready (Ok bs), r') \<longrightarrow>
        length bs \<le> n \<and> stream r = bs @ stream r' \<and> (bs = [] \<and> 0 < n \<longrightarrow> stream r = []))
     \<and> (\<forall>r n r'. poll_read r n = (Pending, r') \<longrightarrow> stream r' = stream r)"

lemma transport_Ok:
  assumes "transport poll_read stream" and "poll_read r n = (Ready (Ok bs), r')"
  shows "length bs \<le> n" and "stream r = bs @ stream r'" and "bs = [] \<Longrightarrow> 0 < n \<Longrightarrow> stream r = []"
  using assms unfolding transport_def by blast+

lemma transport_Pending:
  "transport poll_read stream \<Longrightarrow> poll_read r n = (Pending, r') \<Longrightarrow> stream r' = stream r"
  by (auto simp: transport_def)

section \<open>The reader's invariant\<close>

lemma next_power_of_two_ge: "n \<le> next_power_of_two n"
proof (induction n rule: next_power_of_two.induct)
  case (1 n)
  then show ?case by (subst next_power_of_two.simps) auto
qed

lemma next_power_of_two_less: "0 < n \<Longrightarrow> next_power_of_two n < 2 * n"
proof (induction n rule: next_power_of_two.induct)
  case (1 n)
  show ?case
  proof (cases "n \<le> 1")
    case True
    with "1.prems" show ?thesis by (simp add: next_power_of_two.simps [of n])
  next
    case False
    then have "next_power_of_two ((n + 1) div 2) < 2 * ((n + 1) div 2)"
      using "1.IH" by simp
    moreover have "\<exists>k. next_power_of_two m = 2 ^ k" for m
    proof (induction m rule: next_power_of_two.induct)
      case (1 m)
      then show ?case
        by (subst next_power_of_two.simps) (auto intro: exI [of _ 0] simp flip: power_Suc)
    qed
    then obtain k where k: "next_power_of_two ((n + 1) div 2) = 2 ^ k" by blast
    ultimately show ?thesis using False
      by (cases k) (auto simp: next_power_of_two.simps [of n])
  qed
qed

definition framed_wf :: "'r framed_read \<Rightarrow> bool" where
  "framed_wf rd \<longleftrightarrow>
     options_wf (rd_options rd)
     \<and> codec_wf (rd_codec rd)
     \<and> max_read_chunk_size (rd_codec rd) = read_buffer_max_size (rd_options rd)
     \<and> read_buffer_initial_size (rd_options rd) \<le> rd_chunk_size rd
     \<and> rd_chunk_size rd \<le> read_buffer_max_size (rd_options rd)
     \<and> rd_short_reads rd < read_buffer_short_reads (rd_options rd)"

lemma framed_wf_new: "options_wf opts \<Longrightarrow> framed_wf (framed_read_new r opts)"
  by (simp add: framed_wf_def framed_read_new_def codec_wf_with_options)
    (simp add: options_wf_def codec_with_options_def)

lemma framed_wf_frame [simp]:
  "framed_wf (rd\<lparr>rd_inner := r\<rparr>) = framed_wf rd"
  "framed_wf (rd\<lparr>rd_buffer := b\<rparr>) = framed_wf rd"
  by (simp_all add: framed_wf_def)

lemma grow_chunk_wf: "framed_wf rd \<Longrightarrow> framed_wf (grow_chunk rd rsize n)"
  by (auto simp: grow_chunk_def framed_wf_def options_wf_def)

lemma count_short_read_wf: "framed_wf rd \<Longrightarrow> framed_wf (count_short_read rd n)"
  by (auto simp: count_short_read_def framed_wf_def options_wf_def Let_def)

lemma adapt_unchanged [simp]:
  "rd_inner (grow_chunk rd rsize n) = rd_inner rd"
  "rd_codec (grow_chunk rd rsize n) = rd_codec rd"
  "rd_buffer (grow_chunk rd rsize n) = rd_buffer rd"
  "rd_options (grow_chunk rd rsize n) = rd_options rd"
  "rd_inner (count_short_read rd n) = rd_inner rd"
  "rd_codec (count_short_read rd n) = rd_codec rd"
  "rd_buffer (count_short_read rd n) = rd_buffer rd"
  "rd_options (count_short_read rd n) = rd_options rd"
  by (simp_all add: grow_chunk_def count_short_read_def Let_def)

text \<open>A chunk never grows above the maximum, never falls below the initial size, and the
  intermediate products of the adaptation are representable.\<close>

lemma read_size_bounds:
  assumes "framed_wf rd"
  shows "0 < read_size rd k" and "read_size rd k \<le> read_buffer_max_size (rd_options rd)"
  using assms by (auto simp: read_size_def framed_wf_def options_wf_def)

section \<open>Preservation\<close>

lemma decode_chunk_size: "decode c src = (r, c', src') \<Longrightarrow> max_read_chunk_size c' = max_read_chunk_size c"
proof (induction rule: decode_induct)
  case (Return c src r c' src')
  then show ?case by (auto simp: step_defs split: step_splits)
next
  case (Continue c src c1 src1 r c' src')
  then show ?case by (simp add: decode_step_chunk_size)
qed

lemma decode_buffer_wf:
  "framed_wf rd \<Longrightarrow> decode_buffer decode rd = (r, rd') \<Longrightarrow> framed_wf rd' \<and> r \<noteq> Some NextPanic"
  by (auto simp: decode_buffer_def framed_wf_def dest: decode_wf decode_no_panic decode_chunk_size
      split: prod.splits decode_result.splits)

text \<open>The reader is waiting for input: its buffer is shorter than what the codec waits for.\<close>

definition starving :: "'r framed_read \<Rightarrow> bool" where
  "starving rd \<longleftrightarrow> length (rd_buffer rd) < waiting_for (rd_codec rd)"

lemma decode_buffer_None:
  assumes "framed_wf rd" and "decode_buffer decode rd = (None, rd')"
  shows "\<exists>n. decode (rd_codec rd) (rd_buffer rd) = (DecNeed n, rd_codec rd', rd_buffer rd')
    \<and> starving rd' \<and> rd_inner rd' = rd_inner rd"
  using assms decode_Need
  by (fastforce simp: decode_buffer_def framed_wf_def starving_def
      split: prod.splits decode_result.splits)

lemma starving_room:
  assumes "framed_wf rd" and "starving rd"
  shows "length (rd_buffer rd) + read_size rd k \<le> isize_MAX"
proof -
  have "waiting_for (rd_codec rd) + max_read_chunk_size (rd_codec rd) \<le> isize_MAX"
    using assms(1) by (intro codec_wf_waiting_bound) (simp add: framed_wf_def)
  with assms read_size_bounds(2) [OF assms(1), of k] show ?thesis
    by (simp add: starving_def framed_wf_def)
qed

lemma poll_read_into_buffer_wf:
  assumes "framed_wf rd" and "starving rd" and "poll_read_into_buffer poll_read rd k = (r, rd')"
  shows "framed_wf rd' \<and> r \<noteq> ReadPanic"
  using assms starving_room [OF assms(1,2), of k]
  by (auto simp: poll_read_into_buffer_def Let_def intro!: grow_chunk_wf count_short_read_wf
      split: prod.splits poll.splits sum.splits if_splits)

lemma finish_eof_wf:
  "framed_wf rd \<Longrightarrow> finish_eof decode rd = (r, rd') \<Longrightarrow> framed_wf rd' \<and> r \<noteq> NextPanic"
  by (auto simp: finish_eof_def dest: decode_buffer_wf split: prod.splits option.splits if_splits)

lemma read_loop_wf:
  assumes "framed_wf rd" and "starving rd"
    and "read_loop fuel poll_read decode rd = Some (r, rd')"
  shows "framed_wf rd' \<and> r \<noteq> NextPanic"
  using assms
proof (induction fuel arbitrary: rd)
  case (Suc fuel)
  obtain p rd1 where p: "poll_read_into_buffer poll_read rd
      (bytes_needed (rd_codec rd) (length (rd_buffer rd))) = (p, rd1)" by fastforce
  with Suc.prems have wf1: "framed_wf rd1" "p \<noteq> ReadPanic"
    using poll_read_into_buffer_wf by blast+
  show ?case
  proof (cases p)
    case (ReadOk n)
    obtain d rd2 where d: "decode_buffer decode rd1 = (d, rd2)" by fastforce
    with wf1 have wf2: "framed_wf rd2" "d \<noteq> Some NextPanic" using decode_buffer_wf by blast+
    show ?thesis
    proof (cases d)
      case None
      with d wf1 have "starving rd2" using decode_buffer_None by blast
      with Suc.IH [of rd2] wf2 Suc.prems p ReadOk d None finish_eof_wf [of rd2] show ?thesis
        by (simp split: if_splits)
    next
      case (Some x)
      with Suc.prems p ReadOk d wf2 show ?thesis by simp
    qed
  qed (use Suc.prems p wf1 in auto)
qed simp

lemma framed_poll_next_wf:
  assumes "framed_wf rd" and "framed_poll_next fuel poll_read decode rd = Some (r, rd')"
  shows "framed_wf rd' \<and> r \<noteq> NextPanic"
proof -
  obtain d rd1 where d: "decode_buffer decode rd = (d, rd1)" by fastforce
  then have wf: "framed_wf rd1" "d \<noteq> Some NextPanic" using decode_buffer_wf assms(1) by blast+
  show ?thesis
  proof (cases d)
    case None
    with d assms(1) have "starving rd1" using decode_buffer_None by blast
    with assms(2) d None wf show ?thesis
      using read_loop_wf [of rd1 fuel poll_read r rd'] by (simp add: framed_poll_next_def)
  next
    case (Some x)
    with assms(2) d wf show ?thesis by (simp add: framed_poll_next_def)
  qed
qed

section \<open>The reader decodes the whole stream\<close>

text \<open>The bytes that are still to be decoded: what the buffer holds and what will arrive.\<close>

definition undecoded :: "('r \<Rightarrow> bytes) \<Rightarrow> 'r framed_read \<Rightarrow> bytes" where
  "undecoded stream rd = rd_buffer rd @ stream (rd_inner rd)"

text \<open>Decoding the whole remaining stream in one go: the reference.\<close>

definition spec_of :: "('r \<Rightarrow> bytes) \<Rightarrow> 'r framed_read \<Rightarrow> decode_result \<times> zmq_codec \<times> bytes" where
  "spec_of stream rd = decode (rd_codec rd) (undecoded stream rd)"

text \<open>What a result of the reader says about the reference. The error cases are: an error of the
  decoder, a stream that ends inside a frame, an error of the transport itself.\<close>

definition implements ::
    "'r poll_read \<Rightarrow> ('r \<Rightarrow> bytes) \<Rightarrow> decode_result \<times> zmq_codec \<times> bytes
      \<Rightarrow> next_result \<times> 'r framed_read \<Rightarrow> bool" where
  "implements poll_read stream spec res =
     (case res of (r, rd') \<Rightarrow>
        (case r of
           NextPanic \<Rightarrow> False
         | NextItem (Inr m) \<Rightarrow> spec = (DecItem m, rd_codec rd', undecoded stream rd')
         | NextItem (Inl e) \<Rightarrow>
             spec = (DecErr e, rd_codec rd', undecoded stream rd')
             \<or> (e = CodecIo UnexpectedEof \<and> undecoded stream rd' \<noteq> []
                \<and> (\<exists>n. spec = (DecNeed n, rd_codec rd', undecoded stream rd')))
             \<or> (\<exists>io r n r'. e = CodecIo io \<and> poll_read r n = (Ready (Err io), r'))
         | NextEnd \<Rightarrow> undecoded stream rd' = [] \<and> (\<exists>n. spec = (DecNeed n, rd_codec rd', []))
         | NextPending \<Rightarrow> spec = spec_of stream rd'))"

lemma decode_buffer_Some:
  assumes "framed_wf rd" and "decode_buffer decode rd = (Some r, rd')"
  shows "implements poll_read stream (spec_of stream rd) (r, rd')"
  using assms decode_buffer_wf [OF assms]
  by (auto simp: decode_buffer_def implements_def spec_of_def undecoded_def decode_append_Item
      decode_append_Err split: prod.splits decode_result.splits)

lemma decode_buffer_None_spec:
  assumes "framed_wf rd" and "decode_buffer decode rd = (None, rd')"
  shows "spec_of stream rd' = spec_of stream rd"
  using decode_buffer_None [OF assms]
  by (auto simp: spec_of_def undecoded_def decode_append_Need)

lemma read_ok_spec:
  assumes "transport poll_read stream" and "poll_read_into_buffer poll_read rd k = (ReadOk n, rd')"
  shows "spec_of stream rd' = spec_of stream rd"
    and "length (stream (rd_inner rd)) = n + length (stream (rd_inner rd'))"
  using assms
  by (auto simp: poll_read_into_buffer_def spec_of_def undecoded_def Let_def
      dest!: transport_Ok(2) split: prod.splits poll.splits sum.splits if_splits)

lemma read_eof:
  assumes "transport poll_read stream" and "framed_wf rd"
    and "poll_read_into_buffer poll_read rd k = (ReadOk 0, rd')"
  shows "stream (rd_inner rd') = []"
proof -
  obtain r' where "poll_read (rd_inner rd) (read_size rd k) = (Ready (Ok []), r')" "rd_inner rd' = r'"
    using assms(3)
    by (auto simp: poll_read_into_buffer_def Let_def split: prod.splits poll.splits sum.splits if_splits)
  with transport_Ok [OF assms(1), of "rd_inner rd" "read_size rd k" "[]" r']
    read_size_bounds(1) [OF assms(2), of k]
  show ?thesis by simp
qed

lemma read_pending_spec:
  assumes "transport poll_read stream" and "poll_read_into_buffer poll_read rd k = (ReadPending, rd')"
  shows "spec_of stream rd' = spec_of stream rd"
  using assms
  by (auto simp: poll_read_into_buffer_def spec_of_def undecoded_def Let_def
      dest!: transport_Pending split: prod.splits poll.splits sum.splits if_splits)

lemma read_err_transport:
  assumes "poll_read_into_buffer poll_read rd k = (ReadErr io, rd')"
  shows "\<exists>r n r'. poll_read r n = (Ready (Err io), r')"
  using assms
  by (auto simp: poll_read_into_buffer_def Let_def split: prod.splits poll.splits sum.splits if_splits)

text \<open>At the end of the stream the second call of the decoder changes nothing.\<close>

lemma finish_eof_implements:
  assumes "framed_wf rd1" and "decode_buffer decode rd1 = (None, rd)" and "stream (rd_inner rd) = []"
  shows "implements poll_read stream (spec_of stream rd) (finish_eof decode rd)"
proof -
  obtain n where "decode (rd_codec rd1) (rd_buffer rd1) = (DecNeed n, rd_codec rd, rd_buffer rd)"
    using decode_buffer_None [OF assms(1,2)] by blast
  then have need: "decode (rd_codec rd) (rd_buffer rd) = (DecNeed n, rd_codec rd, rd_buffer rd)"
    using decode_append_Need [where b = "[]"] by fastforce
  then have "decode_buffer decode rd = (None, rd)" by (simp add: decode_buffer_def)
  with need assms(3) show ?thesis
    by (auto simp: finish_eof_def implements_def spec_of_def undecoded_def)
qed

lemma read_loop_implements:
  assumes "transport poll_read stream" and "framed_wf rd" and "starving rd"
    and "read_loop fuel poll_read decode rd = Some res"
  shows "implements poll_read stream (spec_of stream rd) res"
  using assms(2-)
proof (induction fuel arbitrary: rd)
  case (Suc fuel)
  obtain p rd1 where p: "poll_read_into_buffer poll_read rd
      (bytes_needed (rd_codec rd) (length (rd_buffer rd))) = (p, rd1)" by fastforce
  with Suc.prems have wf1: "framed_wf rd1" "p \<noteq> ReadPanic"
    using poll_read_into_buffer_wf by blast+
  show ?case
  proof (cases p)
    case ReadPending
    with Suc.prems p read_pending_spec [OF assms(1)] show ?thesis by (auto simp: implements_def)
  next
    case (ReadErr io)
    with Suc.prems p read_err_transport [of poll_read] show ?thesis
      by (fastforce simp: implements_def)
  next
    case (ReadOk n)
    have eq: "spec_of stream rd1 = spec_of stream rd"
      using read_ok_spec(1) [OF assms(1)] p ReadOk by blast
    obtain d rd2 where d: "decode_buffer decode rd1 = (d, rd2)" by fastforce
    show ?thesis
    proof (cases d)
      case (Some x)
      with Suc.prems p ReadOk d eq wf1 decode_buffer_Some [of rd1 x rd2 poll_read stream]
      show ?thesis by simp
    next
      case None
      with d wf1 have eq2: "spec_of stream rd2 = spec_of stream rd1" and st: "starving rd2"
        and inner: "rd_inner rd2 = rd_inner rd1"
        using decode_buffer_None_spec decode_buffer_None by blast+
      have wf2: "framed_wf rd2" using d wf1 decode_buffer_wf by blast
      show ?thesis
      proof (cases "n = 0")
        case True
        with p ReadOk read_eof [OF assms(1)] Suc.prems inner have "stream (rd_inner rd2) = []" by auto
        with finish_eof_implements [of rd1 rd2 stream poll_read] d None wf1 eq eq2 True
          Suc.prems p ReadOk
        show ?thesis by simp
      next
        case False
        with Suc.IH [OF wf2 st] Suc.prems p ReadOk d None eq eq2 show ?thesis by simp
      qed
    qed
  qed (use wf1 in simp)
qed simp

lemma read_loop_terminates:
  assumes "transport poll_read stream" and "framed_wf rd" and "starving rd"
    and "length (stream (rd_inner rd)) < fuel"
  shows "read_loop fuel poll_read decode rd \<noteq> None"
  using assms(2-)
proof (induction fuel arbitrary: rd)
  case (Suc fuel)
  obtain p rd1 where p: "poll_read_into_buffer poll_read rd
      (bytes_needed (rd_codec rd) (length (rd_buffer rd))) = (p, rd1)" by fastforce
  show ?case
  proof (cases p)
    case (ReadOk n)
    have len: "length (stream (rd_inner rd)) = n + length (stream (rd_inner rd1))"
      using read_ok_spec(2) [OF assms(1)] p ReadOk by blast
    have wf1: "framed_wf rd1" using poll_read_into_buffer_wf Suc.prems p by blast
    obtain d rd2 where d: "decode_buffer decode rd1 = (d, rd2)" by fastforce
    show ?thesis
    proof (cases "d = None \<and> n \<noteq> 0")
      case True
      with d wf1 have "framed_wf rd2" "starving rd2" "rd_inner rd2 = rd_inner rd1"
        using decode_buffer_None decode_buffer_wf by blast+
      with Suc.IH [of rd2] Suc.prems len True p ReadOk d show ?thesis by simp
    qed (use p ReadOk d in \<open>auto split: option.splits\<close>)
  qed (use p in auto)
qed simp

lemma framed_poll_next_implements:
  assumes "transport poll_read stream" and "framed_wf rd"
    and "framed_poll_next fuel poll_read decode rd = Some res"
  shows "implements poll_read stream (spec_of stream rd) res"
proof -
  obtain d rd1 where d: "decode_buffer decode rd = (d, rd1)" by fastforce
  show ?thesis
  proof (cases d)
    case None
    then have wf1: "framed_wf rd1" "starving rd1" "spec_of stream rd1 = spec_of stream rd"
      using d assms(2) decode_buffer_wf decode_buffer_None decode_buffer_None_spec by blast+
    moreover have "read_loop fuel poll_read decode rd1 = Some res"
      using assms(3) d None by (simp add: framed_poll_next_def)
    ultimately show ?thesis using read_loop_implements [OF assms(1), of rd1 fuel res] by simp
  next
    case (Some x)
    with d assms decode_buffer_Some [of rd x rd1 poll_read stream] show ?thesis
      by (simp add: framed_poll_next_def)
  qed
qed

lemma framed_poll_next_terminates:
  assumes "transport poll_read stream" and "framed_wf rd" and "length (stream (rd_inner rd)) < fuel"
  shows "framed_poll_next fuel poll_read decode rd \<noteq> None"
proof -
  obtain d rd1 where d: "decode_buffer decode rd = (d, rd1)" by fastforce
  show ?thesis
  proof (cases d)
    case None
    then have "framed_wf rd1" "starving rd1" "rd_inner rd1 = rd_inner rd"
      using d assms(2) decode_buffer_wf decode_buffer_None by blast+
    with read_loop_terminates [OF assms(1), of rd1 fuel] assms(3) d None show ?thesis
      by (auto simp: framed_poll_next_def)
  qed (use d in \<open>auto simp: framed_poll_next_def\<close>)
qed

section \<open>Runs of the reader\<close>

text \<open>The states of a reader that is polled any number of times, whatever its transport does.\<close>

inductive framed_reachable :: "'r poll_read \<Rightarrow> socket_options \<Rightarrow> 'r framed_read \<Rightarrow> bool" for poll_read opts where
  new: "framed_reachable poll_read opts (framed_read_new r opts)"
| poll: "framed_reachable poll_read opts rd \<Longrightarrow> framed_poll_next fuel poll_read decode rd = Some (x, rd')
    \<Longrightarrow> framed_reachable poll_read opts rd'"

lemma framed_reachable_wf:
  "framed_reachable poll_read opts rd \<Longrightarrow> options_wf opts \<Longrightarrow> framed_wf rd"
  by (induction rule: framed_reachable.induct) (auto simp: framed_wf_new dest: framed_poll_next_wf)

text \<open>The messages that a sequence of polls delivers; pending polls deliver nothing.\<close>

inductive delivers :: "'r poll_read \<Rightarrow> 'r framed_read \<Rightarrow> message list \<Rightarrow> 'r framed_read \<Rightarrow> bool" for poll_read where
  stop: "delivers poll_read rd [] rd"
| pending: "framed_poll_next fuel poll_read decode rd = Some (NextPending, rd1)
    \<Longrightarrow> delivers poll_read rd1 ms rd2 \<Longrightarrow> delivers poll_read rd ms rd2"
| item: "framed_poll_next fuel poll_read decode rd = Some (NextItem (Ok m), rd1)
    \<Longrightarrow> delivers poll_read rd1 ms rd2 \<Longrightarrow> delivers poll_read rd (m # ms) rd2"

text \<open>What is left to deliver: the reference for the rest of the stream.\<close>

definition remaining :: "('r \<Rightarrow> bytes) \<Rightarrow> 'r framed_read \<Rightarrow> message list \<times> decode_result \<times> zmq_codec \<times> bytes" where
  "remaining stream rd = decode_all (rd_codec rd) (undecoded stream rd)"

lemma remaining_spec:
  "spec_of stream rd = spec_of stream rd' \<Longrightarrow> remaining stream rd = remaining stream rd'"
  by (simp add: remaining_def spec_of_def decode_all.simps [of _ "undecoded stream rd"]
      decode_all.simps [of _ "undecoded stream rd'"])

lemma delivers_remaining:
  assumes "delivers poll_read rd ms rd'" and "transport poll_read stream" and "framed_wf rd"
  shows "remaining stream rd = (let (ms', r) = remaining stream rd' in (ms @ ms', r)) \<and> framed_wf rd'"
  using assms
proof (induction rule: delivers.induct)
  case (pending fuel rd rd1 ms rd2)
  have "spec_of stream rd = spec_of stream rd1"
    using framed_poll_next_implements [OF pending.prems pending.hyps(1)] by (simp add: implements_def)
  moreover have "framed_wf rd1" using framed_poll_next_wf [OF pending.prems(2) pending.hyps(1)] by blast
  ultimately show ?case using pending.IH pending.prems(1) remaining_spec [of stream rd rd1] by simp
next
  case (item fuel rd m rd1 ms rd2)
  have "spec_of stream rd = (DecItem m, rd_codec rd1, undecoded stream rd1)"
    using framed_poll_next_implements [OF item.prems item.hyps(1)] by (simp add: implements_def)
  then have "remaining stream rd = (let (ms, r) = remaining stream rd1 in (m # ms, r))"
    by (simp add: remaining_def spec_of_def decode_all_Item)
  moreover have "framed_wf rd1" using framed_poll_next_wf [OF item.prems(2) item.hyps(1)] by blast
  ultimately show ?case using item.IH item.prems(1) by (simp add: case_prod_unfold Let_def)
qed (simp add: case_prod_unfold)

section \<open>Properties\<close>

text \<open>C9: The reader refines the decoder: on any transport that delivers a byte stream in order, with enough
  fuel for the bytes still to come, a poll returns, and its result is that of decoding buffer and remaining
  stream in one go: the decoder's next message, its error, the end of the stream exactly when nothing is left,
  an unexpected end of file inside a frame; a pending poll loses nothing. The adaptive read size never shows.\<close>

theorem framed_reader_refines_decoder:
  assumes "transport poll_read stream" and "framed_wf rd" and "length (stream (rd_inner rd)) < fuel"
  shows "\<exists>res. framed_poll_next fuel poll_read decode rd = Some res
    \<and> implements poll_read stream (spec_of stream rd) res \<and> framed_wf (snd res)"
proof -
  obtain r rd' where r: "framed_poll_next fuel poll_read decode rd = Some (r, rd')"
    using framed_poll_next_terminates [OF assms] by fastforce
  from framed_poll_next_implements [OF assms(1,2) r] framed_poll_next_wf [OF assms(2) r] r show ?thesis by auto
qed

text \<open>A transport that hands out its bytes three at a time.\<close>

definition sample_poll_read :: "bytes poll_read" where
  "sample_poll_read r n = (Ready (Ok (take (min 3 n) r)), drop (min 3 n) r)"

lemma sample_transport: "transport sample_poll_read (\<lambda>r. r)"
  by (auto simp: transport_def sample_poll_read_def)

theorem framed_reader_refines_decoder_witness:
  "\<exists>res. framed_poll_next 10 sample_poll_read decode (framed_read_new [1, 2, 3, 4, 5] options_default) = Some res
    \<and> implements sample_poll_read (\<lambda>r. r) (spec_of (\<lambda>r. r) (framed_read_new [1, 2, 3, 4, 5] options_default)) res"
proof -
  let ?rd = "framed_read_new [1, 2, 3, 4, 5] options_default :: bytes framed_read"
  have "framed_wf ?rd" by (rule framed_wf_new [OF options_default_wf])
  moreover have "length (rd_inner ?rd) < 10" by (simp add: framed_read_new_def)
  ultimately show ?thesis using framed_reader_refines_decoder [OF sample_transport, of ?rd 10] by blast
qed

text \<open>C18: Bounds of the adaptive read buffer: for options that a user can build and whatever the transport does,
  in every reachable state of the reader the chunk size lies between the initial and the maximal size, fewer
  short reads are counted than the limit, every request to the transport asks for at least one byte and at most
  the maximal size, and no poll panics.\<close>

theorem framed_reader_bounds:
  assumes "buildable opts" and "framed_reachable poll_read opts rd"
  shows "read_buffer_initial_size (rd_options rd) \<le> rd_chunk_size rd
    \<and> rd_chunk_size rd \<le> read_buffer_max_size (rd_options rd)
    \<and> rd_short_reads rd < read_buffer_short_reads (rd_options rd)
    \<and> (\<forall>k. 0 < read_size rd k \<and> read_size rd k \<le> read_buffer_max_size (rd_options rd))
    \<and> (\<forall>fuel rd'. framed_poll_next fuel poll_read decode rd \<noteq> Some (NextPanic, rd'))"
proof -
  have wf: "framed_wf rd" using framed_reachable_wf [OF assms(2) buildable_options_wf [OF assms(1)]] .
  then have "\<forall>fuel rd'. framed_poll_next fuel poll_read decode rd \<noteq> Some (NextPanic, rd')"
    using framed_poll_next_wf [OF wf] by blast
  with wf show ?thesis using read_size_bounds [OF wf] by (simp add: framed_wf_def)
qed

theorem framed_reader_bounds_witness:
  "\<forall>fuel rd'. framed_poll_next fuel sample_poll_read decode (framed_read_new [1, 2, 3] options_default)
     \<noteq> Some (NextPanic, rd')"
  using framed_reader_bounds [where poll_read = sample_poll_read, OF buildable.default
      framed_reachable.new [where r = "[1, 2, 3]"]] by blast

end
