(* ===== verification/Write_Queue.thy ===== *)
theory Write_Queue
  imports Zmq_Codec "HOL-Library.Sublist"
begin

text \<open>
  \<open>src/write_queue.rs\<close>: the writer task of a peer, which moves queued messages into the framed sink
  in batches and flushes once per batch.

  The channel's receiving end and the framed sink belong to other crates. They are the parameters
  \<open>recv_next\<close> (await the next message; \<open>None\<close> when the channel is closed and empty), \<open>try_recv\<close>
  (a message that is ready, if any), \<open>feed\<close> and \<open>flush\<close>; the contracts \<open>receiver\<close> and \<open>sink\<close>
  say what the writer relies on.
\<close>

section \<open>Definitions\<close>

definition WRITE_BATCH_LIMIT :: nat where "WRITE_BATCH_LIMIT = 128"

type_synonym 'q recv = "'q \<Rightarrow> message option \<times> 'q"
type_synonym 'w feed = "'w \<Rightarrow> message \<Rightarrow> (codec_error + unit) \<times> 'w"
type_synonym 'w flush = "'w \<Rightarrow> (codec_error + unit) \<times> 'w"

text \<open>The inner \<open>for\<close> loop: at most that many further messages, as long as one is ready.\<close>

fun feed_batch ::
    "nat \<Rightarrow> 'q recv \<Rightarrow> 'w feed \<Rightarrow> 'q \<Rightarrow> 'w \<Rightarrow> (codec_error + unit) \<times> 'q \<times> 'w" where
  "feed_batch 0 try_recv feed q w = (Ok (), q, w)"
| "feed_batch (Suc k) try_recv feed q w =
     (case try_recv q of
        (None, q') \<Rightarrow> (Ok (), q', w)
      | (Some message, q') \<Rightarrow>
          (case feed w message of
             (Inl e, w') \<Rightarrow> (Err e, q', w')
           | (Inr _, w') \<Rightarrow> feed_batch k try_recv feed q' w'))"

text \<open>One turn of the outer loop after a message has arrived: feed it, feed what else is ready, flush
  once.\<close>

definition write_batch ::
    "'q recv \<Rightarrow> 'w feed \<Rightarrow> 'w flush \<Rightarrow> message \<Rightarrow> 'q \<Rightarrow> 'w \<Rightarrow> (codec_error + unit) \<times> 'q \<times> 'w" where
  "write_batch try_recv feed flush message q w =
     (case feed w message of
        (Inl e, w1) \<Rightarrow> (Err e, q, w1)
      | (Inr _, w1) \<Rightarrow>
          (case feed_batch (WRITE_BATCH_LIMIT - 1) try_recv feed q w1 of
             (Inl e, q2, w2) \<Rightarrow> (Err e, q2, w2)
           | (Inr _, q2, w2) \<Rightarrow> (case flush w2 of (r, w3) \<Rightarrow> (r, q2, w3))))"

text \<open>The outer loop with one unit of fuel per batch.\<close>

fun write_message_queue ::
    "nat \<Rightarrow> 'q recv \<Rightarrow> 'q recv \<Rightarrow> 'w feed \<Rightarrow> 'w flush \<Rightarrow> 'q \<Rightarrow> 'w
      \<Rightarrow> ((codec_error + unit) \<times> 'q \<times> 'w) option" where
  "write_message_queue 0 recv_next try_recv feed flush q w = None"
| "write_message_queue (Suc fuel) recv_next try_recv feed flush q w =
     (case recv_next q of
        (None, q1) \<Rightarrow> Some (Ok (), q1, w)
      | (Some message, q1) \<Rightarrow>
          (case write_batch try_recv feed flush message q1 w of
             (Inl e, q2, w2) \<Rightarrow> Some (Err e, q2, w2)
           | (Inr _, q2, w2) \<Rightarrow>
               write_message_queue fuel recv_next try_recv feed flush q2 w2))"

section \<open>Contracts of the channel and the sink\<close>

text \<open>\<open>pending q\<close> are the messages that the receiver will still deliver, in order.\<close>

definition receiver :: "'q recv \<Rightarrow> 'q recv \<Rightarrow> ('q \<Rightarrow> message list) \<Rightarrow> bool" where
  "receiver recv_next try_recv pending \<longleftrightarrow>
     (\<forall>q m q'. recv_next q = (Some m, q') \<longrightarrow> pending q = m # pending q')
     \<and> (\<forall>q q'. recv_next q = (None, q') \<longrightarrow> pending q = [] \<and> pending q' = [])
     \<and> (\<forall>q m q'. try_recv q = (Some m, q') \<longrightarrow> pending q = m # pending q')
     \<and> (\<forall>q q'. try_recv q = (None, q') \<longrightarrow> pending q' = pending q)"

text \<open>A successful \<open>feed\<close> appends the message's encoding to the sink's output \<open>out\<close>; the messages
  fed since the last flush are counted by \<open>unflushed\<close>; a successful \<open>flush\<close> resets the count.\<close>

definition sink ::
    "'w feed \<Rightarrow> 'w flush \<Rightarrow> (property_map \<Rightarrow> bytes list) \<Rightarrow> ('w \<Rightarrow> bytes) \<Rightarrow> ('w \<Rightarrow> nat) \<Rightarrow> bool" where
  "sink feed flush iter out unflushed \<longleftrightarrow>
     (\<forall>w m u w'. feed w m = (Ok u, w') \<longrightarrow>
        out w' = out w @ encoding iter m \<and> unflushed w' = unflushed w + 1)
     \<and> (\<forall>w m e w'. feed w m = (Err e, w') \<longrightarrow> out w' = out w)
     \<and> (\<forall>w u w'. flush w = (Ok u, w') \<longrightarrow> out w' = out w \<and> unflushed w' = 0)
     \<and> (\<forall>w e w'. flush w = (Err e, w') \<longrightarrow> out w' = out w)"

section \<open>Lemmas\<close>

text \<open>A stretch of the run takes \<open>ms\<close> and \<open>lost\<close> from the queue and writes the encodings of \<open>ms\<close>;
  \<open>lost\<close> is the message whose \<open>feed\<close> failed, if any.\<close>

definition moved ::
    "('q \<Rightarrow> message list) \<Rightarrow> (property_map \<Rightarrow> bytes list) \<Rightarrow> ('w \<Rightarrow> bytes)
      \<Rightarrow> message list \<Rightarrow> 'w \<Rightarrow> message list \<Rightarrow> message list \<Rightarrow> 'q \<Rightarrow> 'w \<Rightarrow> bool" where
  "moved pending iter out before w ms lost q' w' \<longleftrightarrow>
     before = ms @ lost @ pending q' \<and> out w' = out w @ concat (map (encoding iter) ms)"

lemma moved_trans:
  "moved pending iter out before w ms [] q1 w1
    \<Longrightarrow> moved pending iter out (pending q1) w1 ms' lost q2 w2
    \<Longrightarrow> moved pending iter out before w (ms @ ms') lost q2 w2"
  by (simp add: moved_def)

lemma feed_moved:
  assumes "sink feed flush iter out unflushed" and "feed w m = (r, w')"
  shows "case r of
      Inr _ \<Rightarrow> moved pending iter out (m # pending q) w [m] [] q w' \<and> unflushed w' = unflushed w + 1
    | Inl _ \<Rightarrow> moved pending iter out (m # pending q) w [] [m] q w'"
  using assms by (cases r) (auto simp: moved_def sink_def)

lemma feed_batch_spec:
  assumes "receiver recv_next try_recv pending" and "sink feed flush iter out unflushed"
    and "feed_batch k try_recv feed q w = (r, q', w')"
  shows "\<exists>ms lost. moved pending iter out (pending q) w ms lost q' w' \<and> length ms \<le> k
    \<and> (r = Ok () \<longrightarrow> lost = [] \<and> unflushed w' = unflushed w + length ms)"
  using assms(3)
proof (induction k arbitrary: q w)
  case 0
  then show ?case by (auto simp: moved_def)
next
  case (Suc k)
  obtain t q1 where t: "try_recv q = (t, q1)" by fastforce
  show ?case
  proof (cases t)
    case None
    with t assms(1) have "pending q1 = pending q" by (auto simp: receiver_def)
    with t None Suc.prems show ?thesis by (auto simp: moved_def)
  next
    case (Some m)
    with t assms(1) have p: "pending q = m # pending q1" by (auto simp: receiver_def)
    obtain f w1 where f: "feed w m = (f, w1)" by fastforce
    note fed = feed_moved [OF assms(2) f, of pending q1]
    show ?thesis
    proof (cases f)
      case (Inl e)
      with Suc.prems t Some f p fed show ?thesis by fastforce
    next
      case (Inr u)
      have "feed_batch k try_recv feed q1 w1 = (r, q', w')" using Suc.prems t Some f Inr by simp
      from Suc.IH [OF this] obtain ms lost where
        rec: "moved pending iter out (pending q1) w1 ms lost q' w'" "length ms \<le> k"
          "r = Ok () \<longrightarrow> lost = [] \<and> unflushed w' = unflushed w1 + length ms" by blast
      from fed Inr have "moved pending iter out (pending q) w [m] [] q1 w1"
        "unflushed w1 = unflushed w + 1" by (simp_all add: p)
      with rec moved_trans [of pending iter out "pending q" w "[m]" q1 w1 ms lost q' w']
      show ?thesis by (intro exI [of _ "[m] @ ms"] exI [of _ lost]) auto
    qed
  qed
qed

lemma write_batch_spec:
  assumes "receiver recv_next try_recv pending" and "sink feed flush iter out unflushed"
    and "write_batch try_recv feed flush m q w = (r, q', w')"
  shows "\<exists>ms lost. moved pending iter out (m # pending q) w ms lost q' w' \<and> ms @ lost \<noteq> []
    \<and> (r = Ok () \<longrightarrow> lost = [] \<and> unflushed w' = 0 \<and> length ms \<le> WRITE_BATCH_LIMIT)"
proof -
  obtain f w1 where f: "feed w m = (f, w1)" by fastforce
  note fed = feed_moved [OF assms(2) f, of pending q]
  show ?thesis
  proof (cases f)
    case (Inl e)
    with assms(3) f fed show ?thesis by (fastforce simp: write_batch_def)
  next
    case (Inr u)
    obtain b q2 w2 where b: "feed_batch (WRITE_BATCH_LIMIT - 1) try_recv feed q w1 = (b, q2, w2)"
      by (cases "feed_batch (WRITE_BATCH_LIMIT - 1) try_recv feed q w1")
    from feed_batch_spec [OF assms(1,2) b] obtain ms lost where
      ms: "moved pending iter out (pending q) w1 ms lost q2 w2" "length ms \<le> WRITE_BATCH_LIMIT - 1"
        "b = Ok () \<longrightarrow> lost = []" by blast
    from fed Inr have "moved pending iter out (m # pending q) w [m] [] q w1" by simp
    from moved_trans [OF this ms(1)]
    have mv: "moved pending iter out (m # pending q) w ([m] @ ms) lost q2 w2" .
    obtain fl w3 where fl: "flush w2 = (fl, w3)" by fastforce
    then have "out w3 = out w2" "fl = Ok () \<longrightarrow> unflushed w3 = 0"
      using assms(2) by (cases fl; auto simp: sink_def)+
    with mv ms assms(3) f Inr b fl show ?thesis
      by (intro exI [of _ "[m] @ ms"] exI [of _ lost])
        (auto simp: write_batch_def moved_def WRITE_BATCH_LIMIT_def split: sum.splits)
  qed
qed

lemma write_message_queue_spec:
  assumes "receiver recv_next try_recv pending" and "sink feed flush iter out unflushed"
    and "write_message_queue fuel recv_next try_recv feed flush q w = Some (r, q', w')"
    and "unflushed w = 0"
  shows "\<exists>ms lost. moved pending iter out (pending q) w ms lost q' w'
    \<and> (r = Ok () \<longrightarrow> ms = pending q \<and> unflushed w' = 0)"
  using assms(3,4)
proof (induction fuel arbitrary: q w)
  case (Suc fuel)
  obtain t q1 where t: "recv_next q = (t, q1)" by fastforce
  show ?case
  proof (cases t)
    case None
    then have "pending q = []" "pending q1 = []" using t assms(1) by (auto simp: receiver_def)
    moreover have "q' = q1" "w' = w" "r = Ok ()" using Suc.prems t None by auto
    ultimately show ?thesis using Suc.prems None
      by (intro exI [of _ "[]"]) (auto simp: moved_def)
  next
    case (Some m)
    with t assms(1) have p: "pending q = m # pending q1" by (auto simp: receiver_def)
    obtain b q2 w2 where b: "write_batch try_recv feed flush m q1 w = (b, q2, w2)"
      by (cases "write_batch try_recv feed flush m q1 w")
    from write_batch_spec [OF assms(1,2) b] obtain ms lost where
      ms: "moved pending iter out (pending q) w ms lost q2 w2"
        "b = Ok () \<longrightarrow> lost = [] \<and> unflushed w2 = 0" unfolding p by blast
    show ?thesis
    proof (cases b)
      case (Inl e)
      with Suc.prems t Some b ms show ?thesis by auto
    next
      case (Inr u)
      with Suc.prems t Some b ms Suc.IH [of q2 w2] obtain ms' lost' where
        "moved pending iter out (pending q2) w2 ms' lost' q' w'"
        "r = Ok () \<longrightarrow> ms' = pending q2 \<and> unflushed w' = 0" by auto
      with ms Inr show ?thesis
        using moved_trans [of pending iter out "pending q" w ms q2 w2 ms' lost' q' w']
        by (intro exI [of _ "ms @ ms'"] exI [of _ lost']) (auto simp: moved_def)
    qed
  qed
qed simp

lemma write_message_queue_terminates:
  assumes "receiver recv_next try_recv pending" and "sink feed flush iter out unflushed"
    and "length (pending q) < fuel"
  shows "write_message_queue fuel recv_next try_recv feed flush q w \<noteq> None"
  using assms(3)
proof (induction fuel arbitrary: q w)
  case (Suc fuel)
  obtain t q1 where t: "recv_next q = (t, q1)" by fastforce
  show ?case
  proof (cases t)
    case (Some m)
    with t assms(1) have p: "pending q = m # pending q1" by (auto simp: receiver_def)
    obtain b q2 w2 where b: "write_batch try_recv feed flush m q1 w = (b, q2, w2)"
      by (cases "write_batch try_recv feed flush m q1 w")
    from write_batch_spec [OF assms(1,2) b] obtain ms lost where
      mv: "moved pending iter out (m # pending q1) w ms lost q2 w2" "ms @ lost \<noteq> []" by blast
    have "length (m # pending q1) = length (ms @ lost) + length (pending q2)"
      using mv(1) by (simp add: moved_def)
    with mv(2) p Suc.prems have "length (pending q2) < fuel"
      by (cases "ms @ lost") (auto simp del: append_is_Nil_conv)
    with Suc.IH [of q2 w2] t Some b show ?thesis by (cases b) auto
  qed (use t in simp)
qed simp

section \<open>Properties\<close>

text \<open>The writer task: with enough fuel for the queued messages it returns. When it ends normally it has
  written the encodings of exactly the queued messages, in order, and everything it has written is flushed.
  When it ends with an error it has written a prefix of them.\<close>

theorem writer_preserves_order:
  assumes "receiver recv_next try_recv pending" and "sink feed flush iter out unflushed"
    and "unflushed w = 0" and "length (pending q) < fuel"
  shows "\<exists>r q' w' ms. write_message_queue fuel recv_next try_recv feed flush q w = Some (r, q', w')
    \<and> prefix ms (pending q) \<and> out w' = out w @ concat (map (encoding iter) ms)
    \<and> (r = Ok () \<longrightarrow> ms = pending q \<and> unflushed w' = 0)"
proof -
  obtain r q' w' where r: "write_message_queue fuel recv_next try_recv feed flush q w = Some (r, q', w')"
    using write_message_queue_terminates [where w = w, OF assms(1,2,4)] by fastforce
  from write_message_queue_spec [OF assms(1,2) r assms(3)] obtain ms lost where
    "moved pending iter out (pending q) w ms lost q' w'" "r = Ok () \<longrightarrow> ms = pending q \<and> unflushed w' = 0"
    by blast
  with r show ?thesis by (auto simp: moved_def prefix_def)
qed

text \<open>A closed channel with some messages left, and a sink that keeps its output.\<close>

definition sample_recv :: "message list recv" where
  "sample_recv q = (case q of [] \<Rightarrow> (None, []) | m # ms \<Rightarrow> (Some m, ms))"

definition sample_feed :: "(property_map \<Rightarrow> bytes list) \<Rightarrow> (bytes \<times> nat) feed" where
  "sample_feed iter w m = (Ok (), fst w @ encoding iter m, snd w + 1)"

definition sample_flush :: "(bytes \<times> nat) flush" where
  "sample_flush w = (Ok (), fst w, 0)"

lemma sample_writer:
  "receiver sample_recv sample_recv (\<lambda>q. q)" "sink (sample_feed iter) sample_flush iter fst snd"
  by (auto simp: receiver_def sink_def sample_recv_def sample_feed_def sample_flush_def split: list.splits)

theorem writer_preserves_order_witness:
  "\<exists>r q' w' ms. write_message_queue 3 sample_recv sample_recv (sample_feed (\<lambda>_. [])) sample_flush
      [Message_Message \<lparr> frames = [[1]] \<rparr>, Message_Message \<lparr> frames = [[2]] \<rparr>] ([], 0) = Some (r, q', w')
    \<and> prefix ms [Message_Message \<lparr> frames = [[1]] \<rparr>, Message_Message \<lparr> frames = [[2]] \<rparr>]
    \<and> (r = Ok () \<longrightarrow> fst w' = [0, 1, 1, 0, 1, 2] \<and> snd w' = 0)"
proof -
  let ?q = "[Message_Message \<lparr> frames = [[1]] \<rparr>, Message_Message \<lparr> frames = [[2]] \<rparr>]"
  have "snd ([] :: bytes, 0 :: nat) = 0" "length ?q < 3" by simp_all
  from writer_preserves_order [where q = ?q, OF sample_writer(1) sample_writer(2) [of "\<lambda>_. []"] this]
  obtain r q' w' ms where "write_message_queue 3 sample_recv sample_recv (sample_feed (\<lambda>_. [])) sample_flush ?q ([], 0)
      = Some (r, q', w')" "prefix ms ?q" "fst w' = fst ([], 0 :: nat) @ concat (map (encoding (\<lambda>_. [])) ms)"
      "r = Ok () \<longrightarrow> ms = ?q \<and> snd w' = 0"
    by (elim exE conjE)
  then show ?thesis
    by (intro exI [of _ r] exI [of _ q'] exI [of _ w'] exI [of _ ms])
      (auto simp: encoding_def encode_Message encode_frame_def)
qed

end
