(* ===== verification/Delivery.thy ===== *)
theory Delivery
  imports Framed Write_Queue
begin

text \<open>
  A connection from one end to the other: the writer task of \<open>Write_Queue\<close>, the encoder of \<open>Zmq_Codec\<close>, a transport
  that carries bytes, and the reader of \<open>Framed\<close> with the decoder. Nothing new is modelled; the theory composes
  these components.
\<close>

section \<open>Lemmas on a whole connection\<close>

text \<open>Less input gives a prefix of the messages.\<close>

lemma decode_all_prefix:
  assumes "codec_wf c"
  shows "prefix (fst (decode_all c a)) (fst (decode_all c (a @ b)))"
proof -
  obtain ms r c' a' where d: "decode_all c a = (ms, r, c', a')" by (rule prod_cases4)
  from decode_all_result [OF d assms] consider e where "r = DecErr e" | n where "r = DecNeed n" by blast
  then show ?thesis
  proof cases
    case (1 e)
    with d decode_all_append_Err [of c a ms e c' a' b] show ?thesis by simp
  next
    case (2 n)
    with d decode_all_append [of c a ms n c' a' b] show ?thesis by (simp add: case_prod_unfold Let_def)
  qed
qed

text \<open>What a fresh decoder makes of a greeting and the encodings of some messages.\<close>

lemma decode_all_connection:
  assumes "options_wf opts" and "\<forall>m \<in> set ms. wire_ok iter (codec_with_options opts) m"
  shows "\<exists>n c. decode_all (codec_with_options opts) (greeting_to_bytes g @ concat (map (encoding iter) ms))
    = (Message_Greeting g # ms, DecNeed n, c, [])"
proof -
  let ?c = "(codec_with_options opts) \<lparr> state := FrameHeader, waiting_for := 1 \<rparr>"
  let ?bs = "concat (map (encoding iter) ms)"
  have c: "at_header ?c" "buffered_message ?c = None" by (simp_all add: at_header_def codec_with_options_def)
  have wf: "codec_wf ?c"
    using codec_wf_with_options [OF assms(1)] by (simp add: codec_wf_def waiting_ok_def codec_with_options_def)
  have ok: "\<forall>m \<in> set ms. wire_ok iter ?c m"
    using assms(2) by (auto simp: wire_ok_def frame_fits_def split: message.splits)
  obtain n where n: "decode_all ?c [] = ([], DecNeed n, ?c, [])" using decode_all_empty [OF c(1) wf] by blast
  have "decode_all ?c (?bs @ []) = (ms, DecNeed n, ?c, [])"
    unfolding decode_all_encodings [OF c ok, of "[]"] n by simp
  moreover have "decode (codec_with_options opts) (greeting_to_bytes g @ ?bs) = (DecItem (Message_Greeting g), ?c, ?bs)"
    by (rule decode_encode_greeting) (simp_all add: codec_with_options_def)
  ultimately show ?thesis by (simp add: decode_all_Item)
qed

text \<open>A reader that has reported the end of its stream has delivered everything that was in it.\<close>

lemma delivers_all:
  assumes "transport poll_read stream" and "framed_wf rd" and "delivers poll_read rd got rd'"
  shows "prefix got (fst (remaining stream rd))"
    and "framed_poll_next fuel poll_read decode rd' = Some (NextEnd, rd'') \<Longrightarrow> got = fst (remaining stream rd)"
proof -
  note d = delivers_remaining [OF assms(3,1,2)]
  then show "prefix got (fst (remaining stream rd))" by (simp add: case_prod_unfold Let_def)
  assume e: "framed_poll_next fuel poll_read decode rd' = Some (NextEnd, rd'')"
  from framed_poll_next_implements [OF assms(1) conjunct2 [OF d] e]
  obtain n where "spec_of stream rd' = (DecNeed n, rd_codec rd'', [])" by (auto simp: implements_def)
  then have "fst (remaining stream rd') = []"
    unfolding remaining_def spec_of_def by (simp add: decode_all_stop)
  with d show "got = fst (remaining stream rd)" by (simp add: case_prod_unfold Let_def)
qed

text \<open>A transport that is never pending and never fails. On it a poll is never pending, and a reader whose stream
  holds whole messages delivers them all and then reports the end of the stream.\<close>

definition prompt :: "'r poll_read \<Rightarrow> bool" where
  "prompt poll_read \<longleftrightarrow> (\<forall>r n. \<exists>bs r'. poll_read r n = (Ready (Ok bs), r'))"

lemma finish_eof_not_pending: "fst (finish_eof dec rd) \<noteq> NextPending"
  by (auto simp: finish_eof_def decode_buffer_def split: option.splits prod.splits decode_result.splits)

lemma read_loop_not_pending:
  assumes "prompt poll_read"
  shows "read_loop fuel poll_read dec rd \<noteq> Some (NextPending, rd')"
proof (induction fuel arbitrary: rd)
  case (Suc fuel)
  obtain r rd1 where r: "poll_read_into_buffer poll_read rd (bytes_needed (rd_codec rd) (length (rd_buffer rd))) = (r, rd1)"
    by fastforce
  with assms have np: "r \<noteq> ReadPending"
    unfolding poll_read_into_buffer_def prompt_def
    by (auto simp: Let_def split: prod.splits poll.splits sum.splits if_splits) (metis Pair_inject poll.distinct(1))
  obtain d rd2 where d: "decode_buffer decode rd1 = (d, rd2)" by fastforce
  then have "d \<noteq> Some NextPending"
    by (auto simp: decode_buffer_def split: prod.splits decode_result.splits)
  moreover have "finish_eof dec rd2 \<noteq> (NextPending, rd')" using finish_eof_not_pending [of dec rd2] by auto
  ultimately show ?case using np r d Suc.IH [of rd2] by (cases r; cases d) auto
qed simp

lemma framed_poll_next_not_pending:
  assumes "prompt poll_read"
  shows "framed_poll_next fuel poll_read dec rd \<noteq> Some (NextPending, rd')"
  using read_loop_not_pending [OF assms, of fuel dec]
  by (auto simp: framed_poll_next_def decode_buffer_def split: prod.splits decode_result.splits)

lemma decode_all_Nil:
  assumes "decode_all c src = ([], r, c', src')" and "\<And>m. r \<noteq> DecItem m"
  shows "decode c src = (r, c', src')"
proof -
  obtain d c1 s1 where d: "decode c src = (d, c1, s1)" by (rule prod_cases3)
  with assms(1) show ?thesis
    by (cases d) (auto simp: decode_all_Item decode_all_stop case_prod_unfold Let_def)
qed

lemma decode_all_Cons:
  assumes "decode_all c src = (m # ms, r)"
  obtains c1 bs where "decode c src = (DecItem m, c1, bs)" and "decode_all c1 bs = (ms, r)"
proof -
  obtain d c1 s1 where d: "decode c src = (d, c1, s1)" by (rule prod_cases3)
  with assms have "d = DecItem m \<and> decode_all c1 s1 = (ms, r)"
    by (cases d) (auto simp: decode_all_Item decode_all_stop case_prod_unfold Let_def prod_eq_iff)
  with d that show thesis by blast
qed

text \<open>What a poll on such a transport returns, when the reference has a next message, or none.\<close>

lemma prompt_poll:
  assumes "transport poll_read stream" and "prompt poll_read" and "framed_wf rd"
  obtains r rd' where
    "framed_poll_next (Suc (length (stream (rd_inner rd)))) poll_read decode rd = Some (r, rd')" and "framed_wf rd'"
    and "\<And>m c bs. spec_of stream rd = (DecItem m, c, bs)
      \<Longrightarrow> r = NextItem (Ok m) \<and> rd_codec rd' = c \<and> undecoded stream rd' = bs"
    and "\<And>n c. spec_of stream rd = (DecNeed n, c, []) \<Longrightarrow> r = NextEnd"
proof -
  let ?fuel = "Suc (length (stream (rd_inner rd)))"
  obtain r rd' where p: "framed_poll_next ?fuel poll_read decode rd = Some (r, rd')"
    using framed_poll_next_terminates [OF assms(1,3), of ?fuel] by fastforce
  have np: "r \<noteq> NextPending" using framed_poll_next_not_pending [OF assms(2)] p by blast
  have ne: "\<not> (\<exists>io r n r'. e = CodecIo io \<and> poll_read r n = (Ready (Err io), r'))" for e
    using assms(2) unfolding prompt_def by (metis Inl_Inr_False Pair_inject poll.inject)
  note i = framed_poll_next_implements [OF assms(1,3) p]
  show thesis
  proof (rule that [OF p])
    show "framed_wf rd'" using framed_poll_next_wf [OF assms(3) p] by blast
    show "r = NextItem (Ok m) \<and> rd_codec rd' = c \<and> undecoded stream rd' = bs"
      if "spec_of stream rd = (DecItem m, c, bs)" for m c bs
      using i np that ne unfolding implements_def by (cases r) (auto split: sum.splits)
    show "r = NextEnd" if "spec_of stream rd = (DecNeed n, c, [])" for n c
      using i np that ne unfolding implements_def by (cases r) (auto split: sum.splits)
  qed
qed

lemma reader_drains:
  assumes "transport poll_read stream" and "prompt poll_read" and "framed_wf rd"
    and "remaining stream rd = (ms, DecNeed n, c, [])"
  shows "\<exists>rd' fuel rd''. delivers poll_read rd ms rd'
    \<and> framed_poll_next fuel poll_read decode rd' = Some (NextEnd, rd'')"
  using assms(3,4)
proof (induction ms arbitrary: rd)
  case Nil
  obtain r rd' where p: "framed_poll_next (Suc (length (stream (rd_inner rd)))) poll_read decode rd = Some (r, rd')"
    "\<And>n c. spec_of stream rd = (DecNeed n, c, []) \<Longrightarrow> r = NextEnd"
    using prompt_poll [OF assms(1,2) Nil.prems(1)] by metis
  have "spec_of stream rd = (DecNeed n, c, [])"
    using decode_all_Nil [OF Nil.prems(2) [unfolded remaining_def]] by (simp add: spec_of_def)
  with p show ?case by (blast intro: delivers.stop)
next
  case (Cons m ms)
  obtain c1 bs where s: "decode (rd_codec rd) (undecoded stream rd) = (DecItem m, c1, bs)"
    and rest: "decode_all c1 bs = (ms, DecNeed n, c, [])"
    using Cons.prems(2) unfolding remaining_def by (rule decode_all_Cons)
  obtain r rd' where p: "framed_poll_next (Suc (length (stream (rd_inner rd)))) poll_read decode rd = Some (r, rd')"
    "framed_wf rd'" "r = NextItem (Ok m) \<and> rd_codec rd' = c1 \<and> undecoded stream rd' = bs"
    using prompt_poll [OF assms(1,2) Cons.prems(1)] s [folded spec_of_def] by metis
  have "remaining stream rd' = (ms, DecNeed n, c, [])" using rest p(3) by (simp add: remaining_def)
  from Cons.IH [OF p(2) this] p(1,3) show ?case by (blast intro: delivers.item)
qed

section \<open>Properties\<close>

text \<open>C5: A connection from one end to the other: one side has sent its greeting and the commands of the handshake,
  then its writer task empties its queue into the sink; the transport carries the sink's bytes, or a prefix of
  them when the connection is lost; the other side reads them with any admissible options, however the transport
  cuts them and however often it is pending. Then the reader delivers a prefix of the greeting, the commands and
  the queued messages, in order, each unchanged; and when the writer has ended normally, all its bytes have been
  carried and the reader reports the end of the stream, it has delivered all of them.\<close>

theorem peer_to_peer_delivery:
  assumes "receiver recv_next try_recv pending" and "sink feed flush iter out unflushed" and "unflushed w = 0"
    and "out w = greeting_to_bytes g @ concat (map (encoding iter) cmds)"
    and "write_message_queue fuel recv_next try_recv feed flush q w = Some (res, q', w')"
    and "options_wf opts" and "\<forall>m \<in> set (cmds @ pending q). wire_ok iter (codec_with_options opts) m"
    and "transport poll_read stream" and "prefix (stream r) (out w')"
    and "delivers poll_read (framed_read_new r opts) got rd'"
  shows "prefix got (Message_Greeting g # cmds @ pending q)
    \<and> (res = Ok () \<and> stream r = out w' \<and> (\<exists>fuel' rd''. framed_poll_next fuel' poll_read decode rd' = Some (NextEnd, rd''))
        \<longrightarrow> got = Message_Greeting g # cmds @ pending q)"
proof -
  let ?rd = "framed_read_new r opts" and ?c = "codec_with_options opts"
  from write_message_queue_spec [OF assms(1,2,5,3)] obtain ms lost where
    mv: "moved pending iter out (pending q) w ms lost q' w'" and ok: "res = Ok () \<longrightarrow> ms = pending q" by blast
  have out: "out w' = greeting_to_bytes g @ concat (map (encoding iter) (cmds @ ms))" and ms: "prefix ms (pending q)"
    using mv assms(4) by (simp_all add: moved_def)
  have "set ms \<subseteq> set (pending q)" using ms by (metis set_mono_prefix)
  with assms(7) have "\<forall>m \<in> set (cmds @ ms). wire_ok iter ?c m" by auto
  from decode_all_connection [OF assms(6) this, of g] out
  have all: "fst (decode_all ?c (out w')) = Message_Greeting g # cmds @ ms" by auto
  have rem: "remaining stream ?rd = decode_all ?c (stream r)"
    by (simp add: remaining_def undecoded_def framed_read_new_def)
  have pre: "prefix (fst (remaining stream ?rd)) (Message_Greeting g # cmds @ ms)"
    using assms(9) decode_all_prefix [OF codec_wf_with_options [OF assms(6)], of "stream r"]
    unfolding rem all [symmetric] by (auto elim!: prefixE)
  note d = delivers_all [OF assms(8) framed_wf_new [OF assms(6)] assms(10)]
  have "prefix (Message_Greeting g # cmds @ ms) (Message_Greeting g # cmds @ pending q)" using ms by simp
  with d(1) pre have "prefix got (Message_Greeting g # cmds @ pending q)" by (meson prefix_order.trans)
  moreover have "got = Message_Greeting g # cmds @ pending q"
    if "res = Ok ()" "stream r = out w'" "\<exists>fuel' rd''. framed_poll_next fuel' poll_read decode rd' = Some (NextEnd, rd'')"
    using that d(2) ok all rem by auto
  ultimately show ?thesis by blast
qed

text \<open>One queued message, and a transport that delivers what it is asked for.\<close>

definition eager_poll_read :: "bytes poll_read" where
  "eager_poll_read r n = (Ready (Ok (take n r)), drop n r)"

lemma eager_transport: "transport eager_poll_read (\<lambda>r. r)"
  by (auto simp: transport_def eager_poll_read_def)

lemma eager_prompt: "prompt eager_poll_read"
  by (simp add: prompt_def eager_poll_read_def)

lemma sample_run:
  "\<exists>rd' fuel rd''. delivers eager_poll_read
      (framed_read_new (greeting_to_bytes greeting_default @ [0, 1, 9]) options_default)
      [Message_Greeting greeting_default, Message_Message \<lparr> frames = [[9]] \<rparr>] rd'
    \<and> framed_poll_next fuel eager_poll_read decode rd' = Some (NextEnd, rd'')"
proof -
  let ?m = "Message_Message \<lparr> frames = [[9]] \<rparr>" and ?bs = "greeting_to_bytes greeting_default @ [0, 1, 9]"
  have "wire_ok (\<lambda>_. []) (codec_with_options options_default) ?m"
    by (simp add: wire_ok_def frame_fits_def codec_with_options_def options_default_def isize_MAX_def)
  with decode_all_connection [OF options_default_wf, of "[?m]" "\<lambda>_. []" greeting_default]
  obtain n c where "decode_all (codec_with_options options_default) ?bs = ([Message_Greeting greeting_default, ?m], DecNeed n, c, [])"
    by (auto simp: encoding_def encode_Message encode_frame_def)
  then have "remaining (\<lambda>r. r) (framed_read_new ?bs options_default) = ([Message_Greeting greeting_default, ?m], DecNeed n, c, [])"
    by (simp add: remaining_def undecoded_def framed_read_new_def)
  from reader_drains [OF eager_transport eager_prompt framed_wf_new [OF options_default_wf] this] show ?thesis .
qed

lemma sample_write:
  "write_message_queue 2 sample_recv sample_recv (sample_feed (\<lambda>_. [])) sample_flush
      [Message_Message \<lparr> frames = [[9]] \<rparr>] (greeting_to_bytes greeting_default, 0)
    = Some (Ok (), [], greeting_to_bytes greeting_default @ [0, 1, 9], 0)"
  by (simp add: numeral_2_eq_2 write_batch_def sample_recv_def sample_feed_def sample_flush_def WRITE_BATCH_LIMIT_def
      encoding_def encode_Message encode_frame_def eval_nat_numeral)

theorem peer_to_peer_delivery_witness:
  "let q = [Message_Message \<lparr> frames = [[9]] \<rparr>]; w = (greeting_to_bytes greeting_default, 0)
   in \<exists>q' w' got rd' fuel rd''.
       write_message_queue 2 sample_recv sample_recv (sample_feed (\<lambda>_. [])) sample_flush q w = Some (Ok (), q', w')
     \<and> delivers eager_poll_read (framed_read_new (fst w') options_default) got rd'
     \<and> framed_poll_next fuel eager_poll_read decode rd' = Some (NextEnd, rd'')
     \<and> got = Message_Greeting greeting_default # q"
proof -
  let ?q = "[Message_Message \<lparr> frames = [[9]] \<rparr>]" and ?w = "(greeting_to_bytes greeting_default, 0 :: nat)"
  let ?bs = "greeting_to_bytes greeting_default @ [0, 1, 9]"
  have ok: "\<forall>m \<in> set ([] @ ?q). wire_ok (\<lambda>_. []) (codec_with_options options_default) m"
    by (simp add: wire_ok_def frame_fits_def codec_with_options_def options_default_def isize_MAX_def)
  note wr = sample_write
  obtain rd' fuel rd'' where rd: "delivers eager_poll_read (framed_read_new ?bs options_default)
      [Message_Greeting greeting_default, Message_Message \<lparr> frames = [[9]] \<rparr>] rd'"
    "framed_poll_next fuel eager_poll_read decode rd' = Some (NextEnd, rd'')"
    using sample_run by blast
  have "fst ?w = greeting_to_bytes greeting_default @ concat (map (encoding (\<lambda>_. [])) [])" "snd ?w = 0"
    "prefix ?bs (fst (?bs, 0 :: nat))" by simp_all
  from peer_to_peer_delivery [OF sample_writer(1) sample_writer(2) this(2,1) wr options_default_wf ok eager_transport this(3) rd(1)]
    wr rd show ?thesis unfolding Let_def by fastforce
qed

text \<open>C6: And it arrives: when the writer has ended normally, the transport carries all its bytes and is never pending
  and never fails, the reader, polled again and again, delivers the greeting, the commands and the queued messages
  and then reports the end of the stream.\<close>

theorem peer_to_peer_liveness:
  assumes "receiver recv_next try_recv pending" and "sink feed flush iter out unflushed" and "unflushed w = 0"
    and "out w = greeting_to_bytes g @ concat (map (encoding iter) cmds)"
    and "write_message_queue fuel recv_next try_recv feed flush q w = Some (Ok (), q', w')"
    and "options_wf opts" and "\<forall>m \<in> set (cmds @ pending q). wire_ok iter (codec_with_options opts) m"
    and "transport poll_read stream" and "prompt poll_read" and "stream r = out w'"
  shows "\<exists>rd' fuel' rd''. delivers poll_read (framed_read_new r opts) (Message_Greeting g # cmds @ pending q) rd'
    \<and> framed_poll_next fuel' poll_read decode rd' = Some (NextEnd, rd'')"
proof -
  from write_message_queue_spec [OF assms(1,2,5,3)] assms(4)
  have "out w' = greeting_to_bytes g @ concat (map (encoding iter) (cmds @ pending q))"
    by (auto simp: moved_def)
  with decode_all_connection [OF assms(6,7), of g] assms(10) obtain n c where
    "remaining stream (framed_read_new r opts) = (Message_Greeting g # cmds @ pending q, DecNeed n, c, [])"
    by (auto simp: remaining_def undecoded_def framed_read_new_def)
  from reader_drains [OF assms(8,9) framed_wf_new [OF assms(6)] this] show ?thesis .
qed

theorem peer_to_peer_liveness_witness:
  "\<exists>rd' fuel rd''. delivers eager_poll_read
      (framed_read_new (greeting_to_bytes greeting_default @ [0, 1, 9]) options_default)
      [Message_Greeting greeting_default, Message_Message \<lparr> frames = [[9]] \<rparr>] rd'
    \<and> framed_poll_next fuel eager_poll_read decode rd' = Some (NextEnd, rd'')"
proof -
  let ?q = "[Message_Message \<lparr> frames = [[9]] \<rparr>]" and ?w = "(greeting_to_bytes greeting_default, 0 :: nat)"
  let ?bs = "greeting_to_bytes greeting_default @ [0, 1, 9]"
  have ok: "\<forall>m \<in> set ([] @ ?q). wire_ok (\<lambda>_. []) (codec_with_options options_default) m"
    by (simp add: wire_ok_def frame_fits_def codec_with_options_def options_default_def isize_MAX_def)
  have "fst ?w = greeting_to_bytes greeting_default @ concat (map (encoding (\<lambda>_. [])) [])" "snd ?w = 0"
    "?bs = fst (?bs, 0 :: nat)" by simp_all
  from peer_to_peer_liveness [OF sample_writer(1) sample_writer(2) this(2,1) sample_write options_default_wf ok
      eager_transport eager_prompt this(3)]
  show ?thesis by simp
qed

end
