(* ===== verification/Endpoint.thy ===== *)
theory Endpoint
  imports Prelude
begin

text \<open>
  \<open>src/endpoint/\<close>: endpoint addresses, their parser (\<open>FromStr\<close>) and printer (\<open>Display\<close>).

  Strings are the lists of their UTF-8 bytes. The two regular expressions of \<open>endpoint/mod.rs\<close> are
  matched by hand: \<open>split_transport\<close> and \<open>split_host_port\<close>. The textual forms of IP addresses are
  those of the standard library (\<open>core::net\<close>): \<open>parse_ipv4\<close>, \<open>show_ipv4\<close>, \<open>parse_ipv6\<close> and \<open>show_ipv6\<close>
  follow its parser and its \<open>Display\<close> implementations.
\<close>

section \<open>Numbers in text\<close>

definition to_digit :: "nat \<Rightarrow> byte \<Rightarrow> nat option" where
  "to_digit radix b =
     (let v = (if 0x30 \<le> b \<and> b \<le> 0x39 then unat b - 0x30
               else if 0x61 \<le> b \<and> b \<le> 0x7A then unat b - 0x61 + 10
               else if 0x41 \<le> b \<and> b \<le> 0x5A then unat b - 0x41 + 10
               else radix)
      in if v < radix then Some v else None)"

definition from_digit :: "nat \<Rightarrow> byte" where
  "from_digit d = (if d < 10 then of_nat (0x30 + d) else of_nat (0x61 + (d - 10)))"

definition digits_value :: "nat \<Rightarrow> bytes \<Rightarrow> nat" where
  "digits_value radix ds = foldl (\<lambda>acc b. acc * radix + the (to_digit radix b)) 0 ds"

text \<open>Decimal or lower-case hexadecimal notation without leading zeros.\<close>

function show_number :: "nat \<Rightarrow> nat \<Rightarrow> bytes" where
  "show_number radix n =
     (if radix < 2 \<or> n < radix then [from_digit n]
      else show_number radix (n div radix) @ [from_digit (n mod radix)])"
  by auto

termination by (relation "measure snd") auto

declare show_number.simps [simp del]

text \<open>\<open>Parser::read_number\<close>: at most \<open>max_digits\<close> digits, a value that fits (\<open>limit\<close>), no leading zero
  unless allowed.\<close>

definition read_number :: "nat \<Rightarrow> nat \<Rightarrow> bool \<Rightarrow> nat \<Rightarrow> bytes \<Rightarrow> (nat \<times> bytes) option" where
  "read_number radix max_digits allow_zero_prefix limit s =
     (let ds = takeWhile (\<lambda>b. to_digit radix b \<noteq> None) s;
          v = digits_value radix ds
      in if length ds > max_digits then None
         else if v > limit then None
         else if ds = [] then None
         else if \<not> allow_zero_prefix \<and> hd ds = 0x30 \<and> length ds > 1 then None
         else Some (v, drop (length ds) s))"

definition read_given_char :: "byte \<Rightarrow> bytes \<Rightarrow> bytes option" where
  "read_given_char c s = (case s of [] \<Rightarrow> None | b # bs \<Rightarrow> if b = c then Some bs else None)"

text \<open>\<open>Parser::read_separator\<close>: no separator before the first element.\<close>

definition read_separator ::
    "byte \<Rightarrow> nat \<Rightarrow> (bytes \<Rightarrow> ('a \<times> bytes) option) \<Rightarrow> bytes \<Rightarrow> ('a \<times> bytes) option" where
  "read_separator sep index inner s =
     (if index > 0 then (case read_given_char sep s of None \<Rightarrow> None | Some s' \<Rightarrow> inner s')
      else inner s)"

section \<open>IP addresses\<close>

type_synonym ipv4 = "byte \<times> byte \<times> byte \<times> byte"

text \<open>The eight 16-bit segments of an IPv6 address.\<close>

type_synonym ipv6 = "nat list"

definition ipv6_wf :: "ipv6 \<Rightarrow> bool" where
  "ipv6_wf a \<longleftrightarrow> length a = 8 \<and> (\<forall>g \<in> set a. g < 2 ^ 16)"

definition read_octet :: "nat \<Rightarrow> bytes \<Rightarrow> (nat \<times> bytes) option" where
  "read_octet i = read_separator 0x2E i (read_number 10 3 False 255)"

definition read_ipv4_addr :: "bytes \<Rightarrow> (ipv4 \<times> bytes) option" where
  "read_ipv4_addr s =
     (case read_octet 0 s of None \<Rightarrow> None | Some (a, s1) \<Rightarrow>
      (case read_octet 1 s1 of None \<Rightarrow> None | Some (b, s2) \<Rightarrow>
       (case read_octet 2 s2 of None \<Rightarrow> None | Some (c, s3) \<Rightarrow>
        (case read_octet 3 s3 of None \<Rightarrow> None | Some (d, s4) \<Rightarrow>
           Some ((of_nat a, of_nat b, of_nat c, of_nat d), s4)))))"

definition parse_ipv4 :: "bytes \<Rightarrow> ipv4 option" where
  "parse_ipv4 s =
     (if length s > 15 then None
      else case read_ipv4_addr s of Some (a, []) \<Rightarrow> Some a | _ \<Rightarrow> None)"

definition show_ipv4 :: "ipv4 \<Rightarrow> bytes" where
  "show_ipv4 addr = (case addr of (a, b, c, d) \<Rightarrow>
     show_number 10 (unat a) @ [0x2E] @ show_number 10 (unat b) @ [0x2E]
       @ show_number 10 (unat c) @ [0x2E] @ show_number 10 (unat d))"

text \<open>\<open>read_groups\<close>: up to \<open>limit\<close> groups, the first at index \<open>i\<close>; an IPv4 address may stand for the
  last two. The boolean says whether it did.\<close>

function read_groups :: "nat \<Rightarrow> nat \<Rightarrow> bytes \<Rightarrow> nat list \<times> bool \<times> bytes" where
  "read_groups i limit s =
     (if limit \<le> i then ([], False, s)
      else case (if i < limit - 1 then read_separator 0x3A i read_ipv4_addr s else None) of
        Some ((a, b, c, d), s') \<Rightarrow>
          ([unat a * 256 + unat b, unat c * 256 + unat d], True, s')
      | None \<Rightarrow>
          (case read_separator 0x3A i (read_number 16 4 True 65535) s of
             Some (g, s') \<Rightarrow>
               (case read_groups (i + 1) limit s' of (gs, v4, s'') \<Rightarrow> (g # gs, v4, s''))
           | None \<Rightarrow> ([], False, s)))"
  by auto

termination by (relation "measure (\<lambda>(i, limit, s). limit - i)") auto

declare read_groups.simps [simp del]

definition read_ipv6_addr :: "bytes \<Rightarrow> (ipv6 \<times> bytes) option" where
  "read_ipv6_addr s =
     (case read_groups 0 8 s of (head, head_ipv4, s1) \<Rightarrow>
        if length head = 8 then Some (head, s1)
        else if head_ipv4 then None
        else case read_given_char 0x3A s1 of None \<Rightarrow> None | Some s2 \<Rightarrow>
          (case read_given_char 0x3A s2 of None \<Rightarrow> None | Some s3 \<Rightarrow>
             (case read_groups 0 (8 - (length head + 1)) s3 of (tail, _, s4) \<Rightarrow>
                Some (head @ replicate (8 - length head - length tail) 0 @ tail, s4))))"

definition parse_ipv6 :: "bytes \<Rightarrow> ipv6 option" where
  "parse_ipv6 s = (case read_ipv6_addr s of Some (a, []) \<Rightarrow> Some a | _ \<Rightarrow> None)"

text \<open>\<open>Display for Ipv6Addr\<close>: the first longest run of at least two zero segments is abbreviated.\<close>

fun zero_run :: "nat list \<Rightarrow> nat" where
  "zero_run (0 # gs) = Suc (zero_run gs)"
| "zero_run _ = 0"

fun longest_zero_run :: "nat \<Rightarrow> nat list \<Rightarrow> nat \<times> nat" where
  "longest_zero_run i [] = (0, 0)"
| "longest_zero_run i (g # gs) =
     (let here = zero_run (g # gs); (start, len) = longest_zero_run (i + 1) gs
      in if len \<le> here then (i, here) else (start, len))"

fun fmt_subslice :: "nat list \<Rightarrow> bytes" where
  "fmt_subslice [] = []"
| "fmt_subslice [g] = show_number 16 g"
| "fmt_subslice (g # gs) = show_number 16 g @ [0x3A] @ fmt_subslice gs"

definition show_ipv6 :: "ipv6 \<Rightarrow> bytes" where
  "show_ipv6 a =
     (if take 6 a = [0, 0, 0, 0, 0, 0xFFFF] \<and> length a = 8
      then str ''::ffff:'' @ show_ipv4 (of_nat (a ! 6 div 256), of_nat (a ! 6 mod 256),
             of_nat (a ! 7 div 256), of_nat (a ! 7 mod 256))
      else case longest_zero_run 0 a of (start, len) \<Rightarrow>
        if len > 1
        then fmt_subslice (take start a) @ str ''::'' @ fmt_subslice (drop (start + len) a)
        else fmt_subslice a)"

section \<open>Hosts, transports and endpoints\<close>

datatype endpoint_error = ParseIpAddr | UnknownTransport bytes | Syntax string

datatype host = Ipv4 ipv4 | Ipv6 ipv6 | Domain bytes

datatype transport = Tcp_transport | Ipc_transport

type_synonym port = nat

datatype endpoint = Tcp host port | Ipc "bytes option"

definition show_host :: "host \<Rightarrow> bytes" where
  "show_host h = (case h of Ipv4 a \<Rightarrow> show_ipv4 a | Ipv6 a \<Rightarrow> show_ipv6 a | Domain name \<Rightarrow> name)"

text \<open>\<open>std::net::IpAddr\<close>; only a host that is not a name converts into one. The error is that of \<open>ZmqError::Other\<close>.\<close>

datatype ip_addr = V4 ipv4 | V6 ipv6

definition ip_addr_try_from :: "host \<Rightarrow> string + ip_addr" where
  "ip_addr_try_from h = (case h of
     Ipv4 a \<Rightarrow> Ok (V4 a) | Ipv6 a \<Rightarrow> Ok (V6 a) | Domain _ \<Rightarrow> Err ''Host was neither Ipv4 nor Ipv6'')"

definition host_from :: "ip_addr \<Rightarrow> host" where
  "host_from a = (case a of V4 a \<Rightarrow> Ipv4 a | V6 a \<Rightarrow> Ipv6 a)"

definition host_try_from :: "bytes \<Rightarrow> endpoint_error + host" where
  "host_try_from s =
     (if s = [] then Err (Syntax ''Host string should not be empty'')
      else case parse_ipv4 s of
        Some addr \<Rightarrow> Ok (Ipv4 addr)
      | None \<Rightarrow>
          let ipv6_substr =
                (if hd s = 0x5B \<and> length s \<ge> 4 \<and> last s = 0x5D
                 then take (length s - 2) (drop 1 s) else s)
          in case parse_ipv6 ipv6_substr of
               Some addr \<Rightarrow> Ok (Ipv6 addr)
             | None \<Rightarrow> Ok (Domain s))"

definition transport_as_str :: "transport \<Rightarrow> bytes" where
  "transport_as_str t = (case t of Tcp_transport \<Rightarrow> str ''tcp'' | Ipc_transport \<Rightarrow> str ''ipc'')"

definition show_transport :: "transport \<Rightarrow> bytes" where
  "show_transport t = transport_as_str t"

definition transport_from_str :: "bytes \<Rightarrow> endpoint_error + transport" where
  "transport_from_str s =
     (if s = str ''tcp'' then Ok Tcp_transport
      else if s = str ''ipc'' then Ok Ipc_transport
      else Err (UnknownTransport s))"

definition endpoint_transport :: "endpoint \<Rightarrow> transport" where
  "endpoint_transport e = (case e of Tcp _ _ \<Rightarrow> Tcp_transport | Ipc _ \<Rightarrow> Ipc_transport)"

definition endpoint_from_tcp_domain :: "bytes \<Rightarrow> port \<Rightarrow> endpoint" where
  "endpoint_from_tcp_domain addr p = Tcp (Domain addr) p"

text \<open>\<open>TRANSPORT_REGEX\<close>, \<open>^([[:lower:]]+)://(.+)$\<close>: a non-empty run of lower-case ASCII letters, the
  separator, a non-empty rest without a line feed.\<close>

definition is_lower :: "byte \<Rightarrow> bool" where
  "is_lower b \<longleftrightarrow> 0x61 \<le> b \<and> b \<le> 0x7A"

definition split_transport :: "bytes \<Rightarrow> (bytes \<times> bytes) option" where
  "split_transport s =
     (let t = takeWhile is_lower s; r = dropWhile is_lower s
      in if t \<noteq> [] \<and> take 3 r = str ''://'' \<and> drop 3 r \<noteq> [] \<and> 0x0A \<notin> set (drop 3 r)
         then Some (t, drop 3 r) else None)"

text \<open>\<open>HOST_PORT_REGEX\<close>, \<open>^(.+):([0-9]+)$\<close>: what follows the last colon is a non-empty run of ASCII
  digits, what precedes it is non-empty and has no line feed.\<close>

definition is_digit :: "byte \<Rightarrow> bool" where
  "is_digit b \<longleftrightarrow> 0x30 \<le> b \<and> b \<le> 0x39"

definition split_host_port :: "bytes \<Rightarrow> (bytes \<times> bytes) option" where
  "split_host_port s =
     (let p = rev (takeWhile is_digit (rev s)); r = rev (dropWhile is_digit (rev s))
      in if p \<noteq> [] \<and> r \<noteq> [] \<and> last r = 0x3A \<and> butlast r \<noteq> [] \<and> 0x0A \<notin> set (butlast r)
         then Some (butlast r, p) else None)"

text \<open>\<open>u16::from_str\<close> on a run of digits.\<close>

definition parse_port :: "bytes \<Rightarrow> port option" where
  "parse_port ds = (let v = digits_value 10 ds in if v \<le> 65535 then Some v else None)"

definition extract_host_port :: "bytes \<Rightarrow> endpoint_error + (host \<times> port)" where
  "extract_host_port address =
     (case split_host_port address of
        None \<Rightarrow> Err (Syntax ''Could not parse host and port'')
      | Some (host, port) \<Rightarrow>
          (case parse_port port of
             None \<Rightarrow> Err (Syntax ''Port must be a u16 but was out of range'')
           | Some p \<Rightarrow> and_then (host_try_from host) (\<lambda>h. Ok (h, p))))"

definition endpoint_from_str :: "bytes \<Rightarrow> endpoint_error + endpoint" where
  "endpoint_from_str s =
     (case split_transport s of
        None \<Rightarrow> Err (Syntax ''Could not parse transport'')
      | Some (t, address) \<Rightarrow>
          and_then (transport_from_str t) (\<lambda>transport.
            case transport of
              Tcp_transport \<Rightarrow> and_then (extract_host_port address) (\<lambda>(host, port). Ok (Tcp host port))
            | Ipc_transport \<Rightarrow> Ok (Ipc (Some address))))"

text \<open>The types that \<open>TryIntoEndpoint\<close> is implemented for.\<close>

datatype into_endpoint = FromText bytes | FromEndpoint endpoint

definition try_into_endpoint :: "into_endpoint \<Rightarrow> endpoint_error + endpoint" where
  "try_into_endpoint x = (case x of FromText s \<Rightarrow> endpoint_from_str s | FromEndpoint e \<Rightarrow> Ok e)"

definition show_endpoint :: "endpoint \<Rightarrow> bytes" where
  "show_endpoint e =
     (case e of
        Tcp host port \<Rightarrow>
          (case host of
             Ipv6 _ \<Rightarrow> str ''tcp://['' @ show_host host @ str '']:'' @ show_number 10 port
           | _ \<Rightarrow> str ''tcp://'' @ show_host host @ str '':'' @ show_number 10 port)
      | Ipc (Some path) \<Rightarrow> str ''ipc://'' @ path
      | Ipc None \<Rightarrow> str ''ipc://????'')"

section \<open>Lemmas on numbers\<close>

lemma unat_from_digit: "d < 16 \<Longrightarrow> unat (from_digit d) = (if d < 10 then 48 + d else 87 + d)"
  by (simp add: from_digit_def del: of_nat_add)

lemma to_digit_from_digit [simp]: "radix \<le> 16 \<Longrightarrow> d < radix \<Longrightarrow> to_digit radix (from_digit d) = Some d"
  by (simp add: to_digit_def word_le_nat_alt unat_from_digit)

lemma from_digit_eq_zero_iff: "d < 16 \<Longrightarrow> from_digit d = 0x30 \<longleftrightarrow> d = 0"
  by (simp add: word_unat_eq_iff unat_from_digit)

lemma to_digit_separators [simp]:
  "radix \<le> 16 \<Longrightarrow> to_digit radix 0x2E = None" "radix \<le> 16 \<Longrightarrow> to_digit radix 0x3A = None"
  "radix \<le> 16 \<Longrightarrow> to_digit radix 0x5B = None" "radix \<le> 16 \<Longrightarrow> to_digit radix 0x5D = None"
  "radix \<le> 16 \<Longrightarrow> to_digit radix 0x0A = None"
  by (auto simp: to_digit_def)

lemma show_number_induct:
  assumes "2 \<le> radix" and "\<And>n. n < radix \<Longrightarrow> P n"
    and "\<And>n. radix \<le> n \<Longrightarrow> P (n div radix) \<Longrightarrow> P n"
  shows "P (n :: nat)"
proof (induction n rule: less_induct)
  case (less n)
  show ?case
  proof (cases "n < radix")
    case False
    then have "n div radix < n" using assms(1) by (simp add: div_less_dividend)
    with less False assms(3) show ?thesis by auto
  qed (use assms(2) in auto)
qed

lemma show_number_small: "n < radix \<Longrightarrow> show_number radix n = [from_digit n]"
  by (simp add: show_number.simps)

lemma show_number_step:
  "2 \<le> radix \<Longrightarrow> radix \<le> n
    \<Longrightarrow> show_number radix n = show_number radix (n div radix) @ [from_digit (n mod radix)]"
  by (subst show_number.simps) simp

lemma show_number_nonempty [simp]: "show_number radix n \<noteq> []"
  by (subst show_number.simps) simp

lemma show_number_digits:
  assumes radix: "2 \<le> radix" "radix \<le> 16"
    and "b \<in> set (show_number radix n)"
  shows "to_digit radix b \<noteq> None"
  using assms(3)
proof (induction n rule: show_number_induct [OF radix(1)])
  case (1 n)
  then show ?case using radix by (simp add: show_number_small)
next
  case (2 n)
  then show ?case using radix by (auto simp: show_number_step)
qed

lemma show_number_value:
  assumes radix: "2 \<le> radix" "radix \<le> 16"
  shows "digits_value radix (show_number radix n) = n"
proof (induction n rule: show_number_induct [OF radix(1)])
  case (1 n)
  then show ?case using radix by (simp add: show_number_small digits_value_def)
next
  case (2 n)
  then show ?case using radix by (simp add: show_number_step digits_value_def)
qed

lemma show_number_length:
  assumes radix: "2 \<le> radix" "radix \<le> 16"
    and "n < radix ^ Suc k"
  shows "length (show_number radix n) \<le> Suc k"
  using assms(3)
proof (induction k arbitrary: n)
  case 0
  then show ?case by (simp add: show_number_small)
next
  case (Suc k)
  show ?case
  proof (cases "n < radix")
    case False
    have "n div radix < radix ^ Suc k" using Suc.prems radix by (simp add: less_mult_imp_div_less mult.commute)
    with Suc.IH False radix show ?thesis by (simp add: show_number_step)
  qed (simp add: show_number_small)
qed

lemma show_number_hd:
  assumes radix: "2 \<le> radix" "radix \<le> 16"
    and "0 < n"
  shows "hd (show_number radix n) \<noteq> 0x30"
  using assms(3)
proof (induction n rule: show_number_induct [OF radix(1)])
  case (1 n)
  then show ?case using radix by (simp add: show_number_small from_digit_eq_zero_iff)
next
  case (2 n)
  then have "0 < n div radix" using radix by (simp add: div_greater_zero_iff)
  with 2 radix show ?case by (simp add: show_number_step)
qed

text \<open>A printed number is read back, whatever follows it, as long as no digit does.\<close>

lemma read_show_number:
  assumes radix: "2 \<le> radix" "radix \<le> 16"
    and "n < radix ^ Suc k" and "n \<le> limit" and "rest = [] \<or> to_digit radix (hd rest) = None"
  shows "read_number radix (Suc k) allow limit (show_number radix n @ rest) = Some (n, rest)"
proof -
  have "takeWhile (\<lambda>b. to_digit radix b \<noteq> None) (show_number radix n @ rest) = show_number radix n"
    using show_number_digits [OF radix] assms(5)
    by (subst takeWhile_append2) (auto simp: takeWhile_eq_Nil_iff)
  moreover have "hd (show_number radix n) = 0x30 \<longrightarrow> length (show_number radix n) \<le> 1"
    using show_number_hd [OF radix, of n] radix by (cases "n = 0") (auto simp: show_number_small)
  ultimately show ?thesis
    using show_number_length [OF radix assms(3)] show_number_value [OF radix] assms(4)
    by (auto simp: read_number_def Let_def)
qed


section \<open>Lemmas on IP addresses\<close>

lemma read_given_char_simps [simp]:
  "read_given_char c [] = None" "read_given_char c (c # s) = Some s"
  "b \<noteq> c \<Longrightarrow> read_given_char c (b # s) = None"
  by (simp_all add: read_given_char_def)

lemma read_octet_show:
  assumes "rest = [] \<or> to_digit 10 (hd rest) = None"
  shows "read_octet 0 (show_number 10 (unat a) @ rest) = Some (unat (a :: byte), rest)"
    and "0 < i \<Longrightarrow> read_octet i (0x2E # show_number 10 (unat a) @ rest) = Some (unat a, rest)"
  using read_show_number [of 10 "unat a" 2 255 rest False] unat_byte_less [of a] assms
  by (simp_all add: read_octet_def read_separator_def numeral_3_eq_3)

lemma read_ipv4_show:
  assumes "rest = [] \<or> to_digit 10 (hd rest) = None"
  shows "read_ipv4_addr (show_ipv4 a @ rest) = Some (a, rest)"
  using assms by (cases a) (simp add: show_ipv4_def read_ipv4_addr_def read_octet_show)

lemma length_show_octet: "length (show_number 10 (unat (a :: byte))) \<le> 3"
  using show_number_length [of 10 "unat a" 2] unat_byte_less [of a] by (simp add: numeral_3_eq_3)

lemma parse_show_ipv4 [simp]: "parse_ipv4 (show_ipv4 a) = Some a"
proof -
  obtain p q r t where a: "a = (p, q, r, t)" by (cases a)
  have "length (show_ipv4 a) \<le> 15"
    using length_show_octet [of p] length_show_octet [of q] length_show_octet [of r]
      length_show_octet [of t] by (simp add: a show_ipv4_def)
  then show ?thesis using read_ipv4_show [of "[]" a] by (simp add: parse_ipv4_def)
qed

text \<open>No IPv4 address starts with digits that are not followed by a full stop.\<close>

lemma read_ipv4_addr_None:
  assumes "0x2E \<notin> set ds" and "rest = [] \<or> hd rest \<noteq> 0x2E \<and> to_digit 10 (hd rest) = None"
  shows "read_ipv4_addr (ds @ rest) = None"
proof -
  have "read_octet 1 s1 = None" if "read_octet 0 (ds @ rest) = Some (v, s1)" for v s1
  proof -
    let ?P = "\<lambda>b. to_digit 10 b \<noteq> None"
    have s1: "s1 = dropWhile ?P (ds @ rest)"
      using that by (auto simp: read_octet_def read_separator_def read_number_def Let_def
          dropWhile_eq_drop split: if_splits)
    have "dropWhile ?P (ds @ rest) = [] \<or> hd (dropWhile ?P (ds @ rest)) \<noteq> 0x2E"
    proof (cases "\<forall>b \<in> set ds. ?P b")
      case True
      then have "dropWhile ?P (ds @ rest) = rest"
        using assms(2) by (cases rest) (auto simp: dropWhile_append2)
      with assms(2) show ?thesis by auto
    next
      case False
      then have "dropWhile ?P (ds @ rest) = dropWhile ?P ds @ rest" "dropWhile ?P ds \<noteq> []"
        by (auto simp: dropWhile_append1)
      with assms(1) show ?thesis by (metis hd_append2 hd_in_set set_dropWhileD)
    qed
    then have "s1 = [] \<or> hd s1 \<noteq> 0x2E" unfolding s1 .
    then show ?thesis
      by (cases s1) (auto simp: read_octet_def read_separator_def)
  qed
  then show ?thesis by (auto simp: read_ipv4_addr_def split: option.splits)
qed

text \<open>The groups of an IPv6 address from index \<open>i\<close> on, as printed.\<close>

fun groups_text :: "nat \<Rightarrow> nat list \<Rightarrow> bytes" where
  "groups_text i [] = []"
| "groups_text i (g # gs) = (if i > 0 then [0x3A] else []) @ show_number 16 g @ groups_text (Suc i) gs"

lemma groups_text_pos: "0 < i \<Longrightarrow> 0 < j \<Longrightarrow> groups_text i gs = groups_text j gs"
proof (induction gs arbitrary: i j)
  case (Cons g gs)
  then have "groups_text (Suc i) gs = groups_text (Suc j) gs" by blast
  then show ?case using Cons.prems by simp
qed simp

lemma fmt_subslice_text: "fmt_subslice gs = groups_text 0 gs"
  by (induction gs rule: fmt_subslice.induct) (simp_all add: groups_text_pos [of "Suc 0" "Suc (Suc 0)"])

definition group_stop :: "bytes \<Rightarrow> bool" where
  "group_stop rest \<longleftrightarrow> rest = [] \<or> (\<exists>r. rest = 0x3A # 0x3A # r)"

lemma no_full_stop: "0x2E \<notin> set (show_number 16 g)"
  using show_number_digits [of 16 "0x2E" g] by auto

lemma read_number_None [simp]: "to_digit radix b = None \<Longrightarrow> read_number radix m al l (b # s) = None"
  "read_number radix m al l [] = None"
  by (simp_all add: read_number_def Let_def digits_value_def)

lemma read_groups_stop:
  assumes "group_stop rest"
  shows "read_groups i limit rest = ([], False, rest)"
proof -
  have "read_ipv4_addr rest = None" "\<And>r. rest = 0x3A # r \<Longrightarrow> read_ipv4_addr r = None"
    using read_ipv4_addr_None [of "[]" rest] read_ipv4_addr_None [of "[]"] assms
    by (auto simp: group_stop_def)
  with assms show ?thesis
    by (subst read_groups.simps)
      (auto simp: group_stop_def read_separator_def split: option.splits)
qed

lemma groups_text_hd:
  assumes "0 < i" and "group_stop rest"
  shows "groups_text i gs @ rest = [] \<or> hd (groups_text i gs @ rest) = 0x3A"
  using assms by (cases gs) (auto simp: group_stop_def)

lemma read_groups_text:
  assumes "\<forall>g \<in> set gs. g < 2 ^ 16" and "i + length gs \<le> limit" and "group_stop rest"
  shows "read_groups i limit (groups_text i gs @ rest) = (gs, False, rest)"
  using assms
proof (induction gs arbitrary: i)
  case Nil
  then show ?case by (simp add: read_groups_stop)
next
  case (Cons g gs)
  let ?rest = "groups_text (Suc i) gs @ rest"
  have hd: "?rest = [] \<or> hd ?rest = 0x3A" using groups_text_hd [of "Suc i" rest gs] Cons.prems by simp
  have "read_ipv4_addr (show_number 16 g @ ?rest) = None"
    by (rule read_ipv4_addr_None) (use hd no_full_stop in auto)
  moreover have "read_number 16 (Suc 3) True 65535 (show_number 16 g @ ?rest) = Some (g, ?rest)"
    by (rule read_show_number) (use hd Cons.prems(1) in auto)
  moreover have "read_groups (Suc i) limit ?rest = (gs, False, rest)"
    using Cons by simp
  ultimately show ?case using Cons.prems(2)
    by (subst read_groups.simps) (auto simp: read_separator_def)
qed

lemma zero_run_take: "take (zero_run gs) gs = replicate (zero_run gs) 0 \<and> zero_run gs \<le> length gs"
  by (induction gs rule: zero_run.induct) auto

lemma longest_zero_run_spec:
  assumes "longest_zero_run i gs = (start, len)" and "0 < len"
  shows "i \<le> start \<and> start - i + len \<le> length gs
    \<and> gs = take (start - i) gs @ replicate len 0 @ drop (start - i + len) gs"
  using assms
proof (induction gs arbitrary: i start len)
  case (Cons g gs)
  obtain start' len' where rec: "longest_zero_run (i + 1) gs = (start', len')" by fastforce
  show ?case
  proof (cases "len' \<le> zero_run (g # gs)")
    case True
    with Cons.prems rec have "start = i" "len = zero_run (g # gs)" by (auto simp: Let_def)
    with zero_run_take [of "g # gs"] show ?thesis by (simp del: zero_run.simps) (metis append_take_drop_id)
  next
    case False
    with Cons.prems rec have eq: "start = start'" "len = len'" by (auto simp: Let_def)
    with Cons.IH [OF rec] False Cons.prems have
      "i + 1 \<le> start" "start - (i + 1) + len \<le> length gs"
      "gs = take (start - (i + 1)) gs @ replicate len 0 @ drop (start - (i + 1) + len) gs" by auto
    moreover from this have "start - i = Suc (start - (i + 1))" by simp
    ultimately show ?thesis by simp
  qed
qed simp

lemma str_colons: "str ''::'' = [0x3A, 0x3A]" "str '':'' = [0x3A]"
  by (simp_all add: of_char_def)

lemma parse_ipv6_compressed:
  assumes "\<forall>g \<in> set (head @ tail). g < 2 ^ 16" and "length head + length tail < 8"
  shows "parse_ipv6 (groups_text 0 head @ 0x3A # 0x3A # groups_text 0 tail)
    = Some (head @ replicate (8 - length head - length tail) 0 @ tail)"
proof -
  have "read_groups 0 8 (groups_text 0 head @ 0x3A # 0x3A # groups_text 0 tail)
      = (head, False, 0x3A # 0x3A # groups_text 0 tail)"
    by (rule read_groups_text) (use assms in \<open>auto simp: group_stop_def\<close>)
  moreover have "read_groups 0 (8 - (length head + 1)) (groups_text 0 tail) = (tail, False, [])"
    using read_groups_text [of tail 0 "8 - (length head + 1)" "[]"] assms by (auto simp: group_stop_def)
  ultimately show ?thesis using assms(2) by (simp add: parse_ipv6_def read_ipv6_addr_def)
qed

lemma parse_ipv6_full:
  assumes "ipv6_wf a"
  shows "parse_ipv6 (groups_text 0 a) = Some a"
proof -
  have "read_groups 0 8 (groups_text 0 a) = (a, False, [])"
    using read_groups_text [of a 0 8 "[]"] assms by (auto simp: group_stop_def ipv6_wf_def)
  then show ?thesis using assms by (simp add: parse_ipv6_def read_ipv6_addr_def ipv6_wf_def)
qed

lemma parse_ipv6_mapped:
  shows "parse_ipv6 (0x3A # 0x3A # groups_text 0 [0xFFFF] @ 0x3A # show_ipv4 (a, b, c, d))
    = Some [0, 0, 0, 0, 0, 0xFFFF, unat a * 256 + unat b, unat c * 256 + unat d]"
proof -
  let ?v4 = "0x3A # show_ipv4 (a, b, c, d)" and ?g = "show_number 16 0xFFFF"
  have v4: "read_ipv4_addr (show_ipv4 (a, b, c, d)) = Some ((a, b, c, d), [])"
    using read_ipv4_show [of "[]" "(a, b, c, d)"] by simp
  have "read_ipv4_addr (?g @ ?v4) = None"
    by (rule read_ipv4_addr_None) (use no_full_stop in auto)
  moreover have "read_number 16 (Suc 3) True 65535 (?g @ ?v4) = Some (0xFFFF, ?v4)"
    by (rule read_show_number) auto
  moreover have "read_groups 1 7 ?v4 = ([unat a * 256 + unat b, unat c * 256 + unat d], True, [])"
    using v4 by (subst read_groups.simps) (simp add: read_separator_def)
  ultimately have "read_groups 0 7 (?g @ ?v4)
      = ([0xFFFF, unat a * 256 + unat b, unat c * 256 + unat d], True, [])"
    by (subst read_groups.simps) (simp add: read_separator_def)
  moreover have "read_groups 0 8 (0x3A # 0x3A # ?g @ ?v4) = ([], False, 0x3A # 0x3A # ?g @ ?v4)"
    by (rule read_groups_stop) (simp add: group_stop_def)
  moreover have "replicate 5 (0 :: nat) = [0, 0, 0, 0, 0]" by code_simp
  ultimately show ?thesis by (simp add: parse_ipv6_def read_ipv6_addr_def)
qed

lemma str_mapped_prefix: "str ''::ffff:'' = 0x3A # 0x3A # groups_text 0 [0xFFFF] @ [0x3A]"
  by (simp add: of_char_def show_number_step show_number_small from_digit_def)

lemma show_ipv6_mapped_eq:
  assumes "ipv6_wf a" and "take 6 a = [0, 0, 0, 0, 0, 0xFFFF]"
  shows "a = [0, 0, 0, 0, 0, 0xFFFF, a ! 6, a ! 7]"
proof -
  have len: "length a = 8" using assms(1) by (simp add: ipv6_wf_def)
  have "drop 6 a = a ! 6 # drop 7 a" using Cons_nth_drop_Suc [of 6 a] len by simp
  moreover have "drop 7 a = [a ! 7]" using Cons_nth_drop_Suc [of 7 a] len by simp
  ultimately show ?thesis using assms(2) append_take_drop_id [of 6 a] by simp
qed

lemma parse_show_ipv6:
  assumes "ipv6_wf a"
  shows "parse_ipv6 (show_ipv6 a) = Some a"
proof (cases "take 6 a = [0, 0, 0, 0, 0, 0xFFFF]")
  case True
  note a = show_ipv6_mapped_eq [OF assms True]
  have "a ! 6 < 2 ^ 16" "a ! 7 < 2 ^ 16" using assms by (auto simp: ipv6_wf_def)
  then have "unat (of_nat (a ! 6 div 256) :: byte) * 256 + unat (of_nat (a ! 6 mod 256) :: byte) = a ! 6"
    "unat (of_nat (a ! 7 div 256) :: byte) * 256 + unat (of_nat (a ! 7 mod 256) :: byte) = a ! 7"
    by (auto simp: less_mult_imp_div_less)
  with a have "parse_ipv6 (0x3A # 0x3A # groups_text 0 [0xFFFF] @ 0x3A # show_ipv4 (of_nat (a ! 6 div 256),
      of_nat (a ! 6 mod 256), of_nat (a ! 7 div 256), of_nat (a ! 7 mod 256))) = Some a"
    by (simp only: parse_ipv6_mapped)
  moreover have "length a = 8" using assms by (simp add: ipv6_wf_def)
  ultimately show ?thesis unfolding show_ipv6_def str_mapped_prefix using True by simp
next
  case False
  obtain start len where run: "longest_zero_run 0 a = (start, len)" by fastforce
  show ?thesis
  proof (cases "len > 1")
    case True
    with longest_zero_run_spec [OF run] have le: "start + len \<le> length a"
      and a: "a = take start a @ replicate len 0 @ drop (start + len) a" by auto
    have "parse_ipv6 (show_ipv6 a) = Some (take start a
        @ replicate (8 - length (take start a) - length (drop (start + len) a)) 0 @ drop (start + len) a)"
      using False True run parse_ipv6_compressed [of "take start a" "drop (start + len) a"] le assms
      by (auto simp: show_ipv6_def ipv6_wf_def fmt_subslice_text str_colons dest: in_set_takeD in_set_dropD)
    with le a assms show ?thesis by (simp add: ipv6_wf_def)
  next
    case f: False
    with False run have "show_ipv6 a = groups_text 0 a" by (auto simp: show_ipv6_def fmt_subslice_text)
    with parse_ipv6_full [OF assms] show ?thesis by simp
  qed
qed

section \<open>Lemmas on endpoints\<close>

text \<open>The endpoints with a textual form: what the parser can return.\<close>

definition host_wf :: "host \<Rightarrow> bool" where
  "host_wf h = (case h of
     Ipv4 _ \<Rightarrow> True
   | Ipv6 a \<Rightarrow> ipv6_wf a
   | Domain d \<Rightarrow> d \<noteq> [] \<and> 0x0A \<notin> set d \<and> host_try_from d = Ok (Domain d))"

definition endpoint_wf :: "endpoint \<Rightarrow> bool" where
  "endpoint_wf e = (case e of
     Tcp h p \<Rightarrow> host_wf h \<and> p \<le> 65535
   | Ipc (Some path) \<Rightarrow> path \<noteq> [] \<and> 0x0A \<notin> set path
   | Ipc None \<Rightarrow> False)"

lemma is_digit_to_digit: "is_digit b \<longleftrightarrow> to_digit 10 b \<noteq> None"
  by (auto simp: is_digit_def to_digit_def word_le_nat_alt Let_def split: if_splits)

lemma split_host_port_text:
  assumes "h \<noteq> []" and "0x0A \<notin> set h"
  shows "split_host_port (h @ 0x3A # show_number 10 p) = Some (h, show_number 10 p)"
proof -
  let ?p = "show_number 10 p"
  have d: "\<forall>b \<in> set (rev ?p). is_digit b" using show_number_digits [of 10] by (simp add: is_digit_to_digit)
  have "\<not> is_digit 0x3A" by (simp add: is_digit_def)
  with d have "takeWhile is_digit (rev ?p @ 0x3A # rev h) = rev ?p"
    "dropWhile is_digit (rev ?p @ 0x3A # rev h) = 0x3A # rev h"
    by (subst takeWhile_append2 dropWhile_append2; simp)+
  with assms show ?thesis by (simp add: split_host_port_def Let_def)
qed

lemma extract_host_port_text:
  assumes "h \<noteq> []" and "0x0A \<notin> set h" and "p \<le> 65535"
  shows "extract_host_port (h @ 0x3A # show_number 10 p) = and_then (host_try_from h) (\<lambda>h'. Ok (h', p))"
  using assms show_number_value [of 10 p]
  by (simp add: extract_host_port_def split_host_port_text parse_port_def Let_def)

lemma split_transport_text:
  assumes "\<forall>b \<in> set t. is_lower b" and "t \<noteq> []" and "rest \<noteq> []" and "0x0A \<notin> set rest"
  shows "split_transport (t @ 0x3A # 0x2F # 0x2F # rest) = Some (t, rest)"
proof -
  have "\<not> is_lower 0x3A" by (simp add: is_lower_def)
  then have "takeWhile is_lower (t @ 0x3A # 0x2F # 0x2F # rest) = t"
    "dropWhile is_lower (t @ 0x3A # 0x2F # 0x2F # rest) = 0x3A # 0x2F # 0x2F # rest"
    using assms(1) by (simp_all add: takeWhile_append2 dropWhile_append2)
  with assms show ?thesis by (simp add: split_transport_def Let_def of_char_def)
qed

lemma no_line_feed:
  assumes "2 \<le> radix" and "radix \<le> 16" and "b = 0x0A \<or> b = 0x5B"
  shows "b \<notin> set (show_number radix n)"
  using show_number_digits [of radix b n] assms by auto

lemma show_ipv4_chars: "0x0A \<notin> set (show_ipv4 a)"
  by (cases a) (simp add: show_ipv4_def no_line_feed)

lemma groups_text_chars: "0x0A \<notin> set (groups_text i gs)"
  by (induction gs arbitrary: i) (simp_all add: no_line_feed)

lemma show_ipv6_chars: "0x0A \<notin> set (show_ipv6 a)"
  using groups_text_chars show_ipv4_chars
  by (simp add: show_ipv6_def fmt_subslice_text of_char_def split: prod.splits)

lemma length_groups_text: "length gs - 1 + (if 0 < i then 1 else 0) + 1 \<le> length (groups_text i gs) \<or> gs = []"
proof (induction gs arbitrary: i)
  case (Cons g gs)
  have "0 < length (show_number 16 g)" by simp
  then have "1 \<le> length (show_number 16 g)" by linarith
  then show ?case using Cons.IH [of "Suc i"] by auto
qed simp

lemma length_show_ipv6: "ipv6_wf a \<Longrightarrow> 2 \<le> length (show_ipv6 a)"
  using length_groups_text [of a 0]
  by (auto simp: show_ipv6_def fmt_subslice_text ipv6_wf_def split: prod.splits)

lemma parse_ipv4_bracket: "parse_ipv4 (0x5B # s) = None"
  by (simp add: parse_ipv4_def read_ipv4_addr_def read_octet_def read_separator_def)

lemma host_try_from_show:
  "host_try_from (show_ipv4 a) = Ok (Ipv4 a)"
  "ipv6_wf b \<Longrightarrow> host_try_from (0x5B # show_ipv6 b @ [0x5D]) = Ok (Ipv6 b)"
proof -
  have "show_ipv4 a \<noteq> []" by (cases a) (simp add: show_ipv4_def)
  then show "host_try_from (show_ipv4 a) = Ok (Ipv4 a)" by (simp add: host_try_from_def)
next
  assume b: "ipv6_wf b"
  let ?s = "0x5B # show_ipv6 b @ [0x5D]"
  have "take (length ?s - 2) (drop 1 ?s) = show_ipv6 b" by simp
  with length_show_ipv6 [OF b] parse_show_ipv6 [OF b] show "host_try_from ?s = Ok (Ipv6 b)"
    by (simp add: host_try_from_def parse_ipv4_bracket)
qed

text \<open>The text after the transport, and the transport itself.\<close>

lemma show_endpoint_tcp:
  "show_endpoint (Tcp h p) = str ''tcp'' @ 0x3A # 0x2F # 0x2F #
     (case h of Ipv6 a \<Rightarrow> (0x5B # show_ipv6 a @ [0x5D]) @ 0x3A # show_number 10 p
      | Ipv4 a \<Rightarrow> show_ipv4 a @ 0x3A # show_number 10 p | Domain d \<Rightarrow> d @ 0x3A # show_number 10 p)"
  by (simp add: show_endpoint_def show_host_def of_char_def split: host.splits)

lemma show_endpoint_ipc: "show_endpoint (Ipc (Some path)) = str ''ipc'' @ 0x3A # 0x2F # 0x2F # path"
  by (simp add: show_endpoint_def of_char_def)

lemma lower_transports: "\<forall>b \<in> set (str ''tcp''). is_lower b" "\<forall>b \<in> set (str ''ipc''). is_lower b"
  by (simp_all add: of_char_def is_lower_def)

lemma transport_from_str_simps [simp]:
  "transport_from_str (str ''tcp'') = Ok Tcp_transport"
  "transport_from_str (str ''ipc'') = Ok Ipc_transport"
  by (simp_all add: transport_from_str_def of_char_def)

lemma endpoint_from_str_tcp:
  assumes "h \<noteq> []" and "0x0A \<notin> set h" and "p \<le> 65535"
  shows "endpoint_from_str (str ''tcp'' @ 0x3A # 0x2F # 0x2F # h @ 0x3A # show_number 10 p)
    = and_then (host_try_from h) (\<lambda>h'. Ok (Tcp h' p))"
proof -
  have "split_transport (str ''tcp'' @ 0x3A # 0x2F # 0x2F # h @ 0x3A # show_number 10 p)
      = Some (str ''tcp'', h @ 0x3A # show_number 10 p)"
    by (rule split_transport_text) (use assms lower_transports in \<open>auto simp: no_line_feed\<close>)
  then show ?thesis
    using extract_host_port_text [OF assms] by (cases "host_try_from h") (simp_all add: endpoint_from_str_def del: str_simps)
qed

lemma endpoint_from_str_show:
  assumes "endpoint_wf e"
  shows "endpoint_from_str (show_endpoint e) = Ok e"
proof (cases e)
  case (Tcp h p)
  then have p: "p \<le> 65535" and h: "host_wf h" using assms by (auto simp: endpoint_wf_def)
  show ?thesis
  proof (cases h)
    case (Ipv4 a)
    have "show_ipv4 a \<noteq> []" by (cases a) (simp add: show_ipv4_def)
    from endpoint_from_str_tcp [OF this show_ipv4_chars p] Tcp Ipv4 show ?thesis
      by (simp add: show_endpoint_tcp host_try_from_show del: str_simps)
  next
    case (Ipv6 a)
    with h have "ipv6_wf a" by (simp add: host_wf_def)
    with endpoint_from_str_tcp [of "0x5B # show_ipv6 a @ [0x5D]" p] p show_ipv6_chars [of a] Tcp Ipv6
    show ?thesis by (simp add: show_endpoint_tcp host_try_from_show del: str_simps)
  next
    case (Domain d)
    with h endpoint_from_str_tcp [of d p] p Tcp show ?thesis
      by (simp add: show_endpoint_tcp host_wf_def del: str_simps)
  qed
next
  case (Ipc path)
  with assms obtain s where s: "path = Some s" "s \<noteq> []" "0x0A \<notin> set s"
    by (cases path) (auto simp: endpoint_wf_def)
  have "str ''ipc'' \<noteq> []" by simp
  from split_transport_text [OF lower_transports(2) this s(2,3)] Ipc s(1) show ?thesis
    by (simp add: show_endpoint_ipc endpoint_from_str_def del: str_simps)
qed

text \<open>Whatever parses is well formed.\<close>

lemma read_groups_bound:
  "read_groups i limit s = (gs, v4, s') \<Longrightarrow> (\<forall>g \<in> set gs. g < 2 ^ 16) \<and> length gs \<le> limit - i"
proof (induction i limit s arbitrary: gs v4 s' rule: read_groups.induct)
  case (1 i limit s)
  have pair: "unat (a :: byte) * 256 + unat (b :: byte) < 2 ^ 16" for a b
    using unat_byte_less [of a] unat_byte_less [of b] by (simp del: unat_byte_less)
  have num: "g < 2 ^ 16" if "read_separator 0x3A i (read_number 16 4 True 65535) s = Some (g, t)" for g t
    using that by (auto simp: read_separator_def read_number_def Let_def split: if_splits option.splits)
  let ?v4 = "if i < limit - 1 then read_separator 0x3A i read_ipv4_addr s else None"
  let ?num = "read_separator 0x3A i (read_number 16 4 True 65535) s"
  note step = 1(2) [unfolded read_groups.simps [of i limit s]]
  consider "limit \<le> i" | a b c d t where "\<not> limit \<le> i" "?v4 = Some ((a, b, c, d), t)"
    | g t where "\<not> limit \<le> i" "?v4 = None" "?num = Some (g, t)"
    | "\<not> limit \<le> i" "?v4 = None" "?num = None"
    by (metis (no_types) not_None_eq prod.exhaust)
  then show ?case
  proof cases
    case 2
    then have "i < limit - 1" by (auto split: if_splits)
    with 2 step pair [of a b] pair [of c d] show ?thesis by auto
  next
    case 3
    obtain gs' v4' t' where rec: "read_groups (i + 1) limit t = (gs', v4', t')"
      by (cases "read_groups (i + 1) limit t")
    from 1(1) [OF 3(1,2,3) refl rec] num [OF 3(3)] step 3 rec show ?thesis by auto
  qed (use step in auto)
qed

lemma parse_ipv6_wf: "parse_ipv6 s = Some a \<Longrightarrow> ipv6_wf a"
proof -
  assume "parse_ipv6 s = Some a"
  then obtain t where "read_ipv6_addr s = Some (a, t)"
    by (auto simp: parse_ipv6_def split: option.splits list.splits)
  moreover obtain h v s1 where h: "read_groups 0 8 s = (h, v, s1)" by (cases "read_groups 0 8 s")
  moreover note read_groups_bound [OF h]
  ultimately show ?thesis
    by (auto simp: read_ipv6_addr_def ipv6_wf_def split: if_splits option.splits prod.splits
        dest!: read_groups_bound)
qed

lemma host_try_from_wf: "host_try_from s = Ok h \<Longrightarrow> 0x0A \<notin> set s \<Longrightarrow> host_wf h"
  using parse_ipv6_wf
  by (auto simp: host_try_from_def host_wf_def Let_def split: if_splits option.splits)

lemma split_wf:
  "split_transport s = Some (t, r) \<Longrightarrow> r \<noteq> [] \<and> 0x0A \<notin> set r"
  "split_host_port s = Some (h, p) \<Longrightarrow> 0x0A \<notin> set h"
  by (auto simp: split_transport_def split_host_port_def Let_def split: if_splits)

lemma extract_host_port_wf: "extract_host_port s = Ok (h, p) \<Longrightarrow> host_wf h \<and> p \<le> 65535"
  by (auto simp: extract_host_port_def parse_port_def and_then_Ok_iff Let_def
      dest!: split_wf(2) host_try_from_wf split: option.splits if_splits)

lemma endpoint_from_str_wf: "endpoint_from_str s = Ok e \<Longrightarrow> endpoint_wf e"
  by (auto simp: endpoint_from_str_def endpoint_wf_def and_then_Ok_iff
      dest!: split_wf(1) extract_host_port_wf split: option.splits transport.splits)
    (metis transport.exhaust)

section \<open>Properties\<close>



text \<open>Every string that parses denotes an endpoint whose printed form parses to the same endpoint,
  with a port of at most 65535.\<close>

theorem endpoint_parse_canonical:
  assumes "endpoint_from_str s = Ok e"
  shows "endpoint_from_str (show_endpoint e) = Ok e \<and> (\<forall>h p. e = Tcp h p \<longrightarrow> p \<le> 65535)"
  using endpoint_from_str_show [OF endpoint_from_str_wf [OF assms]] endpoint_from_str_wf [OF assms]
  by (auto simp: endpoint_wf_def)

theorem endpoint_parse_canonical_witness:
  "endpoint_from_str (show_endpoint (Ipc (Some (str ''x.sock'')))) = Ok (Ipc (Some (str ''x.sock'')))"
proof -
  have "endpoint_from_str (str ''ipc://x.sock'') = Ok (Ipc (Some (str ''x.sock'')))"
    by (simp add: endpoint_from_str_def split_transport_def is_lower_def transport_from_str_def
        of_char_def Let_def)
  from endpoint_parse_canonical [OF this] show ?thesis by blast
qed

end
