(* ===== verification/Errors.thy ===== *)
theory Errors
  imports Zmq_Codec Endpoint
begin

text \<open>
  \<open>src/error.rs\<close>, \<open>src/task_handle.rs\<close> and the events of \<open>src/lib.rs\<close>: the errors of the socket
  API, the outcome of a background task, the events reported to a socket monitor.
\<close>

datatype zmq_error =
    ErrEndpoint endpoint_error
  | ErrNetwork io_error
  | NoSuchBind endpoint
  | ErrCodec codec_error
  | ErrSocket string
  | BufferFull string
  | ReturnToSender string zmq_message
  | ReturnToSenderMultipart string "zmq_message list"
  | ErrTask task_error
  | ErrOther string
  | NoMessage
  | ErrPeerIdentity
  | UnsupportedVersion zmtp_version
  | ConnectTimeout duration
and task_error = TaskInternal zmq_error | TaskPanic | TaskCancelled

type_synonym 'a zmq_result = "zmq_error + 'a"

text \<open>\<open>From<mpsc::SendError>\<close> and \<open>From<mpsc::TrySendError>\<close>.\<close>

definition send_error :: zmq_error where
  "send_error = BufferFull ''Failed to send message. Send queue full/broken''"

datatype socket_event =
    Connected endpoint peer_identity
  | ConnectDelayed
  | ConnectRetried
  | Listening endpoint
  | Accepted endpoint peer_identity
  | AcceptFailed zmq_error
  | Closed
  | CloseFailed
  | Disconnected peer_identity

section \<open>Task handles\<close>

text \<open>\<open>JoinError\<close> of \<open>src/async_rt/task\<close>, with the payload of the panic, and its conversion from the error of
  tokio, which is known by \<open>is_cancelled\<close> and \<open>into_panic\<close>.\<close>

datatype 'p join_error = JoinCancelled | JoinPanic 'p

definition is_cancelled :: "'p join_error \<Rightarrow> bool" where
  "is_cancelled err = (case err of JoinCancelled \<Rightarrow> True | JoinPanic _ \<Rightarrow> False)"

definition is_panic :: "'p join_error \<Rightarrow> bool" where
  "is_panic err \<longleftrightarrow> \<not> is_cancelled err"

record 'p rt_join_error =
  rt_is_cancelled :: bool
  rt_into_panic :: 'p

definition join_error_from :: "'p rt_join_error \<Rightarrow> 'p join_error" where
  "join_error_from err = (if rt_is_cancelled err then JoinCancelled else JoinPanic (rt_into_panic err))"

text \<open>\<open>JoinHandle::poll\<close>, for tokio: the runtime's result with the error converted.\<close>

definition join_handle_poll :: "('p rt_join_error + 'a) poll \<Rightarrow> ('p join_error + 'a) poll" where
  "join_handle_poll result = (case result of
     Pending \<Rightarrow> Pending
   | Ready (Inl e) \<Rightarrow> Ready (Err (join_error_from e))
   | Ready (Inr x) \<Rightarrow> Ready (Ok x))"

definition task_error_from :: "'p join_error \<Rightarrow> task_error" where
  "task_error_from err = (if is_panic err then TaskPanic else TaskCancelled)"

text \<open>\<open>TaskHandle\<close>: the sender of the stop signal and the task that is awaited.\<close>

record ('c, 'j) task_handle =
  stop_channel :: 'c
  join_handle :: 'j

definition task_handle_new :: "'c \<Rightarrow> 'j \<Rightarrow> ('c, 'j) task_handle" where
  "task_handle_new stop join = \<lparr> stop_channel = stop, join_handle = join \<rparr>"

text \<open>\<open>TaskHandle::shutdown\<close>: signal the task, ignoring a closed channel, then wait for it. The two
  operations of the runtime are parameters.\<close>

definition task_shutdown ::
    "('c \<Rightarrow> 'w \<Rightarrow> 'w) \<Rightarrow> ('j \<Rightarrow> 'w \<Rightarrow> ('p join_error + 'a zmq_result) \<times> 'w) \<Rightarrow> ('c, 'j) task_handle
      \<Rightarrow> 'w \<Rightarrow> 'a zmq_result \<times> 'w" where
  "task_shutdown stop join h w =
     (case join (join_handle h) (stop (stop_channel h) w) of
        (Inr (Inr ok), w') \<Rightarrow> (Ok ok, w')
      | (Inr (Inl zmq_err), w') \<Rightarrow> (Err zmq_err, w')
      | (Inl e, w') \<Rightarrow> (Err (ErrTask (task_error_from e)), w'))"

text \<open>A task that is shut down reports its own outcome; one that has not finished reports how it ended: cancelled
  exactly when the runtime says so.\<close>

theorem task_shutdown_outcome:
  assumes "join (join_handle h) (stop (stop_channel h) w) = (map_sum join_error_from id r, w')"
  shows "task_shutdown stop join h w =
    (case r of Inr x \<Rightarrow> x | Inl e \<Rightarrow> Err (ErrTask (if rt_is_cancelled e then TaskCancelled else TaskPanic)), w')"
  using assms
  by (auto simp: task_shutdown_def task_error_from_def is_panic_def is_cancelled_def join_error_from_def split: sum.splits)

theorem task_shutdown_outcome_witness:
  "task_shutdown (\<lambda>c w. w + 1) (\<lambda>j w. (Err (JoinCancelled :: unit join_error), w + j)) (task_handle_new () 3) 4
    = ((Err (ErrTask TaskCancelled), 8) :: unit zmq_result \<times> nat)"
  using task_shutdown_outcome [of "\<lambda>j w. (Err JoinCancelled :: unit join_error + unit zmq_result, w + j)"
      "task_handle_new () 3" "\<lambda>c w. w + 1" "4 :: nat" "Err \<lparr> rt_is_cancelled = True, rt_into_panic = () \<rparr>" 8]
  by (simp add: task_handle_new_def join_error_from_def)

end
