(* ===== verification/Environment.thy ===== *)
theory Environment
  imports Errors "HOL-Library.List_Lexorder"
begin

text \<open>
  What the socket backends use of other crates: bounded channels (\<open>futures::channel::mpsc\<close>), framed
  sinks (\<open>asynchronous_codec::FramedWrite\<close>), the spawning of tasks, the iteration order of concurrent
  hash maps. They are the fields of the record \<open>env\<close>, functions on a world \<open>'w\<close> that every operation of
  the model threads; channels, sinks and monitors are known by their number. \<open>env_ok\<close> states the
  documented behaviour that proofs rely on, in terms of two observations of the world: the messages a
  channel has accepted and the messages a sink has written.

  The containers themselves are represented by their contents: a hash map by a partial function, the
  \<open>SegQueue\<close> of the round robin and the \<open>ArrayQueue\<close> of the publisher by a list, oldest entry first.
\<close>

section \<open>Definitions\<close>

text \<open>\<open>Sender::try_send\<close>: accepted, or the message comes back from a full channel, or the receiver is
  gone.\<close>

datatype try_send_result = TrySent | TryFull message | TryClosed

record 'w env =
  channel :: "nat \<Rightarrow> 'w \<Rightarrow> nat \<times> 'w"
  try_send :: "nat \<Rightarrow> message \<Rightarrow> 'w \<Rightarrow> try_send_result \<times> 'w"
  send :: "nat \<Rightarrow> message \<Rightarrow> 'w \<Rightarrow> bool \<times> 'w"
  sink_send :: "nat \<Rightarrow> message \<Rightarrow> 'w \<Rightarrow> (codec_error + unit) \<times> 'w"
  emit :: "nat \<Rightarrow> socket_event \<Rightarrow> 'w \<Rightarrow> 'w"
  notify :: "nat \<Rightarrow> peer_identity \<Rightarrow> 'w \<Rightarrow> 'w"
  spawn_writer :: "peer_identity \<Rightarrow> nat \<Rightarrow> nat \<Rightarrow> 'w \<Rightarrow> 'w"
  keys_of :: "'w \<Rightarrow> peer_identity set \<Rightarrow> peer_identity list"

text \<open>A connection after the handshake: the reading half, of any type of stream, and the sink that is
  the writing half.\<close>

record 's framed_io =
  read_half :: 's
  write_half :: nat

text \<open>Reporting to the monitor, if one is attached; a failure to do so is ignored.\<close>

definition monitor_event :: "'w env \<Rightarrow> nat option \<Rightarrow> socket_event \<Rightarrow> 'w \<Rightarrow> 'w" where
  "monitor_event env monitor event w = (case monitor of None \<Rightarrow> w | Some h \<Rightarrow> emit env h event w)"

section \<open>Contract\<close>

definition env_ok ::
    "'w env \<Rightarrow> ('w \<Rightarrow> nat \<Rightarrow> message list) \<Rightarrow> ('w \<Rightarrow> nat \<Rightarrow> message list) \<Rightarrow> bool" where
  "env_ok env accepted written \<longleftrightarrow>
     (\<forall>h m w w'. try_send env h m w = (TrySent, w') \<longrightarrow> accepted w' = (accepted w)(h := accepted w h @ [m]))
     \<and> (\<forall>h m m' w w'. try_send env h m w = (TryFull m', w') \<longrightarrow> m' = m \<and> accepted w' = accepted w)
     \<and> (\<forall>h m w w'. try_send env h m w = (TryClosed, w') \<longrightarrow> accepted w' = accepted w)
     \<and> (\<forall>h m w w'. send env h m w = (True, w') \<longrightarrow> accepted w' = (accepted w)(h := accepted w h @ [m]))
     \<and> (\<forall>h m w w'. send env h m w = (False, w') \<longrightarrow> accepted w' = accepted w)
     \<and> (\<forall>h m u w w'. sink_send env h m w = (Ok u, w') \<longrightarrow> written w' = (written w)(h := written w h @ [m]))
     \<and> (\<forall>h m e w w'. sink_send env h m w = (Err e, w') \<longrightarrow> written w' = written w)
     \<and> (\<forall>h m w. accepted (snd (sink_send env h m w)) = accepted w)
     \<and> (\<forall>h m w. written (snd (try_send env h m w)) = written w)
     \<and> (\<forall>h m w. written (snd (send env h m w)) = written w)
     \<and> (\<forall>h e w. accepted (emit env h e w) = accepted w \<and> written (emit env h e w) = written w)
     \<and> (\<forall>h p w. accepted (notify env h p w) = accepted w \<and> written (notify env h p w) = written w)
     \<and> (\<forall>w K. finite K \<longrightarrow> distinct (keys_of env w K) \<and> set (keys_of env w K) = K)"

lemma env_try_send:
  assumes "env_ok env accepted written" and "try_send env h m w = (r, w')"
  shows "r = TrySent \<Longrightarrow> accepted w' = (accepted w)(h := accepted w h @ [m])"
    and "r \<noteq> TrySent \<Longrightarrow> accepted w' = accepted w"
    and "r = TryFull m' \<Longrightarrow> m' = m"
  using assms by (auto simp: env_ok_def) (cases r; metis)+

lemma env_send:
  assumes "env_ok env accepted written" and "send env h m w = (r, w')"
  shows "accepted w' = (if r then (accepted w)(h := accepted w h @ [m]) else accepted w)"
  using assms by (cases r) (simp_all add: env_ok_def)

lemma env_sink_send:
  assumes "env_ok env accepted written" and "sink_send env h m w = (r, w')"
  shows "written w' = (case r of Inr _ \<Rightarrow> (written w)(h := written w h @ [m]) | Inl _ \<Rightarrow> written w)"
  using assms by (cases r) (auto simp: env_ok_def)

lemma env_monitor_event:
  assumes "env_ok env accepted written"
  shows "accepted (monitor_event env mon e w) = accepted w"
    and "written (monitor_event env mon e w) = written w"
  using assms by (simp_all add: env_ok_def monitor_event_def split: option.splits)

lemma env_notify:
  assumes "env_ok env accepted written"
  shows "accepted (notify env h p w) = accepted w" and "written (notify env h p w) = written w"
  using assms by (simp_all add: env_ok_def)

lemma env_keys:
  assumes "env_ok env accepted written" and "finite K"
  shows "distinct (keys_of env w K)" and "set (keys_of env w K) = K"
    and "length (keys_of env w K) = card K"
proof -
  show *: "distinct (keys_of env w K)" "set (keys_of env w K) = K" using assms by (auto simp: env_ok_def)
  then show "length (keys_of env w K) = card K" by (metis distinct_card)
qed

section \<open>A concrete environment\<close>

text \<open>An environment that satisfies the contract, for evaluating the model on examples: the world is the
  pair of the accepted and the written messages and the number of channels made so far; the channels
  listed in \<open>closed\<close> have lost their receiver, the sinks listed in \<open>broken\<close> fail with a broken pipe.\<close>

definition sample_env :: "nat list \<Rightarrow> nat list
    \<Rightarrow> ((nat \<Rightarrow> message list) \<times> (nat \<Rightarrow> message list) \<times> nat) env" where
  "sample_env closed broken =
     \<lparr> channel = (\<lambda>cap (a, o', n). (n, (a, o', n + 1))),
       try_send = (\<lambda>h m (a, o', n).
         if h \<in> set closed then (TryClosed, (a, o', n)) else (TrySent, (a(h := a h @ [m]), o', n))),
       send = (\<lambda>h m (a, o', n).
         if h \<in> set closed then (False, (a, o', n)) else (True, (a(h := a h @ [m]), o', n))),
       sink_send = (\<lambda>h m (a, o', n).
         if h \<in> set broken then (Err (CodecIo BrokenPipe), (a, o', n))
         else (Ok (), (a, o'(h := o' h @ [m]), n))),
       emit = (\<lambda>h e w. w),
       notify = (\<lambda>h p w. w),
       spawn_writer = (\<lambda>p q h w. w),
       keys_of = (\<lambda>w K. sorted_list_of_set K) \<rparr>"

lemma sample_env_ok [simp]: "env_ok (sample_env closed broken) fst (\<lambda>w. fst (snd w))"
  by (auto simp: env_ok_def sample_env_def split: if_splits)

lemma sample_env_simps [simp]:
  "channel (sample_env closed broken) cap (a, o', n) = (n, (a, o', n + 1))"
  "try_send (sample_env closed broken) h m (a, o', n) =
     (if h \<in> set closed then (TryClosed, (a, o', n)) else (TrySent, (a(h := a h @ [m]), o', n)))"
  "send (sample_env closed broken) h m (a, o', n) =
     (if h \<in> set closed then (False, (a, o', n)) else (True, (a(h := a h @ [m]), o', n)))"
  "sink_send (sample_env closed broken) h m (a, o', n) =
     (if h \<in> set broken then (Err (CodecIo BrokenPipe), (a, o', n))
      else (Ok (), (a, o'(h := o' h @ [m]), n)))"
  "emit (sample_env closed broken) h e w = w"
  "notify (sample_env closed broken) h p w = w"
  "spawn_writer (sample_env closed broken) p q h w = w"
  "keys_of (sample_env closed broken) w K = sorted_list_of_set K"
  by (simp_all add: sample_env_def)

end
