(* ===== verification/Multi_Peer.thy ===== *)
theory Multi_Peer
  imports Environment
begin

text \<open>
  The traits \<open>SocketBackend\<close> and \<open>MultiPeerBackend\<close> of \<open>src/lib.rs\<close> as an interface: what every
  socket's backend promises about its set of peers, and what follows from that for any sequence of
  connections and disconnections. The backends interpret it in their own theories.
\<close>

datatype 'io peer_event = PeerConnected peer_identity 'io | PeerDisconnected peer_identity | Shutdown

text \<open>One event, handled by the three operations of a backend.\<close>

fun apply_event ::
    "(peer_identity \<Rightarrow> 'io \<Rightarrow> 'st \<Rightarrow> 'st) \<Rightarrow> (peer_identity \<Rightarrow> 'st \<Rightarrow> 'st) \<Rightarrow> ('st \<Rightarrow> 'st)
      \<Rightarrow> 'io peer_event \<Rightarrow> 'st \<Rightarrow> 'st" where
  "apply_event connected disconnected shutdown (PeerConnected p io) st = connected p io st"
| "apply_event connected disconnected shutdown (PeerDisconnected p) st = disconnected p st"
| "apply_event connected disconnected shutdown Shutdown st = shutdown st"

text \<open>The peers that a sequence of events leaves connected, when no connection fails to register.\<close>

fun connected_after :: "'io peer_event list \<Rightarrow> peer_identity set \<Rightarrow> peer_identity set" where
  "connected_after [] K = K"
| "connected_after (PeerConnected p io # es) K = connected_after es (insert p K)"
| "connected_after (PeerDisconnected p # es) K = connected_after es (K - {p})"
| "connected_after (Shutdown # es) K = connected_after es {}"

lemma connected_after_mono: "K \<subseteq> L \<Longrightarrow> connected_after es K \<subseteq> connected_after es L"
proof (induction es arbitrary: K L)
  case (Cons e es)
  then show ?case by (cases e) (auto intro: insert_mono Diff_mono)
qed simp

locale multi_peer_backend =
  fixes peer_connected :: "peer_identity \<Rightarrow> 'io \<Rightarrow> 'st \<Rightarrow> 'st"
    and peer_disconnected :: "peer_identity \<Rightarrow> 'st \<Rightarrow> 'st"
    and shutdown :: "'st \<Rightarrow> 'st"
    and peers_of :: "'st \<Rightarrow> peer_identity set"
    and invar :: "'st \<Rightarrow> bool"
  assumes connected_upper: "invar st \<Longrightarrow> peers_of (peer_connected p io st) \<subseteq> insert p (peers_of st)"
    and connected_lower: "invar st \<Longrightarrow> peers_of st \<subseteq> peers_of (peer_connected p io st)"
    and disconnected_peers: "invar st \<Longrightarrow> peers_of (peer_disconnected p st) = peers_of st - {p}"
    and shutdown_peers: "invar st \<Longrightarrow> peers_of (shutdown st) = {}"
    and connected_invar: "invar st \<Longrightarrow> invar (peer_connected p io st)"
    and disconnected_invar: "invar st \<Longrightarrow> invar (peer_disconnected p st)"
    and shutdown_invar: "invar st \<Longrightarrow> invar (shutdown st)"
begin

abbreviation step :: "'io peer_event \<Rightarrow> 'st \<Rightarrow> 'st" where
  "step \<equiv> apply_event peer_connected peer_disconnected shutdown"

lemma step_invar: "invar st \<Longrightarrow> invar (step e st)"
  by (cases e) (simp_all add: connected_invar disconnected_invar shutdown_invar)

lemma run_invar: "invar st \<Longrightarrow> invar (fold step es st)"
  by (induction es arbitrary: st) (simp_all add: step_invar)

lemma run_peers: "invar st \<Longrightarrow> peers_of (fold step es st) \<subseteq> connected_after es (peers_of st)"
proof (induction es arbitrary: st)
  case (Cons e es)
  have "peers_of (fold step es (step e st)) \<subseteq> connected_after es (peers_of (step e st))"
    using Cons step_invar by blast
  also have "\<dots> \<subseteq> connected_after (e # es) (peers_of st)"
    using Cons.prems connected_upper
    by (cases e) (simp_all add: disconnected_peers shutdown_peers connected_after_mono)
  finally show ?case by simp
qed simp

lemma disconnect_twice:
  "invar st \<Longrightarrow> peers_of (peer_disconnected p (peer_disconnected p st)) = peers_of (peer_disconnected p st)"
  by (simp add: disconnected_peers disconnected_invar)

lemma disconnect_after_connect:
  assumes "invar st" and "p \<notin> peers_of st"
  shows "peers_of (peer_disconnected p (peer_connected p io st)) = peers_of st"
  using connected_upper [OF assms(1), of p io] connected_lower [OF assms(1), of p io] assms
  by (auto simp: disconnected_peers connected_invar)

end

text \<open>A backend that registers every connection.\<close>

locale reliable_backend = multi_peer_backend +
  assumes connected_peers: "invar st \<Longrightarrow> peers_of (peer_connected p io st) = insert p (peers_of st)"
begin

lemma run_peers_exact: "invar st \<Longrightarrow> peers_of (fold step es st) = connected_after es (peers_of st)"
proof (induction es arbitrary: st)
  case (Cons e es)
  then have "peers_of (fold step es (step e st)) = connected_after es (peers_of (step e st))"
    using step_invar by blast
  with Cons.prems show ?case
    by (cases e) (simp_all add: connected_peers disconnected_peers shutdown_peers)
qed simp

end

end
