(* ===== verification/Fair_Queue.thy ===== *)
theory Fair_Queue
  imports Prelude
begin

text \<open>
  \<open>src/fair_queue.rs\<close>: the queue that merges the message streams of all peers of a socket.

  Streams that may have something to deliver are entered, once each, in a binary heap of ready
  events ordered by the value of a counter at the time of entry; \<open>poll_next\<close> takes events out of
  the heap, polls their streams, and puts a stream that delivered back at the end.

  The streams are any type \<open>'s\<close> with a polling function \<open>poll_stream\<close>, whose boolean says
  whether the stream invoked the waker it was given. The callback of \<open>set_on_disconnect\<close> may change
  the queue and state outside of it (the backend): it is a function on the pair of the two.
  A waker is the number of the task that it wakes; \<open>woken\<close> lists the tasks woken so far.
\<close>

section \<open>The ready heap\<close>

record 'k ready_event =
  priority :: nat
  event_key :: 'k

text \<open>\<open>Ord for ReadyEvent\<close>: the comparison is reversed, so that the maximum of the heap is the event
  of least priority.\<close>

definition event_le :: "'k ready_event \<Rightarrow> 'k ready_event \<Rightarrow> bool" where
  "event_le a b \<longleftrightarrow> priority b \<le> priority a"

text \<open>\<open>std::collections::BinaryHeap\<close>: a bag of events whose \<open>pop\<close> removes a greatest one.\<close>

fun greatest :: "'k ready_event \<Rightarrow> 'k ready_event list \<Rightarrow> 'k ready_event" where
  "greatest e [] = e"
| "greatest e (x # xs) = greatest (if event_le e x then x else e) xs"

definition heap_push :: "'k ready_event \<Rightarrow> 'k ready_event list \<Rightarrow> 'k ready_event list" where
  "heap_push e h = e # h"

definition heap_pop :: "'k ready_event list \<Rightarrow> ('k ready_event \<times> 'k ready_event list) option" where
  "heap_pop h = (case h of
     [] \<Rightarrow> None
   | x # xs \<Rightarrow> (let m = greatest x xs in Some (m, remove1 m h)))"

section \<open>Queue state and operations\<close>

record ('s, 'k) queue_inner =
  counter :: nat
  ready_queue :: "'k ready_event list"
  queued :: "'k set"
  streams :: "'k \<rightharpoonup> 's"
  waker :: "nat option"
  woken :: "nat list"

definition queue_new :: "('s, 'k) queue_inner" where
  "queue_new = \<lparr> counter = 0, ready_queue = [], queued = {}, streams = Map.empty, waker = None,
     woken = [] \<rparr>"

text \<open>\<open>fetch_add\<close> on an \<open>AtomicUsize\<close> wraps around.\<close>

definition push_ready :: "'k \<Rightarrow> ('s, 'k) queue_inner \<Rightarrow> ('s, 'k) queue_inner" where
  "push_ready k q =
     (if k \<in> queued q then q
      else q \<lparr> queued := insert k (queued q),
             ready_queue := heap_push \<lparr> priority = counter q, event_key = k \<rparr> (ready_queue q),
             counter := (counter q + 1) mod 2 ^ 64 \<rparr>)"

definition queue_insert :: "'k \<Rightarrow> 's \<Rightarrow> ('s, 'k) queue_inner \<Rightarrow> ('s, 'k) queue_inner" where
  "queue_insert k s q =
     (let q' = push_ready k (q \<lparr> streams := (streams q)(k \<mapsto> s) \<rparr>)
      in case waker q' of None \<Rightarrow> q' | Some w \<Rightarrow> q' \<lparr> woken := woken q' @ [w] \<rparr>)"

definition queue_remove :: "'k \<Rightarrow> ('s, 'k) queue_inner \<Rightarrow> ('s, 'k) queue_inner" where
  "queue_remove k q = q \<lparr> streams := (streams q)(k := None), queued := queued q - {k} \<rparr>"

definition queue_clear :: "('s, 'k) queue_inner \<Rightarrow> ('s, 'k) queue_inner" where
  "queue_clear q =
     (let q' = q \<lparr> streams := Map.empty, ready_queue := [], queued := {} \<rparr>
      in case waker q' of
           None \<Rightarrow> q'
         | Some w \<Rightarrow> q' \<lparr> waker := None, woken := woken q' @ [w] \<rparr>)"

text \<open>\<open>StreamWaker::wake_by_ref\<close> for the stream of key \<open>k\<close>.\<close>

definition stream_wake :: "'k \<Rightarrow> ('s, 'k) queue_inner \<Rightarrow> ('s, 'k) queue_inner" where
  "stream_wake k q =
     (let q' = push_ready k q
      in case waker q' of
           None \<Rightarrow> q'
         | Some w \<Rightarrow> q' \<lparr> waker := None, woken := woken q' @ [w] \<rparr>)"

text \<open>The first half of a turn of \<open>poll_next\<close>: take the next event out of the heap and forget that its
  key is queued.\<close>

definition pop_ready :: "('s, 'k) queue_inner \<Rightarrow> ('k \<times> ('s, 'k) queue_inner) option" where
  "pop_ready q = (case heap_pop (ready_queue q) of
     None \<Rightarrow> None
   | Some (event, rest) \<Rightarrow>
       Some (event_key event, q \<lparr> ready_queue := rest, queued := queued q - {event_key event} \<rparr>))"

type_synonym ('s, 't) poll_stream = "'s \<Rightarrow> 't option poll \<times> 's \<times> bool"
type_synonym ('b, 's, 'k) on_disconnect =
  "('k \<Rightarrow> 'b \<times> ('s, 'k) queue_inner \<Rightarrow> 'b \<times> ('s, 'k) queue_inner) option"

text \<open>The result of a poll that found nothing.\<close>

definition idle_result :: "bool \<Rightarrow> ('s, 'k) queue_inner \<Rightarrow> ('k \<times> 't) option poll" where
  "idle_result block_on_no_clients q =
     (if streams q \<noteq> Map.empty \<or> block_on_no_clients then Pending else Ready None)"

text \<open>Polling the stream of \<open>k\<close> with a \<open>StreamWaker\<close> for \<open>k\<close>: the stream is out of the map
  meanwhile.\<close>

definition poll_detached ::
    "('s, 't) poll_stream \<Rightarrow> 'k \<Rightarrow> 's \<Rightarrow> ('s, 'k) queue_inner
      \<Rightarrow> 't option poll \<times> 's \<times> ('s, 'k) queue_inner" where
  "poll_detached poll_stream k s q =
     (let q3 = q \<lparr> streams := (streams q)(k := None) \<rparr>
      in case poll_stream s of (r, s', wakes) \<Rightarrow> (r, s', if wakes then stream_wake k q3 else q3))"

definition reattach :: "'k \<Rightarrow> 's \<Rightarrow> ('s, 'k) queue_inner \<Rightarrow> ('s, 'k) queue_inner" where
  "reattach k s q = q \<lparr> streams := (streams q)(k \<mapsto> s) \<rparr>"

text \<open>The \<open>while remaining_ready > 0\<close> loop and what follows it. \<open>cx\<close> is the task being polled.\<close>

fun poll_loop ::
    "nat \<Rightarrow> bool \<Rightarrow> ('s, 't) poll_stream \<Rightarrow> ('b, 's, 'k) on_disconnect \<Rightarrow> nat
      \<Rightarrow> 'b \<Rightarrow> ('s, 'k) queue_inner \<Rightarrow> ('k \<times> 't) option poll \<times> 'b \<times> ('s, 'k) queue_inner" where
  "poll_loop 0 block poll_stream cb cx b q =
     (let q1 = q \<lparr> waker := Some cx \<rparr>
      in (idle_result block q1, b,
          if ready_queue q1 \<noteq> [] then q1 \<lparr> woken := woken q1 @ [cx] \<rparr> else q1))"
| "poll_loop (Suc remaining_ready) block poll_stream cb cx b q =
     (let q1 = q \<lparr> waker := Some cx \<rparr>
      in case pop_ready q1 of
           None \<Rightarrow> (idle_result block q1, b, q1)
         | Some (k, q2) \<Rightarrow>
             (case streams q2 k of
                  None \<Rightarrow> poll_loop remaining_ready block poll_stream cb cx b q2
                | Some s \<Rightarrow>
                    (case poll_detached poll_stream k s q2 of
                       (Ready (Some x), s', q4) \<Rightarrow>
                         (Ready (Some (k, x)), b, push_ready k (reattach k s' q4))
                     | (Ready None, s', q4) \<Rightarrow>
                         (case (case cb of None \<Rightarrow> (b, q4) | Some f \<Rightarrow> f k (b, q4)) of
                            (b', q5) \<Rightarrow> poll_loop remaining_ready block poll_stream cb cx b' q5)
                     | (Pending, s', q4) \<Rightarrow>
                         poll_loop remaining_ready block poll_stream cb cx b (reattach k s' q4))))"

definition queue_poll_next ::
    "bool \<Rightarrow> ('s, 't) poll_stream \<Rightarrow> ('b, 's, 'k) on_disconnect \<Rightarrow> nat
      \<Rightarrow> 'b \<Rightarrow> ('s, 'k) queue_inner \<Rightarrow> ('k \<times> 't) option poll \<times> 'b \<times> ('s, 'k) queue_inner" where
  "queue_poll_next block poll_stream cb cx b q =
     (let q0 = q \<lparr> waker := Some cx \<rparr>
      in poll_loop (length (ready_queue q0)) block poll_stream cb cx b q0)"

section \<open>First-in-first-out queues\<close>

text \<open>What the polling loop needs of the ready events: a queue of keys in order of entry.
  \<open>fresh q k\<close> says that \<open>k\<close> may be entered.\<close>

locale fifo_queue =
  fixes push :: "'k \<Rightarrow> 'q \<Rightarrow> 'q"
    and pop :: "'q \<Rightarrow> ('k \<times> 'q) option"
    and pending_keys :: "'q \<Rightarrow> 'k list"
    and invar :: "'q \<Rightarrow> bool"
    and fresh :: "'q \<Rightarrow> 'k \<Rightarrow> bool"
  assumes pop_Nil: "invar q \<Longrightarrow> pending_keys q = [] \<Longrightarrow> pop q = None"
    and pop_Cons: "invar q \<Longrightarrow> pending_keys q = k # ks
      \<Longrightarrow> \<exists>q'. pop q = Some (k, q') \<and> pending_keys q' = ks \<and> invar q'"
    and push_snoc: "invar q \<Longrightarrow> fresh q k
      \<Longrightarrow> pending_keys (push k q) = pending_keys q @ [k] \<and> invar (push k q)"
begin

lemma pop_None_iff: "invar q \<Longrightarrow> pop q = None \<longleftrightarrow> pending_keys q = []"
  using pop_Nil pop_Cons by (cases "pending_keys q") fastforce+

lemma pop_SomeD:
  assumes "invar q" and "pop q = Some (k, q')"
  shows "pending_keys q = k # pending_keys q'" and "invar q'"
proof -
  have "pending_keys q \<noteq> []" using assms pop_None_iff [OF assms(1)] by auto
  then obtain l ls where ls: "pending_keys q = l # ls" by (cases "pending_keys q") auto
  from pop_Cons [OF assms(1) this] assms(2) have "l = k \<and> pending_keys q' = ls \<and> invar q'" by auto
  with ls show "pending_keys q = k # pending_keys q'" "invar q'" by auto
qed

text \<open>A key that is taken out and entered again goes behind every key that waited with it.\<close>

lemma requeue_last:
  assumes "invar q" and "pop q = Some (k, q')" and "fresh q' k"
  shows "pending_keys (push k q') = rotate1 (pending_keys q)"
  using pop_SomeD [OF assms(1,2)] push_snoc [OF _ assms(3)] by simp

end

section \<open>The heap is a first-in-first-out queue\<close>

definition ready_wf :: "('s, 'k) queue_inner \<Rightarrow> bool" where
  "ready_wf q \<longleftrightarrow> distinct (map priority (ready_queue q))
     \<and> (\<forall>e \<in> set (ready_queue q). priority e < counter q)
     \<and> queued q \<subseteq> event_key ` set (ready_queue q) \<and> counter q < 2 ^ 64"

definition ready_keys :: "('s, 'k) queue_inner \<Rightarrow> 'k list" where
  "ready_keys q = map event_key (sort_key priority (ready_queue q))"

lemmas queue_eval_rules [queue_eval] =
  queue_insert_def push_ready_def queue_new_def ready_keys_def ready_wf_def heap_push_def Let_def

definition may_push :: "('s, 'k) queue_inner \<Rightarrow> 'k \<Rightarrow> bool" where
  "may_push q k \<longleftrightarrow> k \<notin> queued q \<and> counter q + 1 < 2 ^ 64"

lemma greatest_in: "greatest e xs \<in> set (e # xs)"
proof (induction xs arbitrary: e)
  case (Cons y ys)
  then show ?case using Cons.IH [of "if event_le e y then y else e"] by (auto split: if_splits)
qed simp

lemma greatest_least: "\<forall>x \<in> set (e # xs). priority (greatest e xs) \<le> priority x"
proof (induction xs arbitrary: e)
  case (Cons y ys)
  let ?m = "if event_le e y then y else e"
  show ?case using Cons.IH [of ?m]
    by (auto simp: event_le_def split: if_splits)
qed simp

lemma heap_pop_eq_None [simp]: "heap_pop h = None \<longleftrightarrow> h = []"
  by (cases h) (auto simp: heap_pop_def Let_def)

lemma heap_pop_Some:
  assumes "heap_pop h = Some (m, rest)"
  shows "m \<in> set h" "rest = remove1 m h" "\<forall>x \<in> set h. priority m \<le> priority x"
  using assms greatest_in greatest_least
  by (cases h; force simp: heap_pop_def Let_def simp del: remove1.simps)+

lemma sort_key_unique:
  assumes "distinct (map priority xs)" and "sorted (map priority ys)" and "distinct (map priority ys)"
    and "set ys = set xs"
  shows "sort_key priority xs = ys"
proof (rule map_sorted_distinct_set_unique [where f = priority])
  show "inj_on priority (set (sort_key priority xs) \<union> set ys)"
    using assms(1,4) by (simp add: distinct_map)
  show "distinct (map priority (sort_key priority xs))"
    using assms(1) by (simp add: distinct_map)
qed (use assms in auto)

lemma sort_key_pop:
  assumes "heap_pop h = Some (m, rest)" and "distinct (map priority h)"
  shows "sort_key priority h = m # sort_key priority rest"
proof (rule sort_key_unique [OF assms(2)])
  note m = heap_pop_Some [OF assms(1)]
  have d: "distinct h" using assms(2) by (simp add: distinct_map)
  then have rest: "set rest = set h - {m}" using m(2) by simp
  show "sorted (map priority (m # sort_key priority rest))"
    using m(3) rest by auto
  show "distinct (map priority (m # sort_key priority rest))"
    using assms(2) d m rest by (auto simp: distinct_map inj_on_def)
  show "set (m # sort_key priority rest) = set h" using m(1) rest by auto
qed

lemma sort_key_push:
  assumes "\<forall>x \<in> set h. priority x < priority e" and "distinct (map priority h)"
  shows "sort_key priority (heap_push e h) = sort_key priority h @ [e]"
  unfolding heap_push_def
  by (rule sort_key_unique)
    (use assms in \<open>auto simp: sorted_append distinct_map inj_on_def less_imp_le\<close>)

lemma ready_keys_Nil [simp]: "ready_keys q = [] \<longleftrightarrow> ready_queue q = []"
  by (auto simp: ready_keys_def dest: arg_cong [where f = length])

lemma length_ready_keys [simp]: "length (ready_keys q) = length (ready_queue q)"
  by (simp add: ready_keys_def)

lemma set_ready_keys: "set (ready_keys q) = event_key ` set (ready_queue q)"
  by (simp add: ready_keys_def)

interpretation ready: fifo_queue push_ready pop_ready ready_keys ready_wf may_push
proof
  fix q :: "('s, 'k) queue_inner" and k ks
  assume wf: "ready_wf q" and ks: "ready_keys q = k # ks"
  then obtain m rest where pop: "heap_pop (ready_queue q) = Some (m, rest)"
    by (metis heap_pop_eq_None list.distinct(1) ready_keys_Nil not_None_eq prod.exhaust)
  note sk = sort_key_pop [OF pop] and m = heap_pop_Some [OF pop]
  from wf have d: "distinct (ready_queue q)" by (auto simp: ready_wf_def distinct_map)
  with m have "set rest = set (ready_queue q) - {m}" by simp
  moreover from m have "distinct (map priority rest)"
    using wf by (auto simp: ready_wf_def distinct_map dest: inj_on_subset [OF _ set_remove1_subset])
  ultimately show "\<exists>q'. pop_ready q = Some (k, q') \<and> ready_keys q' = ks \<and> ready_wf q'"
    using wf ks sk pop by (auto simp: pop_ready_def ready_keys_def ready_wf_def)
next
  fix q :: "('s, 'k) queue_inner" and k
  assume wf: "ready_wf q" and fresh: "may_push q k"
  let ?e = "\<lparr> priority = counter q, event_key = k \<rparr>"
  have "sort_key priority (heap_push ?e (ready_queue q)) = sort_key priority (ready_queue q) @ [?e]"
    using wf by (intro sort_key_push) (auto simp: ready_wf_def)
  then show "ready_keys (push_ready k q) = ready_keys q @ [k] \<and> ready_wf (push_ready k q)"
    using wf fresh by (force simp: push_ready_def may_push_def ready_keys_def ready_wf_def heap_push_def)
qed (simp add: pop_ready_def heap_pop_def)

section \<open>Lemmas on the operations\<close>

lemma record_projections [simp]:
  "ready_keys (q \<lparr> waker := w \<rparr>) = ready_keys q" "ready_wf (q \<lparr> waker := w \<rparr>) = ready_wf q"
  "ready_keys (q \<lparr> woken := v \<rparr>) = ready_keys q" "ready_wf (q \<lparr> woken := v \<rparr>) = ready_wf q"
  "ready_keys (q \<lparr> streams := m \<rparr>) = ready_keys q" "ready_wf (q \<lparr> streams := m \<rparr>) = ready_wf q"
  by (simp_all add: ready_keys_def ready_wf_def)

lemma queue_new_wf [simp]: "ready_wf queue_new"
  by (simp add: queue_new_def ready_wf_def)

lemma push_ready_fields [simp]:
  "streams (push_ready k q) = streams q" "waker (push_ready k q) = waker q"
  "woken (push_ready k q) = woken q" "queued (push_ready k q) = insert k (queued q)"
  by (auto simp: push_ready_def)

text \<open>Entering a key, whether or not it is queued already.\<close>

lemma push_ready_keys:
  assumes "ready_wf q" and "counter q + 1 < 2 ^ 64"
  shows "ready_keys (push_ready k q) = (if k \<in> queued q then ready_keys q else ready_keys q @ [k])"
    and "ready_wf (push_ready k q)" and "counter (push_ready k q) \<le> counter q + 1"
  using assms ready.push_snoc [of q k] by (auto simp: may_push_def push_ready_def)

lemma queue_insert_wf:
  assumes "ready_wf q" and "counter q + 1 < 2 ^ 64"
  shows "ready_wf (queue_insert k s q)"
    and "k \<in> set (ready_keys (queue_insert k s q))"
    and "streams (queue_insert k s q) = (streams q)(k \<mapsto> s)"
  using assms push_ready_keys [of "q \<lparr> streams := (streams q)(k \<mapsto> s) \<rparr>" k]
  by (auto simp: queue_insert_def Let_def set_ready_keys ready_wf_def split: option.splits)

lemma queue_insert_waiting:
  assumes "ready_wf q" and "counter q + 1 < 2 ^ 64" and "k \<notin> queued q"
  shows "ready_wf (queue_insert k s q)" and "ready_keys (queue_insert k s q) = ready_keys q @ [k]"
    and "counter (queue_insert k s q) = counter q + 1" and "queued (queue_insert k s q) = insert k (queued q)"
  using assms push_ready_keys [of "q \<lparr> streams := (streams q)(k \<mapsto> s) \<rparr>" k]
  by (auto simp: queue_insert_def Let_def push_ready_def split: option.splits)

lemma queue_remove_keys [simp]:
  "ready_keys (queue_remove k q) = ready_keys q" "counter (queue_remove k q) = counter q"
  "streams (queue_remove k q) = (streams q)(k := None)" "waker (queue_remove k q) = waker q"
  "woken (queue_remove k q) = woken q"
  by (simp_all add: queue_remove_def ready_keys_def)

lemma queue_remove_twice [simp]: "queue_remove k (queue_remove k q) = queue_remove k q"
  by (simp add: queue_remove_def)

lemma queue_insert_streams [simp]: "streams (queue_insert k s q) = (streams q)(k \<mapsto> s)"
  by (simp add: queue_insert_def Let_def split: option.splits)

lemma queue_remove_wf [simp]: "ready_wf q \<Longrightarrow> ready_wf (queue_remove k q)"
  by (auto simp: queue_remove_def ready_wf_def)

lemma queue_clear_fields [simp]:
  "streams (queue_clear q) = Map.empty" "ready_queue (queue_clear q) = []"
  "queued (queue_clear q) = {}" "counter (queue_clear q) = counter q"
  by (simp_all add: queue_clear_def Let_def split: option.splits)

lemma queue_clear_wf [simp]: "ready_wf q \<Longrightarrow> ready_wf (queue_clear q)"
  by (simp add: ready_wf_def)

lemma stream_wake_fields [simp]:
  "streams (stream_wake k q) = streams q" "queued (stream_wake k q) = insert k (queued q)"
  "ready_keys (stream_wake k q) = ready_keys (push_ready k q)"
  "ready_wf (stream_wake k q) = ready_wf (push_ready k q)"
  "counter (stream_wake k q) = counter (push_ready k q)"
  by (simp_all add: stream_wake_def Let_def split: option.splits)

lemma pop_ready_fields:
  assumes "pop_ready q = Some (k, q')"
  shows "streams q' = streams q" "counter q' = counter q" "waker q' = waker q" "k \<notin> queued q'"
    "woken q' = woken q"
  using assms by (auto simp: pop_ready_def split: option.splits)

section \<open>What a poll does to the waiting keys\<close>

text \<open>The callback of the socket types: it does nothing to the queue, or removes the stream that
  ended.\<close>

definition tame :: "('b, 's, 'k) on_disconnect \<Rightarrow> bool" where
  "tame cb \<longleftrightarrow> (\<forall>f k b q. cb = Some f \<longrightarrow> snd (f k (b, q)) \<in> {q, queue_remove k q})"

text \<open>\<open>consumed n\<close>: a poll with result \<open>r\<close> took the first \<open>d \<le> n\<close> waiting keys off the queue and
  touched no stream but theirs; later arrivals are behind the keys that still wait. A delivered item
  comes from the last of the \<open>d\<close> keys.\<close>

definition consumed ::
    "nat \<Rightarrow> ('s, 't) poll_stream \<Rightarrow> ('k \<times> 't) option poll
      \<Rightarrow> ('s, 'k) queue_inner \<Rightarrow> ('s, 'k) queue_inner \<Rightarrow> bool" where
  "consumed n poll_stream r q q' \<longleftrightarrow>
     (\<exists>d later. d \<le> n \<and> ready_keys q' = drop d (ready_keys q) @ later
        \<and> set later \<subseteq> set (take d (ready_keys q))
        \<and> (\<forall>k. k \<notin> set (take d (ready_keys q)) \<longrightarrow> streams q' k = streams q k)
        \<and> (case r of
             Ready (Some (k, x)) \<Rightarrow> 0 < d \<and> ready_keys q ! (d - 1) = k \<and> k \<in> queued q'
               \<and> (\<exists>s s' w. poll_stream s = (Ready (Some x), s', w) \<and> streams q' k = Some s')
           | _ \<Rightarrow> d = n))"

lemma consumed_Suc:
  assumes "consumed n poll_stream r q1 q'"
    and "ready_keys q = k # ks" and "ready_keys q1 = ks @ new" and "set new \<subseteq> {k}"
    and "n \<le> length ks" and "\<forall>l. l \<noteq> k \<longrightarrow> streams q1 l = streams q l"
  shows "consumed (Suc n) poll_stream r q q'"
proof -
  from assms(1) obtain d later where d: "d \<le> n" "ready_keys q' = drop d (ks @ new) @ later"
      "set later \<subseteq> set (take d (ks @ new))"
      "\<forall>l. l \<notin> set (take d (ks @ new)) \<longrightarrow> streams q' l = streams q1 l"
      and r: "case r of
             Ready (Some (k, x)) \<Rightarrow> 0 < d \<and> (ks @ new) ! (d - 1) = k \<and> k \<in> queued q'
               \<and> (\<exists>s s' w. poll_stream s = (Ready (Some x), s', w) \<and> streams q' k = Some s')
           | _ \<Rightarrow> d = n"
    unfolding consumed_def assms(3) by blast
  have "d \<le> length ks" using d(1) assms(5) by simp
  then show ?thesis
    unfolding consumed_def assms(2)
    using d r assms(4,6)
    by (intro exI [of _ "Suc d"] exI [of _ "new @ later"])
      (auto simp: nth_append split: poll.splits option.splits)
qed

lemma reattach_fields [simp]:
  "ready_keys (reattach k s q) = ready_keys q" "ready_wf (reattach k s q) = ready_wf q"
  "streams (reattach k s q) = (streams q)(k \<mapsto> s)" "counter (reattach k s q) = counter q"
  "queued (reattach k s q) = queued q" "waker (reattach k s q) = waker q"
  by (simp_all add: reattach_def)

lemma poll_detached_keys:
  assumes "poll_detached poll_stream k s q = (p, s', q')"
    and "ready_wf q" and "counter q + 1 < 2 ^ 64" and "k \<notin> queued q"
  shows "ready_keys q' = (if k \<in> queued q' then ready_keys q @ [k] else ready_keys q)"
    and "ready_wf q'" and "streams q' = (streams q)(k := None)"
    and "counter q' \<le> counter q + 1" and "k \<notin> queued q' \<Longrightarrow> counter q' = counter q"
    and "\<exists>w. poll_stream s = (p, s', w)"
  using assms push_ready_keys [of "q \<lparr> streams := (streams q)(k := None) \<rparr>" k]
  by (auto simp: poll_detached_def Let_def split: prod.splits if_splits)

text \<open>A stream that delivered is back in the map and last in the queue.\<close>

lemma deliver_consumes:
  assumes "poll_detached poll_stream k s q2 = (Ready (Some x), s', q4)"
    and "ready_keys q = k # ks" and "ready_keys q2 = ks" and "ready_wf q2" and "k \<notin> queued q2"
    and "streams q2 = streams q" and "counter q2 + 1 < 2 ^ 64"
  defines "q' \<equiv> push_ready k (reattach k s' q4)"
  shows "consumed (Suc n) poll_stream (Ready (Some (k, x))) q q'" and "ready_wf q'"
    and "counter q' \<le> counter q2 + 1" and "ready_keys q' = ks @ [k]"
proof -
  note d = poll_detached_keys [OF assms(1,4,7,5)]
  have *: "ready_keys q' = ks @ [k] \<and> ready_wf q' \<and> counter q' \<le> counter q2 + 1"
    using d assms(3,7) push_ready_keys [of "reattach k s' q4" k]
    by (cases "k \<in> queued q4") (auto simp: q'_def push_ready_def)
  then show "ready_wf q'" "counter q' \<le> counter q2 + 1" "ready_keys q' = ks @ [k]" by auto
  show "consumed (Suc n) poll_stream (Ready (Some (k, x))) q q'"
    unfolding consumed_def assms(2) using d * assms(6)
    by (intro exI [of _ 1] exI [of _ "[k]"]) (auto simp: q'_def)
qed

lemma poll_loop_consumes:
  assumes "poll_loop n block poll_stream cb cx b q = (r, b', q')"
    and "ready_wf q" and "n \<le> length (ready_queue q)" and "counter q + n < 2 ^ 64" and "tame cb"
  shows "consumed n poll_stream r q q' \<and> ready_wf q' \<and> counter q' \<le> counter q + n"
  using assms(1-4)
proof (induction n arbitrary: b q)
  case 0
  then show ?case by (auto simp: consumed_def idle_result_def Let_def split: if_splits)
next
  case (Suc n)
  obtain k ks where ks: "ready_keys q = k # ks"
    using Suc.prems(3) by (metis length_ready_keys Suc_le_length_iff)
  with Suc.prems(2) obtain q2 where
    q2: "pop_ready (q \<lparr> waker := Some cx \<rparr>) = Some (k, q2)" "ready_keys q2 = ks" "ready_wf q2"
    using ready.pop_Cons [of "q \<lparr> waker := Some cx \<rparr>" k ks] by auto
  note f2 = pop_ready_fields [OF q2(1)]
  have len: "n \<le> length ks" using Suc.prems(3) ks by (metis Suc_le_mono length_Cons length_ready_keys)
  have cont: ?case
    if run: "poll_loop n block poll_stream cb cx b1 q1 = (r, b', q')"
      and "ready_keys q1 = ks @ new" "set new \<subseteq> {k}" "ready_wf q1" "counter q1 \<le> counter q + 1"
        "\<forall>l. l \<noteq> k \<longrightarrow> streams q1 l = streams q l" for b1 q1 new
  proof -
    have "n \<le> length (ready_queue q1)" using that(2) len by (metis length_append length_ready_keys trans_le_add1)
    with Suc.IH [OF run] that Suc.prems(4)
    have "consumed n poll_stream r q1 q'" "ready_wf q'" "counter q' \<le> counter q1 + n" by auto
    with consumed_Suc [OF _ ks that(2,3) len that(6)] that(5) show ?thesis by auto
  qed
  show ?case
  proof (cases "streams q k")
    case None
    with Suc.prems(1) q2 f2 show ?thesis by (intro cont [of b q2 "[]"]) auto
  next
    case (Some s)
    obtain p s' q4 where p: "poll_detached poll_stream k s q2 = (p, s', q4)"
      by (cases "poll_detached poll_stream k s q2")
    have c2: "counter q2 + 1 < 2 ^ 64" using Suc.prems(4) f2 by simp
    note d = poll_detached_keys [OF p q2(3) c2 f2(4)]
    define new where "new = (if k \<in> queued q4 then [k] else [])"
    have new: "ready_keys q4 = ks @ new" "set new \<subseteq> {k}" using d(1) q2(2) by (auto simp: new_def)
    show ?thesis
    proof (cases p)
      case Pending
      with Suc.prems(1) Some p q2 f2 d new show ?thesis
        by (intro cont [of b "reattach k s' q4" new]) auto
    next
      case (Ready item)
      show ?thesis
      proof (cases item)
        case None
        obtain b5 q5 where q5: "(case cb of None \<Rightarrow> (b, q4) | Some f \<Rightarrow> f k (b, q4)) = (b5, q5)"
          by fastforce
        then have "q5 = q4 \<or> q5 = queue_remove k q4"
          using assms(5) by (cases cb) (auto simp: tame_def, metis insertE singletonD snd_conv)
        then have "ready_keys q5 = ready_keys q4" "ready_wf q5" "counter q5 = counter q4"
          "\<forall>l. l \<noteq> k \<longrightarrow> streams q5 l = streams q l"
          using d f2 by auto
        moreover have "poll_loop n block poll_stream cb cx b5 q5 = (r, b', q')"
          using Suc.prems(1) Some Ready None p q2(1) f2(1) q5 by simp
        ultimately show ?thesis using new d(4) f2(2) by (intro cont [of b5 q5 new]) auto
      next
        case (Some x)
        from p Ready Some have p': "poll_detached poll_stream k s q2 = (Ready (Some x), s', q4)" by simp
        note dl = deliver_consumes [OF p' ks q2(2,3) f2(4) _ c2]
        have "r = Ready (Some (k, x))" "q' = push_ready k (reattach k s' q4)"
          using Suc.prems(1) \<open>streams q k = Some s\<close> q2 f2 p' by auto
        with dl f2 show ?thesis by simp
      qed
    qed
  qed
qed

lemma queue_poll_next_consumes:
  assumes "queue_poll_next block poll_stream cb cx b q = (r, b', q')"
    and "ready_wf q" and "counter q + length (ready_queue q) < 2 ^ 64" and "tame cb"
  shows "consumed (length (ready_queue q)) poll_stream r q q' \<and> ready_wf q'"
proof -
  have "consumed (length (ready_queue q)) poll_stream r (q \<lparr> waker := Some cx \<rparr>) q' \<and> ready_wf q'"
    using poll_loop_consumes [of "length (ready_queue q)" block poll_stream cb cx b "q \<lparr> waker := Some cx \<rparr>"]
      assms by (simp add: queue_poll_next_def Let_def)
  then show ?thesis by (simp add: consumed_def cong: poll.case_cong option.case_cong)
qed

section \<open>Wake-ups\<close>

text \<open>A poll that found nothing leaves its task registered, and wakes it at once if events are left in
  the heap.\<close>

lemma poll_loop_idle:
  assumes "poll_loop n block poll_stream cb cx b q = (r, b', q')" and "\<nexists>i. r = Ready (Some i)"
  shows "waker q' = Some cx \<and> (ready_queue q' \<noteq> [] \<longrightarrow> last (woken q') = cx \<and> woken q' \<noteq> [])
    \<and> r = idle_result block q'"
  using assms
proof (induction n arbitrary: b q)
  case 0
  then show ?case by (auto simp: Let_def idle_result_def split: if_splits)
next
  case (Suc n)
  show ?case
  proof (cases "pop_ready (q \<lparr> waker := Some cx \<rparr>)")
    case None
    with Suc.prems show ?thesis
      by (auto simp: pop_ready_def idle_result_def Let_def split: option.splits)
  next
    case (Some kq)
    with Suc.prems Suc.IH show ?thesis
      by (auto simp: Let_def split: prod.splits option.splits poll.splits)
  qed
qed

section \<open>Streams and their owners\<close>

text \<open>The ways a turn of the loop can go.\<close>

lemma poll_loop_Suc_cases:
  assumes "poll_loop (Suc n) block poll_stream cb cx b q = (r, b', q')"
  obtains (idle) "b' = b" "streams q' = streams q" "r = idle_result block q'" "ready_queue q = []"
    | (gone) k q2 where "pop_ready (q \<lparr> waker := Some cx \<rparr>) = Some (k, q2)" "streams q k = None"
        "streams q2 = streams q" "poll_loop n block poll_stream cb cx b q2 = (r, b', q')"
    | (pending) k q2 s s' q4 wk where "pop_ready (q \<lparr> waker := Some cx \<rparr>) = Some (k, q2)" "streams q k = Some s"
        "poll_stream s = (Pending, s', wk)" "poll_detached poll_stream k s q2 = (Pending, s', q4)"
        "streams (reattach k s' q4) = (streams q)(k \<mapsto> s')"
        "poll_loop n block poll_stream cb cx b (reattach k s' q4) = (r, b', q')"
    | (ended) k q2 s s' q4 wk b5 q5 where "pop_ready (q \<lparr> waker := Some cx \<rparr>) = Some (k, q2)" "streams q k = Some s"
        "poll_stream s = (Ready None, s', wk)" "poll_detached poll_stream k s q2 = (Ready None, s', q4)"
        "streams q4 = (streams q)(k := None)"
        "(case cb of None \<Rightarrow> (b, q4) | Some f \<Rightarrow> f k (b, q4)) = (b5, q5)"
        "poll_loop n block poll_stream cb cx b5 q5 = (r, b', q')"
    | (item) k q2 s s' q4 wk x where "pop_ready (q \<lparr> waker := Some cx \<rparr>) = Some (k, q2)" "streams q k = Some s"
        "poll_stream s = (Ready (Some x), s', wk)" "poll_detached poll_stream k s q2 = (Ready (Some x), s', q4)"
        "r = Ready (Some (k, x))" "b' = b" "q' = push_ready k (reattach k s' q4)"
        "streams q' = (streams q)(k \<mapsto> s')"
proof (cases "pop_ready (q \<lparr> waker := Some cx \<rparr>)")
  case None
  moreover from None have "ready_queue q = []" by (auto simp: pop_ready_def split: option.splits)
  ultimately show thesis using assms by (intro idle) (auto simp: Let_def)
next
  case (Some kq)
  obtain k q2 where kq: "pop_ready (q \<lparr> waker := Some cx \<rparr>) = Some (k, q2)" using Some by (cases kq) auto
  then have s2: "streams q2 = streams q" using pop_ready_fields by fastforce
  show thesis
  proof (cases "streams q k")
    case None
    with assms kq s2 show thesis by (intro gone) auto
  next
    case (Some s)
    obtain p s' wk where ps: "poll_stream s = (p, s', wk)" by (rule prod_cases3)
    obtain q4 where pd: "poll_detached poll_stream k s q2 = (p, s', q4)"
      and s4: "streams q4 = (streams q)(k := None)"
      using ps s2 by (simp add: poll_detached_def Let_def)
    obtain b5 q5 where q5: "(case cb of None \<Rightarrow> (b, q4) | Some f \<Rightarrow> f k (b, q4)) = (b5, q5)" by fastforce
    consider "p = Pending" | "p = Ready None" | x where "p = Ready (Some x)"
      by (metis poll.exhaust option.exhaust)
    then show thesis
    proof cases
      case 1
      with assms kq s2 Some ps pd s4 show thesis by (intro pending) auto
    next
      case 2
      with assms kq s2 Some ps pd s4 q5 show thesis by (intro ended) auto
    next
      case 3
      with assms kq s2 Some ps pd s4 show thesis by (intro item) auto
    qed
  qed
qed

text \<open>Polling keeps every stream of the queue owned by somebody the state outside knows (\<open>owners\<close>), and keeps any
  invariant of that state which the callback keeps.\<close>

lemma poll_loop_owned:
  assumes "poll_loop n block poll_stream cb cx b q = (r, b', q')"
    and "dom (streams q) \<subseteq> owners b" and "I b"
    and "\<And>f k b q b' q'. cb = Some f \<Longrightarrow> I b \<Longrightarrow> dom (streams q) \<subseteq> owners b - {k} \<Longrightarrow> f k (b, q) = (b', q')
      \<Longrightarrow> dom (streams q') \<subseteq> owners b' \<and> I b'"
  shows "dom (streams q') \<subseteq> owners b' \<and> I b'"
  using assms(1-3)
proof (induction n arbitrary: b q)
  case 0
  then show ?case by (auto simp: Let_def split: if_splits)
next
  case (Suc n)
  from Suc.prems(1) show ?case
  proof (cases rule: poll_loop_Suc_cases)
    case (ended k q2 s s' q4 wk b5 q5)
    have "dom (streams q5) \<subseteq> owners b5 \<and> I b5"
    proof (cases cb)
      case None
      with ended(5,6) Suc.prems(2,3) show ?thesis by auto
    next
      case (Some f)
      have "dom (streams q4) \<subseteq> owners b - {k}" using Suc.prems(2) ended(5) by auto
      with Some ended(6) Suc.prems(3) assms(4) [of f b q4 k b5 q5] show ?thesis by simp
    qed
    with ended(7) Suc.IH show ?thesis by blast
  next
    case (pending k q2 s s' q4 wk)
    then have "dom (streams (reattach k s' q4)) \<subseteq> owners b" using Suc.prems(2) by auto
    with pending(6) Suc.prems(3) show ?thesis by (intro Suc.IH)
  next
    case (item k q2 s s' q4 wk x)
    then have "dom (streams q') \<subseteq> owners b" using Suc.prems(2) by (auto split: if_splits)
    with item(6) Suc.prems(3) show ?thesis by simp
  qed (use Suc.prems Suc.IH in auto)
qed

text \<open>What polling does to the streams, for any relation \<open>R\<close> between a stream and what has become of it that allows
  for pending polls and for the removal of a stream that has ended.\<close>

lemma poll_loop_streams:
  assumes "poll_loop n block poll_stream cb cx b q = (r, b', q')" and "tame cb"
    and "\<And>s. R s s" and "\<And>s t u. R s t \<Longrightarrow> R t u \<Longrightarrow> R s u"
    and "\<And>s s' wk. poll_stream s = (Pending, s', wk) \<Longrightarrow> R (Some s) (Some s')"
    and "\<And>s s' wk. poll_stream s = (Ready None, s', wk) \<Longrightarrow> R (Some s) None"
  shows "(\<forall>l. (\<nexists>x. r = Ready (Some (l, x))) \<longrightarrow> R (streams q l) (streams q' l))
    \<and> (\<forall>k x. r = Ready (Some (k, x)) \<longrightarrow>
        (\<exists>s s' wk. R (streams q k) (Some s) \<and> poll_stream s = (Ready (Some x), s', wk) \<and> streams q' k = Some s'))"
    (is "?Q q")
  using assms(1)
proof (induction n arbitrary: b q)
  case 0
  then show ?case by (auto simp: Let_def idle_result_def assms(3) split: if_splits)
next
  case (Suc n)
  have step: "?Q q" if "\<And>l. R (streams q l) (streams q1 l)" "?Q q1" for q1
  proof (intro conjI allI impI)
    show "R (streams q l) (streams q' l)" if "\<nexists>x. r = Ready (Some (l, x))" for l
      using \<open>?Q q1\<close> that assms(4) [OF \<open>R (streams q l) (streams q1 l)\<close>] by simp
    show "\<exists>s s' wk. R (streams q k) (Some s) \<and> poll_stream s = (Ready (Some x), s', wk) \<and> streams q' k = Some s'"
      if "r = Ready (Some (k, x))" for k x
      using \<open>?Q q1\<close> that assms(4) [OF \<open>R (streams q k) (streams q1 k)\<close>] by metis
  qed
  from Suc.prems show ?case
  proof (cases rule: poll_loop_Suc_cases)
    case idle
    then show ?thesis by (auto simp: assms(3) idle_result_def split: if_splits)
  next
    case (gone k q2)
    with Suc.IH [OF gone(4)] show ?thesis by simp
  next
    case (pending k q2 s s' q4 wk)
    show ?thesis
      by (rule step [OF _ Suc.IH [OF pending(6)]]) (use pending assms(3,5) in auto)
  next
    case (ended k q2 s s' q4 wk b5 q5)
    have "q5 = q4 \<or> q5 = queue_remove k q4"
      using assms(2) ended(6) by (cases cb) (auto simp: tame_def, metis insertE singletonD snd_conv)
    then have "streams q5 = (streams q)(k := None)" using ended(5) by auto
    then show ?thesis
      by (intro step [OF _ Suc.IH [OF ended(7)]]) (use ended(2,3) assms(3,6) in auto)
  next
    case (item k q2 s s' q4 wk x)
    with assms(3) show ?thesis by auto
  qed
qed

text \<open>Streams that are never pending: when every stream waits in the heap, a poll delivers an item, or no stream is
  left.\<close>

lemma poll_loop_prompt:
  assumes "poll_loop n block poll_stream cb cx b q = (r, b', q')" and "tame cb" and "ready_wf q"
    and "n \<le> length (ready_queue q)" and "counter q + n < 2 ^ 64" and "dom (streams q) \<subseteq> set (take n (ready_keys q))"
    and "\<And>l s s' wk. streams q l = Some s \<Longrightarrow> poll_stream s \<noteq> (Pending, s', wk)"
  shows "dom (streams q') \<subseteq> set (ready_keys q') \<and> (streams q' \<noteq> Map.empty \<longrightarrow> (\<exists>i. r = Ready (Some i)))
    \<and> length (ready_queue q') \<le> length (ready_queue q)"
  using assms(1,3-)
proof (induction n arbitrary: b q)
  case 0
  then show ?case by (auto simp: Let_def split: if_splits)
next
  case (Suc n)
  obtain k ks where ks: "ready_keys q = k # ks"
    using Suc.prems(3) by (metis length_ready_keys Suc_le_length_iff)
  have len: "n \<le> length ks" using Suc.prems(3) ks by (metis Suc_le_mono length_Cons length_ready_keys)
  obtain q2 where q2: "pop_ready (q \<lparr> waker := Some cx \<rparr>) = Some (k, q2)" "ready_keys q2 = ks" "ready_wf q2"
    using ready.pop_Cons [of "q \<lparr> waker := Some cx \<rparr>" k ks] Suc.prems(2) ks by auto
  note f2 = pop_ready_fields [OF q2(1)]
  have c2: "counter q2 + 1 < 2 ^ 64" using Suc.prems(4) f2 by simp
  have cont: ?case
    if run: "poll_loop n block poll_stream cb cx b1 q1 = (r, b', q')" and st: "streams q1 = (streams q)(k := None)"
      and "ready_keys q1 = ks @ new" "ready_wf q1" "counter q1 \<le> counter q + 1" "length new \<le> 1" for b1 q1 new
  proof -
    have "n \<le> length (ready_queue q1)" "length (ready_queue q1) \<le> length (ready_queue q)"
      using that(3,6) len ks by (metis length_append length_ready_keys trans_le_add1,
          metis (no_types, lifting) add_le_mono1 add.commute length_Cons length_append length_ready_keys plus_1_eq_Suc)
    moreover have "dom (streams q1) \<subseteq> set (take n (ready_keys q1))" using Suc.prems(5) ks st that(3) len by auto
    moreover have "poll_stream s \<noteq> (Pending, s', wk)" if "streams q1 l = Some s" for l s s' wk
      using that st Suc.prems(6) by (auto split: if_splits)
    ultimately show ?thesis using Suc.IH [OF run that(4)] that(5) Suc.prems(4) by fastforce
  qed
  from Suc.prems(1) show ?case
  proof (cases rule: poll_loop_Suc_cases)
    case idle
    with ks show ?thesis by (metis list.distinct(1) ready_keys_Nil)
  next
    case (gone k' q2')
    with q2 f2 show ?thesis by (intro cont [of b q2 "[]"]) auto
  next
    case (pending k' q2' s s' q4 wk)
    with Suc.prems(6) show ?thesis by blast
  next
    case (ended k' q2' s s' q4 wk b5 q5)
    with q2(1) have eq: "k' = k" "q2' = q2" by auto
    note d = poll_detached_keys [OF ended(4) [unfolded eq] q2(3) c2 f2(4)]
    have "q5 = q4 \<or> q5 = queue_remove k q4"
      using assms(2) ended(6) eq by (cases cb) (auto simp: tame_def, metis insertE singletonD snd_conv)
    then have "ready_keys q5 = ready_keys q4" "ready_wf q5" "counter q5 = counter q4"
      "streams q5 = (streams q)(k := None)"
      using d(2) ended(5) eq by auto
    with ended(7) d(1,4) q2(2) f2(2) show ?thesis
      by (intro cont [of b5 q5 "if k \<in> queued q4 then [k] else []"]) auto
  next
    case (item k' q2' s s' q4 wk x)
    with q2(1) have eq: "k' = k" "q2' = q2" by auto
    note dl = deliver_consumes [OF item(4) [unfolded eq] ks q2(2,3) f2(4) _ c2]
    have "ready_keys q' = ks @ [k]" using dl(4) item(7) eq f2(1) by simp
    moreover have "dom (streams q') \<subseteq> set (k # ks)"
      using Suc.prems(5) ks item(8) eq set_take_subset [of n ks] by (auto split: if_splits)
    moreover have "length (ready_queue q') = length (ready_queue q)"
      using calculation(1) ks by (metis length_append_singleton length_Cons length_ready_keys)
    ultimately show ?thesis using item(5) by auto
  qed
qed

section \<open>Rotation\<close>

text \<open>Repeated polls of the same task, collecting the results.\<close>

fun polls ::
    "nat \<Rightarrow> bool \<Rightarrow> ('s, 't) poll_stream \<Rightarrow> ('b, 's, 'k) on_disconnect \<Rightarrow> nat \<Rightarrow> 'b
      \<Rightarrow> ('s, 'k) queue_inner \<Rightarrow> ('k \<times> 't) option poll list" where
  "polls 0 block poll_stream cb cx b q = []"
| "polls (Suc n) block poll_stream cb cx b q =
     (case queue_poll_next block poll_stream cb cx b q of
        (r, b', q') \<Rightarrow> r # polls n block poll_stream cb cx b' q')"

lemma queue_poll_next_ready:
  assumes "ready_wf q" and "counter q + 1 < 2 ^ 64" and "ready_keys q = k # ks"
    and "streams q k = Some s" and "poll_stream s = (Ready (Some x), s', w)"
  shows "\<exists>q'. queue_poll_next block poll_stream cb cx b q = (Ready (Some (k, x)), b, q')
    \<and> ready_keys q' = ks @ [k] \<and> ready_wf q' \<and> counter q' \<le> counter q + 1
    \<and> streams q' = (streams q)(k \<mapsto> s')"
proof -
  obtain q2 where q2: "pop_ready (q \<lparr> waker := Some cx \<rparr>) = Some (k, q2)" "ready_keys q2 = ks"
      "ready_wf q2"
    using ready.pop_Cons [of "q \<lparr> waker := Some cx \<rparr>" k ks] assms by auto
  note f2 = pop_ready_fields [OF q2(1)]
  obtain q4 where q4: "poll_detached poll_stream k s q2 = (Ready (Some x), s', q4)"
    using assms(5) by (simp add: poll_detached_def Let_def)
  have c2: "counter q2 + 1 < 2 ^ 64" using assms(2) f2 by simp
  note dl = deliver_consumes [OF q4 assms(3) q2(2,3) f2(4) _ c2]
    and d = poll_detached_keys [OF q4 q2(3) c2 f2(4)]
  obtain n where n: "length (ready_queue q) = Suc n"
    using assms(3) by (metis length_Cons length_ready_keys)
  have "queue_poll_next block poll_stream cb cx b q
      = (Ready (Some (k, x)), b, push_ready k (reattach k s' q4))"
    using n q2(1) f2(1) assms(4) q4 by (simp add: queue_poll_next_def)
  then show ?thesis using dl(2-4) d f2 by auto
qed

lemma polls_rotate:
  assumes always: "\<And>s. P s \<Longrightarrow> \<exists>x s' w. poll_stream s = (Ready (Some x), s', w) \<and> P s'"
    and "\<forall>k \<in> set (ready_keys q). \<exists>s. streams q k = Some s \<and> P s"
    and "ready_keys q \<noteq> []" and "ready_wf q" and "counter q + n < 2 ^ 64"
  shows "\<exists>xs. length xs = n
    \<and> polls n block poll_stream cb cx b q
      = map (\<lambda>(k, x). Ready (Some (k, x))) (zip (map (\<lambda>i. hd (rotate i (ready_keys q))) [0..<n]) xs)"
  using assms(2-)
proof (induction n arbitrary: q)
  case (Suc n)
  obtain k ks where ks: "ready_keys q = k # ks" using Suc.prems(2) by (cases "ready_keys q") auto
  with Suc.prems(1) obtain s where s: "streams q k = Some s" "P s" by auto
  obtain x s' w where p: "poll_stream s = (Ready (Some x), s', w)" "P s'" using always [OF s(2)] by auto
  obtain q' where q': "queue_poll_next block poll_stream cb cx b q = (Ready (Some (k, x)), b, q')"
      "ready_keys q' = rotate1 (ready_keys q)" "ready_wf q'" "counter q' \<le> counter q + 1"
      "streams q' = (streams q)(k \<mapsto> s')"
    using queue_poll_next_ready [where poll_stream = poll_stream and block = block and cb = cb and cx = cx
        and b = b, OF Suc.prems(3) _ ks s(1) p(1)] Suc.prems(4) ks by auto
  have "\<forall>k \<in> set (ready_keys q'). \<exists>s. streams q' k = Some s \<and> P s"
    using Suc.prems(1) p(2) by (auto simp: q'(2,5))
  from Suc.IH [OF this] q' Suc.prems obtain xs where
    xs: "length xs = n" "polls n block poll_stream cb cx b q'
      = map (\<lambda>(k, x). Ready (Some (k, x))) (zip (map (\<lambda>i. hd (rotate i (ready_keys q'))) [0..<n]) xs)"
    by auto
  have "map (\<lambda>i. hd (rotate i (ready_keys q))) [0..<Suc n]
      = k # map (\<lambda>i. hd (rotate i (ready_keys q'))) [0..<n]"
    by (simp add: upt_rec [of 0 "Suc n"] map_Suc_upt [symmetric] q'(2) ks rotate1_rotate_swap
        del: upt_Suc map_Suc_upt)
  with xs q'(1) show ?case by (intro exI [of _ "x # xs"]) simp
qed simp

section \<open>Properties\<close>

text \<open>The heap of ready events is a first-in-first-out queue of keys: a key that is not yet queued
  enters behind all waiting keys, and what is taken out is the key that has waited longest.\<close>

theorem ready_heap_fifo:
  assumes "ready_wf q" and "k \<notin> queued q" and "counter q + 1 < 2 ^ 64"
  shows "ready_keys (push_ready k q) = ready_keys q @ [k] \<and> ready_wf (push_ready k q)
    \<and> (\<exists>q'. pop_ready (push_ready k q) = Some (hd (ready_keys q @ [k]), q')
        \<and> ready_keys q' = tl (ready_keys q @ [k]) \<and> ready_wf q')"
proof -
  have p: "ready_keys (push_ready k q) = ready_keys q @ [k]" "ready_wf (push_ready k q)"
    using ready.push_snoc [of q k] assms by (auto simp: may_push_def)
  then have "ready_keys (push_ready k q) = hd (ready_keys q @ [k]) # tl (ready_keys q @ [k])" by simp
  from ready.pop_Cons [OF p(2) this] p show ?thesis by auto
qed

theorem ready_heap_fifo_witness:
  "ready_keys (push_ready (2::nat) (push_ready 1 (queue_new :: (nat list, nat) queue_inner))) = [1, 2]"
proof -
  have "ready_keys (push_ready 1 queue_new :: (nat list, nat) queue_inner) = [1]"
    by (simp add: push_ready_def queue_new_def ready_keys_def heap_push_def)
  moreover have "ready_keys (push_ready 2 (push_ready 1 queue_new :: (nat list, nat) queue_inner))
      = ready_keys (push_ready 1 queue_new :: (nat list, nat) queue_inner) @ [2]"
    by (intro ready_heap_fifo [THEN conjunct1])
      (auto simp: push_ready_def queue_new_def ready_wf_def heap_push_def)
  ultimately show ?thesis by simp
qed

text \<open>C13: No stream starves. One poll takes a non-empty prefix of the waiting keys (all of them unless it
  delivers an item, and then the item belongs to the last key of the prefix), leaves the keys behind
  the prefix waiting in the same order at the front of the queue, and touches no stream outside of the
  prefix; the key that delivered is queued again.\<close>

theorem fair_queue_no_starvation:
  assumes "queue_poll_next block poll_stream cb cx b q = (r, b', q')"
    and "ready_wf q" and "counter q + length (ready_queue q) < 2 ^ 64" and "tame cb"
  shows "ready_wf q' \<and> (\<exists>d later. d \<le> length (ready_keys q)
    \<and> ready_keys q' = drop d (ready_keys q) @ later
    \<and> set later \<subseteq> set (take d (ready_keys q))
    \<and> (\<forall>k. k \<notin> set (take d (ready_keys q)) \<longrightarrow> streams q' k = streams q k)
    \<and> (case r of
         Ready (Some (k, x)) \<Rightarrow> 0 < d \<and> ready_keys q ! (d - 1) = k \<and> k \<in> set (ready_keys q')
           \<and> (\<exists>s s' w. poll_stream s = (Ready (Some x), s', w) \<and> streams q' k = Some s')
       | _ \<Rightarrow> d = length (ready_keys q)))"
proof -
  from queue_poll_next_consumes [OF assms] have c: "consumed (length (ready_keys q)) poll_stream r q q'"
    and wf: "ready_wf q'" by auto
  have sub: "k \<in> queued q' \<Longrightarrow> k \<in> set (ready_keys q')" for k
    using wf by (auto simp: ready_wf_def set_ready_keys)
  from c obtain d later where d: "d \<le> length (ready_keys q)"
      "ready_keys q' = drop d (ready_keys q) @ later" "set later \<subseteq> set (take d (ready_keys q))"
      "\<forall>k. k \<notin> set (take d (ready_keys q)) \<longrightarrow> streams q' k = streams q k"
      "case r of
         Ready (Some (k, x)) \<Rightarrow> 0 < d \<and> ready_keys q ! (d - 1) = k \<and> k \<in> queued q'
           \<and> (\<exists>s s' w. poll_stream s = (Ready (Some x), s', w) \<and> streams q' k = Some s')
       | _ \<Rightarrow> d = length (ready_keys q)"
    unfolding consumed_def by blast
  from d(5) have "case r of
         Ready (Some (k, x)) \<Rightarrow> 0 < d \<and> ready_keys q ! (d - 1) = k \<and> k \<in> set (ready_keys q')
           \<and> (\<exists>s s' w. poll_stream s = (Ready (Some x), s', w) \<and> streams q' k = Some s')
       | _ \<Rightarrow> d = length (ready_keys q)"
    using sub by (auto split: poll.splits option.splits prod.splits)
  with d(1-4) wf show ?thesis by blast
qed

theorem fair_queue_no_starvation_witness:
  "let q = queue_insert (8::nat) [5::nat] (queue_insert 7 [] queue_new);
       poll_stream = (\<lambda>s. case s of [] \<Rightarrow> (Pending, [], False) | x # xs \<Rightarrow> (Ready (Some x), xs, False));
       q' = snd (snd (queue_poll_next True poll_stream None 0 () q))
   in queue_poll_next True poll_stream None 0 () q = (Ready (Some (8, 5)), (), q') \<and> ready_wf q'"
proof -
  define q where "q = queue_insert (8::nat) [5::nat] (queue_insert 7 [] queue_new)"
  define f where "f = (\<lambda>s. case s of
      [] \<Rightarrow> (Pending, [], False) | x # xs \<Rightarrow> (Ready (Some x), xs :: nat list, False))"
  have "queue_poll_next True f None 0 () q
      = (Ready (Some (8, 5)), (), snd (snd (queue_poll_next True f None 0 () q)))"
    by (simp add: f_def q_def queue_poll_next_def queue_insert_def push_ready_def queue_new_def
        pop_ready_def heap_push_def heap_pop_def event_le_def poll_detached_def reattach_def Let_def)
  moreover have "ready_wf q" "counter q + length (ready_queue q) < 2 ^ 64"
    by (simp_all add: q_def queue_insert_def push_ready_def queue_new_def ready_wf_def heap_push_def
        Let_def)
  ultimately show ?thesis
    using fair_queue_no_starvation [of True f None 0 "()" q]
    by (simp add: q_def [symmetric] f_def [symmetric] tame_def Let_def)
qed

text \<open>C12: Round robin. While every waiting stream always has an item, \<open>n\<close> polls deliver \<open>n\<close> items, the
  \<open>i\<close>-th of them from the waiting key number \<open>i\<close> modulo the number of waiting keys.\<close>

theorem fair_queue_round_robin:
  assumes "\<And>s. P s \<Longrightarrow> \<exists>x s' w. poll_stream s = (Ready (Some x), s', w) \<and> P s'"
    and "\<forall>k \<in> set (ready_keys q). \<exists>s. streams q k = Some s \<and> P s"
    and "ready_keys q \<noteq> []" and "ready_wf q" and "counter q + n < 2 ^ 64"
  shows "\<exists>xs. length xs = n \<and> polls n block poll_stream cb cx b q
      = map (\<lambda>(k, x). Ready (Some (k, x)))
          (zip (map (\<lambda>i. ready_keys q ! (i mod length (ready_keys q))) [0..<n]) xs)"
proof -
  have "map (\<lambda>i. hd (rotate i (ready_keys q))) [0..<n]
      = map (\<lambda>i. ready_keys q ! (i mod length (ready_keys q))) [0..<n]"
    using assms(3) by (simp add: hd_rotate_conv_nth)
  moreover have "\<exists>xs. length xs = n \<and> polls n block poll_stream cb cx b q
      = map (\<lambda>(k, x). Ready (Some (k, x))) (zip (map (\<lambda>i. hd (rotate i (ready_keys q))) [0..<n]) xs)"
    by (rule polls_rotate [of P]) (use assms in blast)+
  ultimately show ?thesis by metis
qed

theorem fair_queue_round_robin_witness:
  "let q = queue_insert (8::nat) (0::nat) (queue_insert 7 0 queue_new)
   in \<exists>xs. length xs = 3
     \<and> polls 3 True (\<lambda>s. (Ready (Some s), Suc s, False)) None 0 () q
       = map (\<lambda>(k, x). Ready (Some (k, x))) (zip [7, 8, 7] xs)"
proof -
  define q where "q = queue_insert (8::nat) (0::nat) (queue_insert 7 0 queue_new)"
  have rk: "ready_keys q = [7, 8]" and wf: "ready_wf q" and c: "counter q = 2"
    and st: "streams q = [7 \<mapsto> 0, 8 \<mapsto> 0]"
    by (simp_all add: q_def queue_eval)
  have "[0..<3] = [0, 1, 2 :: nat]" by (simp add: upt_rec)
  then have keys: "map (\<lambda>i. ready_keys q ! (i mod length (ready_keys q))) [0..<3] = [7, 8, 7]"
    unfolding rk by (simp add: numeral_2_eq_2)
  show ?thesis
    unfolding q_def [symmetric] Let_def keys [symmetric]
    by (rule fair_queue_round_robin [of "\<lambda>s. 0 \<le> s"]) (use rk wf c st in auto)
qed



text \<open>\<open>remove\<close> leaves the event of the key in the heap. A key that is removed while it waits and inserted again is
  then entered a second time, and while its new stream has items it gets two turns where another gets one.\<close>

theorem reinsert_doubles_turns:
  assumes "\<And>s. P s \<Longrightarrow> \<exists>x s' w. poll_stream s = (Ready (Some x), s', w) \<and> P s'"
    and "ready_keys q = [k, l]" and "k \<noteq> l" and "streams q l = Some t" and "P t" and "P s"
    and "ready_wf q" and "counter q + n + 1 < 2 ^ 64"
  shows "\<exists>xs. length xs = n \<and> polls n block poll_stream cb cx b (queue_insert k s (queue_remove k q))
      = map (\<lambda>(k, x). Ready (Some (k, x))) (zip (map (\<lambda>i. [k, l, k] ! (i mod 3)) [0..<n]) xs)"
proof -
  let ?q = "queue_insert k s (queue_remove k q)"
  have wf: "ready_wf (queue_remove k q)" and k: "k \<notin> queued (queue_remove k q)"
    using assms(7) by (simp, simp add: queue_remove_def)
  have "counter (queue_remove k q) + 1 < 2 ^ 64" using assms(8) by simp
  note ins = queue_insert_waiting [OF wf this k, of s]
  have keys: "ready_keys ?q = [k, l, k]" and c: "counter ?q = counter q + 1" using ins(2,3) assms(2) by simp_all
  have "\<exists>xs. length xs = n \<and> polls n block poll_stream cb cx b ?q
      = map (\<lambda>(k, x). Ready (Some (k, x))) (zip (map (\<lambda>i. hd (rotate i (ready_keys ?q))) [0..<n]) xs)"
  proof (rule polls_rotate [of P, OF assms(1)])
    show "\<forall>k' \<in> set (ready_keys ?q). \<exists>s. streams ?q k' = Some s \<and> P s"
      unfolding keys using assms(3-6) by (simp add: queue_remove_def)
    show "ready_wf ?q" by (rule ins(1))
  qed (use keys c assms(8) in simp_all)
  then show ?thesis by (simp add: keys hd_rotate_conv_nth)
qed

theorem reinsert_doubles_turns_witness:
  "let q = queue_insert (8::nat) (0::nat) (queue_insert 7 0 queue_new)
   in \<exists>xs. length xs = 3 \<and> polls 3 True (\<lambda>s. (Ready (Some s), Suc s, False)) None 0 () (queue_insert 7 0 (queue_remove 7 q))
       = map (\<lambda>(k, x). Ready (Some (k, x))) (zip (map (\<lambda>i. [7, 8, 7] ! (i mod 3)) [0..<3]) xs)"
  unfolding Let_def by (rule reinsert_doubles_turns [of "\<lambda>s. 0 \<le> s"]) (auto simp: queue_eval)

end
