(* ===== verification/Generic_Backend.thy ===== *)
theory Generic_Backend
  imports Multi_Peer Fair_Queue
begin

text \<open>
  \<open>src/backend.rs\<close>: the backend of the PUSH, PULL, DEALER and ROUTER sockets. It keeps a send queue
  per peer, a round-robin list of peer identities, a cached copy of the only peer while there is exactly
  one, and the notifiers of the reconnection tasks; sockets that receive also share a fair queue with it.

  The fair queue belongs to the backend's record here, the socket's handle to it is the same object. The
  writer task that \<open>peer_connected\<close> spawns is \<open>writer_task\<close>.
\<close>

section \<open>Definitions\<close>

definition PEER_SEND_QUEUE_CAPACITY :: nat where "PEER_SEND_QUEUE_CAPACITY = 100000"

record 's generic_backend =
  peers :: "peer_identity \<rightharpoonup> nat"
  fair_queue_inner :: "('s, peer_identity) queue_inner option"
  round_robin :: "peer_identity list"
  gb_socket_type :: socket_type
  gb_socket_options :: socket_options
  socket_monitor :: "nat option"
  single_peer :: "(peer_identity \<times> nat) option"
  peer_count :: nat
  disconnect_notifiers :: "peer_identity \<rightharpoonup> nat"

definition generic_with_options ::
    "('s, peer_identity) queue_inner option \<Rightarrow> socket_type \<Rightarrow> socket_options \<Rightarrow> 's generic_backend" where
  "generic_with_options fq socket_type options =
     \<lparr> peers = Map.empty, fair_queue_inner = fq, round_robin = [], gb_socket_type = socket_type,
       gb_socket_options = options, socket_monitor = None, single_peer = None, peer_count = 0,
       disconnect_notifiers = Map.empty \<rparr>"

definition register_disconnect_notifier ::
    "peer_identity \<Rightarrow> nat \<Rightarrow> 's generic_backend \<Rightarrow> 's generic_backend" where
  "register_disconnect_notifier pid notifier b =
     b \<lparr> disconnect_notifiers := (disconnect_notifiers b)(pid \<mapsto> notifier) \<rparr>"

definition unregister_disconnect_notifier ::
    "peer_identity \<Rightarrow> 's generic_backend \<Rightarrow> 's generic_backend" where
  "unregister_disconnect_notifier pid b =
     b \<lparr> disconnect_notifiers := (disconnect_notifiers b)(pid := None) \<rparr>"

text \<open>\<open>peers.len()\<close> and \<open>peers.begin_sync()\<close> go by the keys of the map.\<close>

definition refresh_single_peer_cache :: "'w env \<Rightarrow> 's generic_backend \<times> 'w \<Rightarrow> 's generic_backend \<times> 'w" where
  "refresh_single_peer_cache env bw = (case bw of (b, w) \<Rightarrow>
     let ks = keys_of env w (dom (peers b)); n = length ks
     in (b \<lparr> peer_count := n,
             single_peer := (if n = 1 then map_option (Pair (hd ks)) (peers b (hd ks)) else None) \<rparr>, w))"

definition notify_disconnect :: "'w env \<Rightarrow> peer_identity \<Rightarrow> 's generic_backend \<times> 'w \<Rightarrow> 's generic_backend \<times> 'w" where
  "notify_disconnect env pid bw = (case bw of (b, w) \<Rightarrow>
     case disconnect_notifiers b pid of
       None \<Rightarrow> (b, w)
     | Some notifier \<Rightarrow>
         (b \<lparr> disconnect_notifiers := (disconnect_notifiers b)(pid := None) \<rparr>,
          notify env notifier pid w))"

definition generic_peer_disconnected ::
    "'w env \<Rightarrow> peer_identity \<Rightarrow> 's generic_backend \<times> 'w \<Rightarrow> 's generic_backend \<times> 'w" where
  "generic_peer_disconnected env pid bw = (case bw of (b, w) \<Rightarrow>
     let peer_removed = peers b pid \<noteq> None;
         (b1, w1) = refresh_single_peer_cache env (b \<lparr> peers := (peers b)(pid := None) \<rparr>, w);
         b2 = b1 \<lparr> fair_queue_inner := map_option (queue_remove pid) (fair_queue_inner b1) \<rparr>;
         w2 = (if peer_removed then monitor_event env (socket_monitor b2) (Disconnected pid) w1 else w1)
     in notify_disconnect env pid (b2, w2))"

definition generic_peer_connected ::
    "'w env \<Rightarrow> peer_identity \<Rightarrow> 's framed_io \<Rightarrow> 's generic_backend \<times> 'w \<Rightarrow> 's generic_backend \<times> 'w" where
  "generic_peer_connected env pid io bw = (case bw of (b, w) \<Rightarrow>
     let (queue, w1) = channel env PEER_SEND_QUEUE_CAPACITY w;
         (b2, w2) = refresh_single_peer_cache env (b \<lparr> peers := (peers b)(pid \<mapsto> queue) \<rparr>, w1);
         w3 = spawn_writer env pid queue (write_half io) w2;
         b3 = b2 \<lparr> round_robin := round_robin b2 @ [pid] \<rparr>
     in (b3 \<lparr> fair_queue_inner :=
                map_option (queue_insert pid (read_half io)) (fair_queue_inner b3) \<rparr>, w3))"

definition generic_shutdown :: "'s generic_backend \<times> 'w \<Rightarrow> 's generic_backend \<times> 'w" where
  "generic_shutdown bw = (case bw of (b, w) \<Rightarrow>
     (b \<lparr> peers := Map.empty, single_peer := None, peer_count := 0,
          fair_queue_inner := map_option queue_clear (fair_queue_inner b) \<rparr>, w))"

text \<open>The body of the spawned writer task: run the writer; when it fails, disconnect the peer.\<close>

definition writer_task ::
    "'w env \<Rightarrow> peer_identity \<Rightarrow> ('w \<Rightarrow> (codec_error + unit) \<times> 'w)
      \<Rightarrow> 's generic_backend \<times> 'w \<Rightarrow> 's generic_backend \<times> 'w" where
  "writer_task env pid write_queue bw = (case bw of (b, w) \<Rightarrow>
     case write_queue w of
       (Inl error, w') \<Rightarrow> generic_peer_disconnected env pid (b, w')
     | (Inr _, w') \<Rightarrow> (b, w'))"

text \<open>\<open>send_to_peer_queue\<close>: try, and wait for room only when the queue is full. The boolean is success.\<close>

definition send_to_peer_queue :: "'w env \<Rightarrow> nat \<Rightarrow> message \<Rightarrow> 'w \<Rightarrow> bool \<times> 'w" where
  "send_to_peer_queue env send_queue message w =
     (case try_send env send_queue message w of
        (TrySent, w') \<Rightarrow> (True, w')
      | (TryFull m, w') \<Rightarrow> send env send_queue m w'
      | (TryClosed, w') \<Rightarrow> (False, w'))"

datatype cached_send =
    Sent | Full peer_identity nat message | CachedDisconnected peer_identity | Miss message

datatype send_resolution = ResolvedSent | ResolvedMiss message

definition try_send_cached_single_peer ::
    "'w env \<Rightarrow> message \<Rightarrow> peer_identity option \<Rightarrow> 's generic_backend \<times> 'w \<Rightarrow> cached_send \<times> 'w" where
  "try_send_cached_single_peer env message expected_peer bw = (case bw of (b, w) \<Rightarrow>
     if peer_count b \<noteq> 1 then (Miss message, w)
     else case single_peer b of
       None \<Rightarrow> (Miss message, w)
     | Some (pid, send_queue) \<Rightarrow>
         if (case expected_peer of Some e \<Rightarrow> pid \<noteq> e | None \<Rightarrow> False) then (Miss message, w)
         else case try_send env send_queue message w of
           (TrySent, w') \<Rightarrow> (Sent, w')
         | (TryFull m, w') \<Rightarrow> (Full pid send_queue m, w')
         | (TryClosed, w') \<Rightarrow> (CachedDisconnected pid, w'))"

definition finish_cached_send ::
    "'w env \<Rightarrow> cached_send \<Rightarrow> 's generic_backend \<times> 'w
      \<Rightarrow> send_resolution zmq_result \<times> 's generic_backend \<times> 'w" where
  "finish_cached_send env cached_send bw = (case bw of (b, w) \<Rightarrow>
     case cached_send of
       Sent \<Rightarrow> (Ok ResolvedSent, b, w)
     | Full pid send_queue message \<Rightarrow>
         (case send env send_queue message w of
            (True, w') \<Rightarrow> (Ok ResolvedSent, b, w')
          | (False, w') \<Rightarrow> (Err send_error, generic_peer_disconnected env pid (b, w')))
     | CachedDisconnected pid \<Rightarrow> (Err send_error, generic_peer_disconnected env pid (b, w))
     | Miss message \<Rightarrow> (Ok (ResolvedMiss message), b, w))"

text \<open>The error for a message that has no peer to go to.\<close>

fun not_connected :: "message \<Rightarrow> zmq_error" where
  "not_connected (Message_Greeting _) = ErrSocket ''Sending greeting is not supported''"
| "not_connected (Message_Command _) = ErrSocket ''Sending commands is not supported''"
| "not_connected (Message_Message m) =
     ReturnToSender ''Not connected to peers. Unable to send messages'' m"

text \<open>The loop of \<open>send_round_robin\<close>, one entry of the round-robin list per turn.\<close>

fun round_robin_loop ::
    "'w env \<Rightarrow> message \<Rightarrow> peer_identity list \<Rightarrow> 's generic_backend \<times> 'w
      \<Rightarrow> unit zmq_result \<times> 's generic_backend \<times> 'w" where
  "round_robin_loop env message [] (b, w) = (Err (not_connected message), b \<lparr> round_robin := [] \<rparr>, w)"
| "round_robin_loop env message (next_peer # rest) (b, w) =
     (case peers b next_peer of
        None \<Rightarrow> round_robin_loop env message rest (b, w)
      | Some send_queue \<Rightarrow>
          (case send_to_peer_queue env send_queue message w of
             (True, w') \<Rightarrow> (Ok (), b \<lparr> round_robin := rest @ [next_peer] \<rparr>, w')
           | (False, w') \<Rightarrow>
               (Err send_error,
                generic_peer_disconnected env next_peer (b \<lparr> round_robin := rest \<rparr>, w'))))"

definition send_round_robin ::
    "'w env \<Rightarrow> message \<Rightarrow> 's generic_backend \<times> 'w \<Rightarrow> unit zmq_result \<times> 's generic_backend \<times> 'w" where
  "send_round_robin env message bw =
     (case try_send_cached_single_peer env message None bw of (cached, w) \<Rightarrow>
        (case finish_cached_send env cached (fst bw, w) of
           (Inl e, bw') \<Rightarrow> (Err e, bw')
         | (Inr ResolvedSent, bw') \<Rightarrow> (Ok (), bw')
         | (Inr (ResolvedMiss m), b', w') \<Rightarrow> round_robin_loop env m (round_robin b') (b', w')))"

definition send_to_peer ::
    "'w env \<Rightarrow> peer_identity \<Rightarrow> message \<Rightarrow> 's generic_backend \<times> 'w
      \<Rightarrow> unit zmq_result \<times> 's generic_backend \<times> 'w" where
  "send_to_peer env pid message bw =
     (case try_send_cached_single_peer env message (Some pid) bw of (cached, w) \<Rightarrow>
        (case finish_cached_send env cached (fst bw, w) of
           (Inl e, bw') \<Rightarrow> (Err e, bw')
         | (Inr ResolvedSent, bw') \<Rightarrow> (Ok (), bw')
         | (Inr (ResolvedMiss m), b', w') \<Rightarrow>
             (case peers b' pid of
                None \<Rightarrow> (Err (ErrOther ''Destination client not found by identity''), b', w')
              | Some send_queue \<Rightarrow>
                  (case send_to_peer_queue env send_queue m w' of
                     (True, w'') \<Rightarrow> (Ok (), b', w'')
                   | (False, w'') \<Rightarrow>
                       (Err send_error, generic_peer_disconnected env pid (b', w''))))))"

section \<open>Invariants\<close>

text \<open>Every connected peer is in the rotation, and every stream of the fair queue belongs to a connected
  peer.\<close>

definition generic_wf :: "'s generic_backend \<Rightarrow> bool" where
  "generic_wf b \<longleftrightarrow> finite (dom (peers b)) \<and> dom (peers b) \<subseteq> set (round_robin b)
     \<and> (\<forall>fq. fair_queue_inner b = Some fq \<longrightarrow> dom (streams fq) \<subseteq> dom (peers b))"

text \<open>The cache agrees with the peer map.\<close>

definition cache_ok :: "'s generic_backend \<Rightarrow> bool" where
  "cache_ok b \<longleftrightarrow> peer_count b = card (dom (peers b))
     \<and> (\<forall>k q. single_peer b = Some (k, q) \<longleftrightarrow> peers b = [k \<mapsto> q])"

lemma refresh_fields [simp]:
  "peers (fst (refresh_single_peer_cache env (b, w))) = peers b"
  "fair_queue_inner (fst (refresh_single_peer_cache env (b, w))) = fair_queue_inner b"
  "round_robin (fst (refresh_single_peer_cache env (b, w))) = round_robin b"
  "disconnect_notifiers (fst (refresh_single_peer_cache env (b, w))) = disconnect_notifiers b"
  "socket_monitor (fst (refresh_single_peer_cache env (b, w))) = socket_monitor b"
  "gb_socket_type (fst (refresh_single_peer_cache env (b, w))) = gb_socket_type b"
  "gb_socket_options (fst (refresh_single_peer_cache env (b, w))) = gb_socket_options b"
  "snd (refresh_single_peer_cache env (b, w)) = w"
  by (simp_all add: refresh_single_peer_cache_def Let_def)

lemma singleton_map_iff: "m = [k \<mapsto> q] \<longleftrightarrow> dom m = {k} \<and> m k = Some q"
proof
  assume *: "dom m = {k} \<and> m k = Some q"
  show "m = [k \<mapsto> q]"
  proof
    fix x
    show "m x = [k \<mapsto> q] x" using * by (cases "x = k") auto
  qed
qed simp

lemma refresh_cache_ok:
  assumes "env_ok env accepted written" and "finite (dom (peers b))"
  shows "cache_ok (fst (refresh_single_peer_cache env (b, w)))"
proof -
  let ?ks = "keys_of env w (dom (peers b))"
  note ks = env_keys [OF assms, of w]
  show ?thesis
  proof (cases "card (dom (peers b)) = 1")
    case True
    then obtain k where k: "?ks = [k]" "dom (peers b) = {k}"
      using ks by (metis One_nat_def length_0_conv length_Suc_conv list.simps(15) set_empty)
    then obtain q where "peers b k = Some q" by auto
    with k show ?thesis
      by (auto simp: cache_ok_def refresh_single_peer_cache_def Let_def singleton_map_iff)
  next
    case False
    with ks show ?thesis
      by (auto simp: cache_ok_def refresh_single_peer_cache_def Let_def singleton_map_iff)
  qed
qed

lemma cache_ok_update [simp]:
  "cache_ok (b \<lparr> fair_queue_inner := f \<rparr>) = cache_ok b" "cache_ok (b \<lparr> round_robin := r \<rparr>) = cache_ok b"
  "cache_ok (b \<lparr> disconnect_notifiers := d \<rparr>) = cache_ok b"
  by (simp_all add: cache_ok_def)

lemma notify_disconnect_fields [simp]:
  "peers (fst (notify_disconnect env p (b, w))) = peers b"
  "fair_queue_inner (fst (notify_disconnect env p (b, w))) = fair_queue_inner b"
  "round_robin (fst (notify_disconnect env p (b, w))) = round_robin b"
  "socket_monitor (fst (notify_disconnect env p (b, w))) = socket_monitor b"
  "disconnect_notifiers (fst (notify_disconnect env p (b, w))) = (disconnect_notifiers b)(p := None)"
  "cache_ok (fst (notify_disconnect env p (b, w))) = cache_ok b"
  by (auto simp: notify_disconnect_def split: option.splits)

lemma disconnected_fields [simp]:
  "peers (fst (generic_peer_disconnected env p (b, w))) = (peers b)(p := None)"
  "fair_queue_inner (fst (generic_peer_disconnected env p (b, w)))
     = map_option (queue_remove p) (fair_queue_inner b)"
  "round_robin (fst (generic_peer_disconnected env p (b, w))) = round_robin b"
  "disconnect_notifiers (fst (generic_peer_disconnected env p (b, w))) = (disconnect_notifiers b)(p := None)"
  by (simp_all add: generic_peer_disconnected_def refresh_single_peer_cache_def Let_def)

lemma connected_fields [simp]:
  "dom (peers (fst (generic_peer_connected env p io (b, w)))) = insert p (dom (peers b))"
  "round_robin (fst (generic_peer_connected env p io (b, w))) = round_robin b @ [p]"
  "fair_queue_inner (fst (generic_peer_connected env p io (b, w)))
     = map_option (queue_insert p (read_half io)) (fair_queue_inner b)"
  by (auto simp: generic_peer_connected_def refresh_single_peer_cache_def Let_def split: prod.splits)

lemma shutdown_fields [simp]:
  "peers (fst (generic_shutdown (b, w))) = Map.empty" "round_robin (fst (generic_shutdown (b, w))) = round_robin b"
  "fair_queue_inner (fst (generic_shutdown (b, w))) = map_option queue_clear (fair_queue_inner b)"
  by (simp_all add: generic_shutdown_def)

lemma generic_wf_new: "generic_wf (generic_with_options None t opts)"
  "generic_wf (generic_with_options (Some queue_new) t opts)"
  by (simp_all add: generic_wf_def generic_with_options_def queue_new_def)

lemma cache_ok_new: "cache_ok (generic_with_options fq t opts)"
  by (simp add: cache_ok_def generic_with_options_def singleton_map_iff)

text \<open>The backend keeps the contract of \<open>MultiPeerBackend\<close>.\<close>

interpretation generic: reliable_backend "generic_peer_connected env" "generic_peer_disconnected env"
  generic_shutdown "\<lambda>bw. dom (peers (fst bw))" "\<lambda>bw. generic_wf (fst bw)"
  for env :: "'w env"
proof
  fix st :: "'s generic_backend \<times> 'w" and p and io :: "'s framed_io"
  obtain b w where st: "st = (b, w)" by fastforce
  assume wf: "generic_wf (fst st)"
  then show "generic_wf (fst (generic_peer_connected env p io st))"
    by (force simp: st generic_wf_def subset_iff domIff split: if_splits)
  from wf show "generic_wf (fst (generic_peer_disconnected env p st))"
    by (force simp: st generic_wf_def subset_iff domIff split: if_splits)
  from wf show "generic_wf (fst (generic_shutdown st))"
    by (auto simp: st generic_wf_def)
  show "dom (peers (fst (generic_peer_connected env p io st))) \<subseteq> insert p (dom (peers (fst st)))"
    "dom (peers (fst st)) \<subseteq> dom (peers (fst (generic_peer_connected env p io st)))"
    "dom (peers (fst (generic_peer_connected env p io st))) = insert p (dom (peers (fst st)))"
    by (auto simp only: st connected_fields fst_conv)
  show "dom (peers (fst (generic_peer_disconnected env p st))) = dom (peers (fst st)) - {p}"
    "dom (peers (fst (generic_shutdown st))) = {}"
    by (simp_all add: st)
qed

text \<open>The cache stays coherent.\<close>

lemma disconnected_cache_ok:
  assumes "env_ok env accepted written" and "finite (dom (peers b))"
  shows "cache_ok (fst (generic_peer_disconnected env p (b, w)))"
proof -
  obtain b1 w1 where r: "refresh_single_peer_cache env (b \<lparr> peers := (peers b)(p := None) \<rparr>, w) = (b1, w1)"
    by fastforce
  with refresh_cache_ok [OF assms(1), of "b \<lparr> peers := (peers b)(p := None) \<rparr>" w] assms(2)
  have "cache_ok b1" by simp
  with r show ?thesis by (simp add: generic_peer_disconnected_def Let_def)
qed

lemma connected_cache_ok:
  assumes "env_ok env accepted written" and "finite (dom (peers b))"
  shows "cache_ok (fst (generic_peer_connected env p io (b, w)))"
proof -
  obtain q w1 where q: "channel env PEER_SEND_QUEUE_CAPACITY w = (q, w1)" by fastforce
  obtain b2 w2 where r: "refresh_single_peer_cache env (b \<lparr> peers := (peers b)(p \<mapsto> q) \<rparr>, w1) = (b2, w2)"
    by fastforce
  with refresh_cache_ok [OF assms(1), of "b \<lparr> peers := (peers b)(p \<mapsto> q) \<rparr>" w1] assms(2)
  have "cache_ok b2" by simp
  with q r show ?thesis by (simp add: generic_peer_connected_def Let_def)
qed

lemma shutdown_cache_ok: "cache_ok (fst (generic_shutdown (b, w)))"
  by (simp add: generic_shutdown_def cache_ok_def singleton_map_iff)

section \<open>Sending\<close>

lemma disconnected_accepted:
  assumes "env_ok env accepted written"
  shows "accepted (snd (generic_peer_disconnected env p (b, w))) = accepted w"
  using assms
  by (simp add: generic_peer_disconnected_def refresh_single_peer_cache_def notify_disconnect_def Let_def
      env_monitor_event [OF assms] env_notify [OF assms] split: option.splits)

lemma send_to_peer_queue_accepted:
  assumes "env_ok env accepted written" and "send_to_peer_queue env q m w = (r, w')"
  shows "accepted w' = (if r then (accepted w)(q := accepted w q @ [m]) else accepted w)"
proof -
  obtain t w1 where t: "try_send env q m w = (t, w1)" by fastforce
  note t1 = env_try_send [OF assms(1) t]
  show ?thesis
  proof (cases t)
    case (TryFull m')
    with t1 have "m' = m" "accepted w1 = accepted w" by auto
    with TryFull t assms(2) env_send [OF assms(1), of q m w1 r w'] show ?thesis
      by (simp add: send_to_peer_queue_def)
  qed (use t t1 assms(2) in \<open>auto simp: send_to_peer_queue_def\<close>)
qed

text \<open>The cached path is the uncached path to the cached peer.\<close>

definition cached_target :: "peer_identity option \<Rightarrow> 's generic_backend \<Rightarrow> (peer_identity \<times> nat) option" where
  "cached_target expected b =
     (case single_peer b of
        Some (k, q) \<Rightarrow>
          if peer_count b = 1 \<and> (case expected of Some e \<Rightarrow> k = e | None \<Rightarrow> True) then Some (k, q) else None
      | None \<Rightarrow> None)"

lemma cached_send_eq:
  "(case try_send_cached_single_peer env m expected (b, w) of (cached, w') \<Rightarrow>
      finish_cached_send env cached (b, w')) =
   (case cached_target expected b of
      None \<Rightarrow> (Ok (ResolvedMiss m), b, w)
    | Some (k, q) \<Rightarrow>
        (case send_to_peer_queue env q m w of
           (True, w') \<Rightarrow> (Ok ResolvedSent, b, w')
         | (False, w') \<Rightarrow> (Err send_error, generic_peer_disconnected env k (b, w'))))"
  by (auto simp: try_send_cached_single_peer_def finish_cached_send_def cached_target_def
      send_to_peer_queue_def split: option.splits prod.splits try_send_result.splits bool.splits)

lemma send_round_robin_eq:
  "send_round_robin env m (b, w) =
   (case cached_target None b of
      None \<Rightarrow> round_robin_loop env m (round_robin b) (b, w)
    | Some (k, q) \<Rightarrow>
        (case send_to_peer_queue env q m w of
           (True, w') \<Rightarrow> (Ok (), b, w')
         | (False, w') \<Rightarrow> (Err send_error, generic_peer_disconnected env k (b, w'))))"
  using cached_send_eq [where env = env and m = m and expected = None and b = b and w = w]
  by (auto simp: send_round_robin_def split: prod.splits option.splits bool.splits)

lemma send_to_peer_eq:
  "send_to_peer env p m (b, w) =
   (case cached_target (Some p) b of
      None \<Rightarrow>
        (case peers b p of
           None \<Rightarrow> (Err (ErrOther ''Destination client not found by identity''), b, w)
         | Some q \<Rightarrow>
             (case send_to_peer_queue env q m w of
                (True, w') \<Rightarrow> (Ok (), b, w')
              | (False, w') \<Rightarrow> (Err send_error, generic_peer_disconnected env p (b, w'))))
    | Some (k, q) \<Rightarrow>
        (case send_to_peer_queue env q m w of
           (True, w') \<Rightarrow> (Ok (), b, w')
         | (False, w') \<Rightarrow> (Err send_error, generic_peer_disconnected env k (b, w'))))"
  using cached_send_eq [where env = env and m = m and expected = "Some p" and b = b and w = w]
  by (auto simp: send_to_peer_def split: prod.splits option.splits bool.splits)

text \<open>With a coherent cache the cached entry is the peer's own entry.\<close>

lemma cached_target_peers:
  assumes "cache_ok b" and "cached_target e b = Some (k, q)"
  shows "peers b = [k \<mapsto> q]" and "e = Some p \<Longrightarrow> k = p"
  using assms by (auto simp: cache_ok_def cached_target_def split: option.splits if_splits prod.splits)

lemma round_robin_loop_single:
  assumes "peers b = [k \<mapsto> q]" and "k \<in> set rr"
  shows "\<exists>rr'. round_robin_loop env m rr (b, w) =
    (case send_to_peer_queue env q m w of
       (True, w') \<Rightarrow> (Ok (), b \<lparr> round_robin := rr' \<rparr>, w')
     | (False, w') \<Rightarrow> (Err send_error, generic_peer_disconnected env k (b \<lparr> round_robin := rr' \<rparr>, w')))"
  using assms(2)
proof (induction rr)
  case (Cons p rr)
  show ?case
  proof (cases "p = k")
    case True
    obtain r w' where "send_to_peer_queue env q m w = (r, w')" by fastforce
    with True assms(1) show ?thesis by (cases r) auto
  next
    case False
    with Cons assms(1) show ?thesis by simp
  qed
qed simp

lemma disconnected_round_robin:
  "generic_peer_disconnected env p (b \<lparr> round_robin := rr \<rparr>, w)
    = (case generic_peer_disconnected env p (b, w) of (b', w') \<Rightarrow> (b' \<lparr> round_robin := rr \<rparr>, w'))"
  by (cases "peers b p")
    (simp_all add: generic_peer_disconnected_def refresh_single_peer_cache_def notify_disconnect_def Let_def
      split: option.splits)

text \<open>What a turn of the round robin does, on every branch.\<close>

lemma round_robin_loop_spec:
  assumes "env_ok env accepted written" and "round_robin_loop env m rr (b, w) = (r, b', w')"
  shows "case r of
      Inr _ \<Rightarrow> \<exists>k q. k \<in> set rr \<and> peers b k = Some q \<and> peers b' = peers b
        \<and> accepted w' = (accepted w)(q := accepted w q @ [m])
    | Inl e \<Rightarrow> accepted w' = accepted w
        \<and> ((set rr \<inter> dom (peers b) = {} \<and> e = not_connected m \<and> peers b' = peers b)
          \<or> (\<exists>k \<in> set rr \<inter> dom (peers b). e = send_error \<and> peers b' = (peers b)(k := None)))"
  using assms(2)
proof (induction rr)
  case Nil
  then show ?case by auto
next
  case (Cons p rr)
  show ?case
  proof (cases "peers b p")
    case None
    with Cons have "round_robin_loop env m rr (b, w) = (r, b', w')" by simp
    from Cons.IH [OF this] None show ?thesis by (auto split: sum.splits)
  next
    case (Some q)
    obtain ok w1 where s: "send_to_peer_queue env q m w = (ok, w1)" by fastforce
    note acc = send_to_peer_queue_accepted [OF assms(1) s]
    show ?thesis
    proof (cases ok)
      case True
      with Cons.prems Some s acc show ?thesis by (auto intro!: exI [of _ p] exI [of _ q])
    next
      case False
      with Cons.prems Some s have r: "r = Err send_error"
        "(b', w') = generic_peer_disconnected env p (b \<lparr> round_robin := rr \<rparr>, w1)" by auto
      from arg_cong [OF r(2), of "\<lambda>x. peers (fst x)"] arg_cong [OF r(2), of "\<lambda>x. accepted (snd x)"]
      have "peers b' = (peers b)(p := None)" "accepted w' = accepted w"
        using acc False disconnected_accepted [OF assms(1), of p "b \<lparr> round_robin := rr \<rparr>" w1] by auto
      with r Some show ?thesis by auto
    qed
  qed
qed

lemma generic_wf_round_robin:
  "generic_wf b \<Longrightarrow> dom (peers b) \<subseteq> set rr \<Longrightarrow> generic_wf (b \<lparr> round_robin := rr \<rparr>)"
  by (simp add: generic_wf_def)

lemma round_robin_loop_wf:
  assumes "round_robin_loop env m rr (b, w) = (r, b', w')" and "finite (dom (peers b))"
    and "dom (peers b) \<subseteq> set rr" and "generic_wf b"
  shows "generic_wf b'"
  using assms(1,3)
proof (induction rr)
  case Nil
  with assms(4) show ?case by (auto intro!: generic_wf_round_robin)
next
  case (Cons p rr)
  show ?case
  proof (cases "peers b p")
    case None
    with Cons.prems have "round_robin_loop env m rr (b, w) = (r, b', w')" "dom (peers b) \<subseteq> set rr"
      by auto
    then show ?thesis by (rule Cons.IH)
  next
    case (Some q)
    obtain ok w1 where s: "send_to_peer_queue env q m w = (ok, w1)" by fastforce
    show ?thesis
    proof (cases ok)
      case True
      with Cons.prems(1) Some s have "b' = b \<lparr> round_robin := rr @ [p] \<rparr>" by auto
      with Cons.prems(2) generic_wf_round_robin [OF assms(4), of "rr @ [p]"] show ?thesis by simp
    next
      case False
      with Cons.prems(1) Some s
      have b': "b' = fst (generic_peer_disconnected env p (b \<lparr> round_robin := rr \<rparr>, w1))"
        by (cases "generic_peer_disconnected env p (b \<lparr> round_robin := rr \<rparr>, w1)") simp
      have "generic_wf (b \<lparr> round_robin := p # rr \<rparr>)"
        using assms(4) Cons.prems(2) by (intro generic_wf_round_robin)
      then have "generic_wf (fst (generic_peer_disconnected env p (b \<lparr> round_robin := p # rr \<rparr>, w1)))"
        using generic.disconnected_invar [of "(b \<lparr> round_robin := p # rr \<rparr>, w1)" env p] by simp
      then show ?thesis unfolding b' using Cons.prems(2) by (simp add: generic_wf_def) blast
    qed
  qed
qed

lemma cache_ok_unique:
  assumes "cache_ok b" and "cache_ok (b \<lparr> peer_count := n, single_peer := s \<rparr>)"
  shows "b \<lparr> peer_count := n, single_peer := s \<rparr> = b"
proof -
  have "s = single_peer b"
  proof (cases s)
    case None
    with assms show ?thesis by (cases "single_peer b") (auto simp: cache_ok_def)
  next
    case (Some kq)
    with assms show ?thesis by (cases kq) (auto simp: cache_ok_def, metis)
  qed
  moreover have "n = peer_count b" using assms by (simp add: cache_ok_def)
  ultimately show ?thesis by simp
qed

lemma refresh_idle:
  assumes "env_ok env accepted written" and "finite (dom (peers b))" and "cache_ok b"
  shows "refresh_single_peer_cache env (b, w) = (b, w)"
proof -
  obtain n s where r: "refresh_single_peer_cache env (b, w) = (b \<lparr> peer_count := n, single_peer := s \<rparr>, w)"
    by (auto simp: refresh_single_peer_cache_def Let_def)
  with refresh_cache_ok [OF assms(1,2), of w] have "cache_ok (b \<lparr> peer_count := n, single_peer := s \<rparr>)"
    by simp
  with cache_ok_unique [OF assms(3)] r show ?thesis by simp
qed

lemma disconnected_absent:
  assumes "env_ok env accepted written" and "finite (dom (peers b))" and "cache_ok b"
    and "peers b p = None" and "disconnect_notifiers b p = None"
    and "\<forall>fq. fair_queue_inner b = Some fq \<longrightarrow> queue_remove p fq = fq"
  shows "generic_peer_disconnected env p (b, w) = (b, w)"
proof -
  have "b \<lparr> peers := (peers b)(p := None) \<rparr> = b" using assms(4) by (simp add: fun_upd_idem)
  moreover have "map_option (queue_remove p) (fair_queue_inner b) = fair_queue_inner b"
    using assms(6) by (cases "fair_queue_inner b") auto
  then have "b \<lparr> fair_queue_inner := map_option (queue_remove p) (fair_queue_inner b) \<rparr> = b" by simp
  ultimately show ?thesis
    using refresh_idle [OF assms(1-3), of w] assms(4,5)
    by (simp add: generic_peer_disconnected_def notify_disconnect_def Let_def)
qed

lemma run_cache_ok:
  assumes "env_ok env accepted written" and "generic_wf (fst bw)" and "cache_ok (fst bw)"
  shows "cache_ok (fst (fold (apply_event (generic_peer_connected env) (generic_peer_disconnected env)
    generic_shutdown) es bw))"
  using assms(2,3)
proof (induction es arbitrary: bw)
  case (Cons e es)
  let ?step = "apply_event (generic_peer_connected env) (generic_peer_disconnected env) generic_shutdown e bw"
  obtain b w where bw: "bw = (b, w)" by fastforce
  have fin: "finite (dom (peers b))" using Cons.prems(1) by (simp add: bw generic_wf_def)
  have "cache_ok (fst ?step)"
    using connected_cache_ok [OF assms(1) fin] disconnected_cache_ok [OF assms(1) fin]
    by (cases e) (simp_all add: bw shutdown_cache_ok)
  moreover have "generic_wf (fst ?step)" using generic.step_invar [OF Cons.prems(1)] .
  ultimately show ?case using Cons.IH by simp
qed simp

lemma cached_target_empty:
  "cache_ok b \<Longrightarrow> peers b = Map.empty \<Longrightarrow> cached_target e b = None"
  using cached_target_peers [of b e] by (cases "cached_target e b") (auto simp: singleton_map_iff)

lemma round_robin_loop_cache_ok:
  assumes "env_ok env accepted written" and "round_robin_loop env m rr (b, w) = (r, b', w')"
    and "finite (dom (peers b))" and "cache_ok b"
  shows "cache_ok b'"
  using assms(2)
proof (induction rr)
  case Nil
  with assms(4) show ?case by auto
next
  case (Cons p rr)
  show ?case
  proof (cases "peers b p")
    case None
    with Cons show ?thesis by simp
  next
    case (Some q)
    obtain ok w1 where s: "send_to_peer_queue env q m w = (ok, w1)" by fastforce
    show ?thesis
    proof (cases ok)
      case True
      with Cons.prems Some s assms(4) show ?thesis by auto
    next
      case False
      with Cons.prems Some s have "b' = fst (generic_peer_disconnected env p (b \<lparr> round_robin := rr \<rparr>, w1))"
        by (cases "generic_peer_disconnected env p (b \<lparr> round_robin := rr \<rparr>, w1)") simp
      with disconnected_cache_ok [OF assms(1), of "b \<lparr> round_robin := rr \<rparr>" p w1] assms(3)
      show ?thesis by simp
    qed
  qed
qed

text \<open>Sending through the cache to the only peer, in the terms of the round robin.\<close>

lemma cached_send_spec:
  assumes "env_ok env accepted written" and "generic_wf b" and "peers b = [k \<mapsto> q]" and "cache_ok b"
    and "(case send_to_peer_queue env q m w of
       (True, w') \<Rightarrow> (Ok (), b, w')
     | (False, w') \<Rightarrow> (Err send_error, generic_peer_disconnected env k (b, w'))) = (r, b', w')"
  shows "generic_wf b' \<and> cache_ok b' \<and> (case r of
      Inr _ \<Rightarrow> peers b' = peers b \<and> accepted w' = (accepted w)(q := accepted w q @ [m])
    | Inl e \<Rightarrow> accepted w' = accepted w \<and> e = send_error \<and> peers b' = (peers b)(k := None))"
proof -
  obtain ok w1 where s: "send_to_peer_queue env q m w = (ok, w1)" by fastforce
  note acc = send_to_peer_queue_accepted [OF assms(1) s]
  have fin: "finite (dom (peers b))" using assms(2) by (simp add: generic_wf_def)
  show ?thesis
  proof (cases ok)
    case True
    with s assms acc show ?thesis by auto
  next
    case False
    with s assms(5) have r: "r = Err send_error" "(b', w') = generic_peer_disconnected env k (b, w1)"
      by auto
    have "generic_wf (fst (generic_peer_disconnected env k (b, w1)))"
      using generic.disconnected_invar [of "(b, w1)"] assms(2) by simp
    with r disconnected_cache_ok [OF assms(1) fin, of k w1] disconnected_accepted [OF assms(1), of k b w1]
      disconnected_fields(1) [of env k b w1] acc False
    show ?thesis unfolding r(2) [symmetric] by simp
  qed
qed

section \<open>Properties\<close>


lemma two_peers: "insert [2] (insert [1] {}) - {[1]} = {[2 :: byte]}"
  by auto


text \<open>Disconnecting a peer a second time changes nothing and reports nothing: the monitor gets one
  event and the reconnection task one notification per connection.\<close>

theorem generic_disconnect_once:
  assumes "env_ok env accepted written" and "generic_wf b"
  shows "generic_peer_disconnected env p (generic_peer_disconnected env p (b, w))
    = generic_peer_disconnected env p (b, w)"
proof -
  obtain b1 w1 where d: "generic_peer_disconnected env p (b, w) = (b1, w1)" by fastforce
  have fin: "finite (dom (peers b))" using assms(2) by (simp add: generic_wf_def)
  have b1: "peers b1 = (peers b)(p := None)" "disconnect_notifiers b1 p = None"
      "fair_queue_inner b1 = map_option (queue_remove p) (fair_queue_inner b)"
    using disconnected_fields [of env p b w] d by simp_all
  have "cache_ok b1" using disconnected_cache_ok [OF assms(1) fin, of p w] d by simp
  moreover have "\<forall>fq. fair_queue_inner b1 = Some fq \<longrightarrow> queue_remove p fq = fq"
    unfolding b1(3) by (cases "fair_queue_inner b") simp_all
  moreover have "finite (dom (peers b1))" "peers b1 p = None" using b1(1) fin by simp_all
  ultimately show ?thesis unfolding d using b1(2) disconnected_absent [OF assms(1)] by blast
qed

theorem generic_disconnect_once_witness:
  "let b = fst (generic_peer_connected (sample_env [] []) [1] \<lparr> read_half = (), write_half = 0 \<rparr>
        (generic_with_options None PUSH options_default, (\<lambda>_. [], \<lambda>_. [], 0)));
       d = generic_peer_disconnected (sample_env [] []) [1]
   in d (d (b, (\<lambda>_. [], \<lambda>_. [], 1))) = d (b, (\<lambda>_. [], \<lambda>_. [], 1))"
proof -
  define b0 where "b0 = (generic_with_options None PUSH options_default :: unit generic_backend)"
  define b where "b = fst (generic_peer_connected (sample_env [] []) [1]
    \<lparr> read_half = (), write_half = 0 \<rparr> (b0, (\<lambda>_. [], \<lambda>_. [], 0)))"
  have "generic_wf (fst (b0, ((\<lambda>_. [], \<lambda>_. [], 0) :: (nat \<Rightarrow> message list) \<times> (nat \<Rightarrow> message list) \<times> nat)))"
    by (simp add: b0_def generic_wf_new)
  from generic.connected_invar [OF this, of "sample_env [] []" "[1]" "\<lparr> read_half = (), write_half = 0 \<rparr>"]
  have "generic_wf b" by (simp only: b_def)
  then show ?thesis unfolding Let_def b0_def [symmetric] b_def [symmetric]
    by (rule generic_disconnect_once [OF sample_env_ok])
qed

text \<open>A message sent by round robin goes, when the send succeeds, to the queue of exactly one connected
  peer. When it fails no queue has accepted the message: without peers it is returned to the sender,
  otherwise one peer, whose queue is broken, has been disconnected. The invariants are kept.\<close>

theorem send_round_robin_delivers:
  assumes "env_ok env accepted written" and "generic_wf b" and "cache_ok b"
    and "send_round_robin env m (b, w) = (r, b', w')"
  shows "generic_wf b' \<and> cache_ok b' \<and> (case r of
      Inr _ \<Rightarrow> \<exists>k q. peers b k = Some q \<and> peers b' = peers b
        \<and> accepted w' = (accepted w)(q := accepted w q @ [m])
    | Inl e \<Rightarrow> accepted w' = accepted w
        \<and> (if peers b = Map.empty then e = not_connected m \<and> peers b' = peers b
           else \<exists>k \<in> dom (peers b). e = send_error \<and> peers b' = (peers b)(k := None)))"
proof (cases "cached_target None b")
  case None
  then have run: "round_robin_loop env m (round_robin b) (b, w) = (r, b', w')"
    using assms(4) by (simp add: send_round_robin_eq)
  have fin: "finite (dom (peers b))" and sub: "dom (peers b) \<subseteq> set (round_robin b)"
    using assms(2) by (simp_all add: generic_wf_def)
  then have inter: "set (round_robin b) \<inter> dom (peers b) = dom (peers b)" by blast
  have "peers b = Map.empty \<longleftrightarrow> dom (peers b) = {}" by simp
  with round_robin_loop_spec [OF assms(1) run] round_robin_loop_wf [OF run fin sub assms(2)]
    round_robin_loop_cache_ok [OF assms(1) run fin assms(3)] show ?thesis
    unfolding inter by (auto split: sum.splits)
next
  case (Some kq)
  obtain k q where kq: "kq = (k, q)" by fastforce
  with cached_target_peers [OF assms(3)] Some have p: "peers b = [k \<mapsto> q]" by blast
  from Some kq assms(4) cached_send_spec [OF assms(1,2) p assms(3), of m w r b' w'] p
  show ?thesis by (auto simp: send_round_robin_eq split: sum.splits)
qed

theorem send_round_robin_delivers_witness:
  "let b = (generic_with_options None PUSH options_default :: unit generic_backend);
       m = Message_Message \<lparr> frames = [[42]] \<rparr>
   in fst (send_round_robin (sample_env [] []) m (b, (\<lambda>_. [], \<lambda>_. [], 0))) = Err (not_connected m)
      \<and> peers b = Map.empty"
proof -
  define b where "b = (generic_with_options None PUSH options_default :: unit generic_backend)"
  define m where "m = Message_Message \<lparr> frames = [[42]] \<rparr>"
  define x where "x = send_round_robin (sample_env [] []) m (b, (\<lambda>_. [], \<lambda>_. [], 0))"
  have "peers b = Map.empty" "generic_wf b" "cache_ok b"
    by (simp_all add: b_def generic_wf_new cache_ok_new) (simp add: generic_with_options_def)
  with send_round_robin_delivers [OF sample_env_ok, of b "[]" "[]" m "(\<lambda>_. [], \<lambda>_. [], 0)" "fst x"
      "fst (snd x)" "snd (snd x)"]
  have "case fst x of Inr _ \<Rightarrow> False | Inl e \<Rightarrow> e = not_connected m"
    by (auto simp: x_def split: sum.splits)
  then show ?thesis
    using \<open>peers b = Map.empty\<close> unfolding Let_def b_def [symmetric] m_def [symmetric] x_def [symmetric]
    by (auto split: sum.splits)
qed

text \<open>C21: The single-peer cache is transparent for the round robin: with a coherent cache the result of a
  send, its effect on the channels, the peers, the monitor and the notifiers are those of the plain
  round-robin loop; only the order of the rotation may differ.\<close>

theorem single_peer_cache_transparent:
  assumes "generic_wf b" and "cache_ok b"
  shows "case (send_round_robin env m (b, w), round_robin_loop env m (round_robin b) (b, w)) of
    ((r1, b1, w1), (r2, b2, w2)) \<Rightarrow> r1 = r2 \<and> w1 = w2 \<and> b1 \<lparr> round_robin := [] \<rparr> = b2 \<lparr> round_robin := [] \<rparr>"
proof (cases "cached_target None b")
  case None
  then show ?thesis by (simp add: send_round_robin_eq split: prod.splits)
next
  case (Some kq)
  obtain k q where kq: "kq = (k, q)" by fastforce
  with cached_target_peers [OF assms(2)] Some have p: "peers b = [k \<mapsto> q]" by blast
  then have "k \<in> set (round_robin b)" using assms(1) by (auto simp: generic_wf_def)
  from round_robin_loop_single [where env = env and m = m and w = w, OF p this] obtain rr' where
    loop: "round_robin_loop env m (round_robin b) (b, w) =
      (case send_to_peer_queue env q m w of
         (True, w') \<Rightarrow> (Ok (), b \<lparr> round_robin := rr' \<rparr>, w')
       | (False, w') \<Rightarrow> (Err send_error, generic_peer_disconnected env k (b \<lparr> round_robin := rr' \<rparr>, w')))"
    by blast
  show ?thesis
    unfolding send_round_robin_eq Some kq loop disconnected_round_robin
    by (simp split: prod.splits bool.splits)
qed

theorem single_peer_cache_transparent_witness:
  "let b = (generic_with_options None PUSH options_default :: unit generic_backend) \<lparr>
             peers := [[1] \<mapsto> 0], round_robin := [[1]], single_peer := Some ([1], 0), peer_count := 1 \<rparr>;
       m = Message_Message \<lparr> frames = [[42]] \<rparr>; w = (\<lambda>_. [], \<lambda>_. [], 0)
   in fst (send_round_robin (sample_env [] []) m (b, w))
     = fst (round_robin_loop (sample_env [] []) m (round_robin b) (b, w))"
proof -
  define b where "b = (generic_with_options None PUSH options_default :: unit generic_backend) \<lparr>
    peers := [[1] \<mapsto> 0], round_robin := [[1]], single_peer := Some ([1], 0), peer_count := 1 \<rparr>"
  have "generic_wf b" "cache_ok b"
    by (auto simp: b_def generic_with_options_def generic_wf_def cache_ok_def singleton_map_iff)
  with single_peer_cache_transparent [of b "sample_env [] []" "Message_Message \<lparr> frames = [[42]] \<rparr>"
      "(\<lambda>_. [], \<lambda>_. [], 0)"]
  show ?thesis unfolding Let_def b_def [symmetric] by (auto split: prod.splits)
qed

text \<open>A message addressed to a peer is queued for that peer and nobody else, with or without the
  single-peer cache; an unknown identity is an error without any effect, and a peer whose queue is broken
  is disconnected.\<close>

theorem send_to_peer_routes:
  assumes "cache_ok b"
  shows "send_to_peer env p m (b, w) =
    (case peers b p of
       None \<Rightarrow> (Err (ErrOther ''Destination client not found by identity''), b, w)
     | Some q \<Rightarrow>
         (case send_to_peer_queue env q m w of
            (True, w') \<Rightarrow> (Ok (), b, w')
          | (False, w') \<Rightarrow> (Err send_error, generic_peer_disconnected env p (b, w'))))"
proof (cases "cached_target (Some p) b")
  case (Some kq)
  obtain k q where kq: "kq = (k, q)" by fastforce
  with cached_target_peers [OF assms] Some have "peers b = [k \<mapsto> q]" "k = p" by blast+
  with Some kq show ?thesis by (simp add: send_to_peer_eq)
qed (simp add: send_to_peer_eq)

theorem send_to_peer_routes_witness:
  "let b = (generic_with_options None ROUTER options_default :: unit generic_backend); w = (\<lambda>_. [], \<lambda>_. [], 0)
   in send_to_peer (sample_env [] []) [7] (Message_Message \<lparr> frames = [[42]] \<rparr>) (b, w)
     = (Err (ErrOther ''Destination client not found by identity''), b, w)"
proof -
  have "peers (generic_with_options None ROUTER options_default :: unit generic_backend) [7] = None"
    by (simp add: generic_with_options_def)
  then show ?thesis unfolding Let_def by (subst send_to_peer_routes [OF cache_ok_new]) simp
qed

lemma all_less_two: "(\<forall>i < Suc (Suc 0). P i) \<longleftrightarrow> P 0 \<and> P 1"
  by (auto simp: less_Suc_eq)

text \<open>Sending a list of messages one after the other.\<close>

fun send_all ::
    "'w env \<Rightarrow> message list \<Rightarrow> 's generic_backend \<times> 'w \<Rightarrow> unit zmq_result list \<times> 's generic_backend \<times> 'w" where
  "send_all env [] bw = ([], bw)"
| "send_all env (m # ms) bw =
     (case send_round_robin env m bw of (r, bw') \<Rightarrow>
        (case send_all env ms bw' of (rs, bw'') \<Rightarrow> (r # rs, bw'')))"

text \<open>One turn of the rotation: each entry takes one message.\<close>

lemma send_all_rotation:
  assumes "env_ok env accepted written" and "\<And>h m w. fst (send_to_peer_queue env h m w)"
    and "peer_count b \<noteq> 1" and "length ms = length ks" and "set ks \<subseteq> dom (peers b)"
  shows "\<exists>w'. send_all env ms (b \<lparr> round_robin := ks @ done \<rparr>, w)
      = (replicate (length ms) (Ok ()), b \<lparr> round_robin := done @ ks \<rparr>, w')
    \<and> (\<forall>h. accepted w' h = accepted w h @ map snd (filter (\<lambda>(k, m). peers b k = Some h) (zip ks ms)))"
  using assms(4,5)
proof (induction ks arbitrary: ms "done" w)
  case (Cons k ks)
  obtain m ms' where ms: "ms = m # ms'" using Cons.prems(1) by (cases ms) auto
  from Cons.prems(2) obtain q where q: "peers b k = Some q" by auto
  obtain w1 where s: "send_to_peer_queue env q m w = (True, w1)" using assms(2) [of q m w] by (metis prod.collapse)
  have "cached_target None (b \<lparr> round_robin := k # ks @ done \<rparr>) = None"
    using assms(3) by (simp add: cached_target_def split: option.splits)
  then have step: "send_round_robin env m (b \<lparr> round_robin := k # ks @ done \<rparr>, w)
      = (Ok (), b \<lparr> round_robin := ks @ (done @ [k]) \<rparr>, w1)"
    using q s by (simp add: send_round_robin_eq)
  from Cons.IH [of ms' "done @ [k]" w1] Cons.prems ms obtain w2 where
    "send_all env ms' (b \<lparr> round_robin := ks @ (done @ [k]) \<rparr>, w1)
        = (replicate (length ms') (Ok ()), b \<lparr> round_robin := done @ k # ks \<rparr>, w2)"
    "\<forall>h. accepted w2 h = accepted w1 h @ map snd (filter (\<lambda>(k, m). peers b k = Some h) (zip ks ms'))" by auto
  with step send_to_peer_queue_accepted [OF assms(1) s] q ms show ?case by auto
qed simp

lemma filter_zip_unique:
  fixes xs :: "'x list"
  assumes "distinct ks" and "length xs = length ks" and "i < length ks"
    and "\<And>j. j < length ks \<Longrightarrow> P (ks ! j) \<longleftrightarrow> j = i"
  shows "map snd (filter (\<lambda>(k, x). P k) (zip ks xs)) = [xs ! i]"
proof -
  have none: "map snd (filter (\<lambda>(k, x). P k) (zip ls ys)) = []" if "\<forall>k \<in> set ls. \<not> P k" for ls and ys :: "'x list"
    using that by (auto simp: filter_empty_conv dest: set_zip_leftD)
  have ks: "ks = take i ks @ ks ! i # drop (Suc i) ks" "xs = take i xs @ xs ! i # drop (Suc i) xs"
    using assms(2,3) by (simp_all add: id_take_nth_drop)
  have no: "\<forall>k \<in> set (take i ks). \<not> P k" "\<forall>k \<in> set (drop (Suc i) ks). \<not> P k"
    using assms(3,4) by (auto simp: in_set_conv_nth)
  have "length (take i ks) = length (take i xs)" using assms(2) by simp
  then show ?thesis
    using assms(3,4) none [OF no(1)] none [OF no(2)] by (subst ks(1), subst ks(2)) (simp add: zip_append)
qed

text \<open>Load balancing. While no queue is broken, as many messages as there are peers (two or more) are
  spread one to each peer, in the order of the rotation, and the rotation is then as before.\<close>

theorem round_robin_balances:
  assumes "env_ok env accepted written" and "cache_ok b"
    and "\<And>h m w. fst (send_to_peer_queue env h m w)"
    and "distinct (round_robin b)" and "set (round_robin b) = dom (peers b)"
    and "inj_on (\<lambda>k. the (peers b k)) (dom (peers b))"
    and "2 \<le> length (round_robin b)" and "length ms = length (round_robin b)"
  shows "\<exists>w'. send_all env ms (b, w) = (replicate (length ms) (Ok ()), b, w')
    \<and> (\<forall>i < length ms. accepted w' (the (peers b (round_robin b ! i)))
        = accepted w (the (peers b (round_robin b ! i))) @ [ms ! i])"
proof -
  let ?ks = "round_robin b"
  have "peer_count b \<noteq> 1" using assms(2,4,5,7) distinct_card [of ?ks] by (simp add: cache_ok_def)
  from send_all_rotation [OF assms(1,3) this assms(8), of "[]" w] assms(5) obtain w' where
    w': "send_all env ms (b, w) = (replicate (length ms) (Ok ()), b, w')"
      "\<forall>h. accepted w' h = accepted w h @ map snd (filter (\<lambda>(k, m). peers b k = Some h) (zip ?ks ms))" by auto
  have "accepted w' (the (peers b (?ks ! i))) = accepted w (the (peers b (?ks ! i))) @ [ms ! i]" if i: "i < length ms" for i
  proof -
    have "peers b (?ks ! j) = Some (the (peers b (?ks ! i))) \<longleftrightarrow> j = i" if j: "j < length ?ks" for j
    proof -
      have d: "?ks ! j \<in> dom (peers b)" "?ks ! i \<in> dom (peers b)" using assms(5,8) i j nth_mem by (metis, metis)
      then have "peers b (?ks ! j) = Some (the (peers b (?ks ! i))) \<longleftrightarrow> the (peers b (?ks ! j)) = the (peers b (?ks ! i))" by auto
      also have "\<dots> \<longleftrightarrow> ?ks ! j = ?ks ! i" using inj_onD [OF assms(6) _ d] by auto
      finally show ?thesis using assms(4,8) i j by (simp add: nth_eq_iff_index_eq)
    qed
    from filter_zip_unique [OF assms(4,8) _ this] i assms(8) w'(2) show ?thesis by simp
  qed
  with w'(1) show ?thesis by blast
qed

theorem round_robin_balances_witness:
  "let b = (generic_with_options None PUSH options_default :: unit generic_backend) \<lparr>
             peers := [[1] \<mapsto> 0, [2] \<mapsto> 1], round_robin := [[2], [1]], peer_count := 2 \<rparr>;
       m1 = Message_Message \<lparr> frames = [[41]] \<rparr>; m2 = Message_Message \<lparr> frames = [[42]] \<rparr>
   in \<exists>w'. send_all (sample_env [] []) [m1, m2] (b, (\<lambda>_. [], \<lambda>_. [], 2)) = ([Ok (), Ok ()], b, w')
     \<and> fst w' 1 = [m1] \<and> fst w' 0 = [m2]"
proof -
  define b where "b = (generic_with_options None PUSH options_default :: unit generic_backend) \<lparr>
    peers := [[1] \<mapsto> 0, [2] \<mapsto> 1], round_robin := [[2], [1]], peer_count := 2 \<rparr>"
  define m1 m2 where "m1 = Message_Message \<lparr> frames = [[41]] \<rparr>" and "m2 = Message_Message \<lparr> frames = [[42]] \<rparr>"
  have fields: "peers b = [[1] \<mapsto> 0, [2] \<mapsto> 1]" "round_robin b = [[2], [1]]" by (simp_all add: b_def)
  have cache: "cache_ok b" by (auto simp: b_def generic_with_options_def cache_ok_def singleton_map_iff)
  have ok: "fst (send_to_peer_queue (sample_env [] []) h m w)" for h m w
    by (cases w) (simp add: send_to_peer_queue_def)
  have "\<exists>w'. send_all (sample_env [] []) [m1, m2] (b, (\<lambda>_. [], \<lambda>_. [], 2))
      = (replicate (length [m1, m2]) (Ok ()), b, w')
    \<and> (\<forall>i < length [m1, m2]. fst w' (the (peers b (round_robin b ! i)))
        = fst ((\<lambda>_. [], \<lambda>_. [], 2) :: (nat \<Rightarrow> message list) \<times> (nat \<Rightarrow> message list) \<times> nat)
            (the (peers b (round_robin b ! i))) @ [[m1, m2] ! i])"
    by (rule round_robin_balances [OF sample_env_ok cache ok]) (auto simp: fields)
  then show ?thesis
    unfolding Let_def b_def [symmetric] m1_def [symmetric] m2_def [symmetric]
    by (auto simp: fields all_less_two)
qed

text \<open>A peer that reconnects under its identity gets a double share. The rotation still has the entry of the
  lost connection when the new one enters another, and the old entry is valid again: of every three messages two go to
  the peer that reconnected and one to the peer that never left, in every turn, for the rotation stays as it is.\<close>

theorem reconnect_doubles_share:
  assumes "env_ok env accepted written" and "\<And>h m w. fst (send_to_peer_queue env h m w)" and "k \<noteq> l"
    and "b0 = generic_with_options fq t opts"
    and "(b, w) = fold (apply_event (generic_peer_connected env) (generic_peer_disconnected env) generic_shutdown)
      [PeerConnected k io1, PeerConnected l io2, PeerDisconnected k, PeerConnected k io3] (b0, w0)"
    and "peers b k = Some qk" and "peers b l = Some ql" and "qk \<noteq> ql"
  shows "round_robin b = [k, l, k] \<and> dom (peers b) = {k, l}
    \<and> (\<exists>w'. send_all env [m1, m2, m3] (b, w) = ([Ok (), Ok (), Ok ()], b, w')
        \<and> accepted w' qk = accepted w qk @ [m1, m3] \<and> accepted w' ql = accepted w ql @ [m2])"
proof -
  obtain b1 w1 b2 w2 b3 w3 where
    1: "generic_peer_connected env k io1 (b0, w0) = (b1, w1)" and 2: "generic_peer_connected env l io2 (b1, w1) = (b2, w2)"
    and 3: "generic_peer_disconnected env k (b2, w2) = (b3, w3)" by (meson surj_pair)
  with assms(5) have b: "b = fst (generic_peer_connected env k io3 (b3, w3))" by (simp add: prod_eq_iff)
  have f1: "round_robin b1 = [k]" "dom (peers b1) = {k}"
  proof -
    have "round_robin b0 = []" "dom (peers b0) = {}" using assms(4) by (simp_all add: generic_with_options_def)
    with connected_fields [of env k io1 b0 w0] 1 show "round_robin b1 = [k]" "dom (peers b1) = {k}" by simp_all
  qed
  have f2: "round_robin b2 = [k, l]" "dom (peers b2) = {k, l}" using connected_fields [of env l io2 b1 w1] 2 f1 by auto
  have f3: "round_robin b3 = [k, l]" "dom (peers b3) = {l}"
    using disconnected_fields [of env k b2 w2] 3 f2 assms(3) by auto
  have rr: "round_robin b = [k, l, k]" and dom: "dom (peers b) = {k, l}"
    using connected_fields [of env k io3 b3 w3] f3 b by simp_all
  have "cache_ok b" using connected_cache_ok [OF assms(1), of b3 k io3 w3] f3(2) b by simp
  then have "peer_count b \<noteq> 1" using dom assms(3) by (simp add: cache_ok_def)
  moreover have "b \<lparr> round_robin := [k, l, k] \<rparr> = b" by (simp flip: rr)
  ultimately obtain w' where "send_all env [m1, m2, m3] (b, w) = (replicate (length [m1, m2, m3]) (Ok ()), b, w')"
    "\<forall>h. accepted w' h = accepted w h @ map snd (filter (\<lambda>(k, m). peers b k = Some h) (zip [k, l, k] [m1, m2, m3]))"
    using send_all_rotation [OF assms(1,2), of b "[m1, m2, m3]" "[k, l, k]" "[]" w] dom by auto
  then show ?thesis using rr dom assms(6-8) by (intro conjI exI [of _ w']) auto
qed

theorem reconnect_doubles_share_witness:
  "let io = (\<lparr> read_half = (), write_half = 0 \<rparr> :: unit framed_io); m = (\<lambda>c. Message_Message \<lparr> frames = [[c]] \<rparr>)
   in \<exists>b w w'. (b, w) = fold (apply_event (generic_peer_connected (sample_env [] []))
            (generic_peer_disconnected (sample_env [] [])) generic_shutdown)
          [PeerConnected [1] io, PeerConnected [2] io, PeerDisconnected [1], PeerConnected [1] io]
          (generic_with_options None PUSH options_default, (\<lambda>_. [], \<lambda>_. [], 0))
      \<and> send_all (sample_env [] []) [m 1, m 2, m 3] (b, w) = ([Ok (), Ok (), Ok ()], b, w')
      \<and> fst w' 2 = [m 1, m 3] \<and> fst w' 1 = [m 2]"
proof -
  define io where "io = (\<lparr> read_half = (), write_half = 0 \<rparr> :: unit framed_io)"
  define m where "m = (\<lambda>c. Message_Message \<lparr> frames = [[c]] \<rparr>)"
  let ?env = "sample_env [] []"
  define bw where "bw = fold (apply_event (generic_peer_connected ?env) (generic_peer_disconnected ?env) generic_shutdown)
      [PeerConnected [1] io, PeerConnected [2] io, PeerDisconnected [1], PeerConnected [1] io]
      (generic_with_options None PUSH options_default, (\<lambda>_. [], \<lambda>_. [], 0))"
  have ok: "fst (send_to_peer_queue ?env h m w)" for h m w by (cases w) (simp add: send_to_peer_queue_def)
  have q: "peers (fst bw) [1] = Some 2" "peers (fst bw) [2] = Some 1" "fst (snd bw) = (\<lambda>_. [])"
    by (simp_all add: bw_def generic_peer_connected_def generic_peer_disconnected_def refresh_single_peer_cache_def
        notify_disconnect_def generic_with_options_def monitor_event_def Let_def)
  have "\<exists>w'. send_all ?env [m 1, m 2, m 3] (fst bw, snd bw) = ([Ok (), Ok (), Ok ()], fst bw, w')
      \<and> fst w' 2 = fst (snd bw) 2 @ [m 1, m 3] \<and> fst w' 1 = fst (snd bw) 1 @ [m 2]"
    by (rule conjunct2 [OF conjunct2 [OF reconnect_doubles_share [OF sample_env_ok ok _ refl _ q(1,2)]]])
      (simp_all add: bw_def)
  then obtain w' where "send_all ?env [m 1, m 2, m 3] (fst bw, snd bw) = ([Ok (), Ok (), Ok ()], fst bw, w')"
    "fst w' 2 = [m 1, m 3]" "fst w' 1 = [m 2]" using q(3) by auto
  then show ?thesis
    unfolding Let_def io_def [symmetric] m_def [symmetric] bw_def [symmetric]
    by (intro exI [of _ "fst bw"] exI [of _ "snd bw"] exI [of _ w']) simp
qed

text \<open>A writer task disconnects its peer by identity. When the peer has connected again in the meantime, and the
  writer of the lost connection then fails on what was still queued, it removes the new connection: its queue and its
  stream, although nothing is wrong with them.\<close>

theorem stale_writer_drops_new_connection:
  assumes "(b1, w1) = generic_peer_connected env k io1 (b0, w0)" and "(b2, w2) = generic_peer_connected env k io2 (b1, w1)"
    and "write_queue w2 = (Err error, w3)"
  shows "peers b2 k \<noteq> None \<and> peers (fst (writer_task env k write_queue (b2, w2))) k = None
    \<and> (\<forall>q. fair_queue_inner b0 = Some q \<longrightarrow> (\<exists>q2 q3. fair_queue_inner b2 = Some q2 \<and> streams q2 k = Some (read_half io2)
        \<and> fair_queue_inner (fst (writer_task env k write_queue (b2, w2))) = Some q3 \<and> streams q3 k = None))"
proof -
  have b1: "b1 = fst (generic_peer_connected env k io1 (b0, w0))" using assms(1) by (simp add: prod_eq_iff)
  have b2: "b2 = fst (generic_peer_connected env k io2 (b1, w1))" using assms(2) by (simp add: prod_eq_iff)
  have "k \<in> dom (peers b2)" unfolding b2 connected_fields by simp
  moreover have "writer_task env k write_queue (b2, w2) = generic_peer_disconnected env k (b2, w3)"
    using assms(3) by (simp add: writer_task_def)
  moreover have "fair_queue_inner b2 = map_option (queue_insert k (read_half io2)) (fair_queue_inner b1)"
    "fair_queue_inner b1 = map_option (queue_insert k (read_half io1)) (fair_queue_inner b0)"
    by (simp_all only: b1 b2 connected_fields)
  ultimately show ?thesis by auto
qed

theorem stale_writer_drops_new_connection_witness:
  "\<exists>b w. (b, w) = generic_peer_connected (sample_env [] []) [7] \<lparr> read_half = 2, write_half = 1 \<rparr>
      (generic_peer_connected (sample_env [] []) [7] \<lparr> read_half = 1 :: nat, write_half = 0 \<rparr>
        (generic_with_options (Some queue_new) DEALER options_default, (\<lambda>_. [], \<lambda>_. [], 0)))
    \<and> peers b [7] \<noteq> None
    \<and> peers (fst (writer_task (sample_env [] []) [7] (\<lambda>w. (Err (CodecIo BrokenPipe), w)) (b, w))) [7] = None"
proof -
  let ?env = "sample_env [] []" and ?io1 = "\<lparr> read_half = 1 :: nat, write_half = 0 \<rparr>" and ?io2 = "\<lparr> read_half = 2, write_half = 1 \<rparr>"
  let ?b0 = "generic_with_options (Some queue_new) DEALER options_default"
    and ?w0 = "(\<lambda>_. [], \<lambda>_. [], 0) :: (nat \<Rightarrow> message list) \<times> (nat \<Rightarrow> message list) \<times> nat"
  obtain b1 w1 where 1: "(b1, w1) = generic_peer_connected ?env [7] ?io1 (?b0, ?w0)" by (metis surj_pair)
  obtain b2 w2 where 2: "(b2, w2) = generic_peer_connected ?env [7] ?io2 (b1, w1)" by (metis surj_pair)
  from stale_writer_drops_new_connection [where write_queue = "\<lambda>w. (Err (CodecIo BrokenPipe), w)", OF 1 2 refl] 1 2 show ?thesis
    by (intro exI [of _ b2] exI [of _ w2]) simp
qed

end
