(* ===== verification/Socket_Recv.thy ===== *)
theory Socket_Recv
  imports Environment Fair_Queue
begin

text \<open>
  The receive loop that the sockets with a fair queue share: await the next item of the queue, ignore
  greetings and commands, hand messages and errors to the socket.

  A call of \<open>recv\<close> is modelled as its future is run: \<open>recv_loop\<close> is one poll of it. The loop keeps no state
  across its await, so that polling the future again is calling the function again. It returns \<open>Pending\<close> when the
  queue does; every turn of the loop takes an item out of the queue, and fuel bounds the turns of one poll.
\<close>

type_synonym item = "codec_error + message"
type_synonym 'st poll_item = "'st \<Rightarrow> (peer_identity \<times> item) option poll \<times> 'st"

text \<open>What a socket does with an item: return from \<open>recv\<close>, or go on with the loop.\<close>

datatype 'a handled = Return "'a zmq_result" | Continue

fun recv_loop ::
    "nat \<Rightarrow> 'st poll_item \<Rightarrow> (peer_identity \<Rightarrow> zmq_message \<Rightarrow> 'st \<Rightarrow> 'a handled \<times> 'st)
      \<Rightarrow> (peer_identity \<Rightarrow> codec_error \<Rightarrow> 'st \<Rightarrow> 'a handled \<times> 'st) \<Rightarrow> 'st
      \<Rightarrow> ('a zmq_result poll \<times> 'st) option" where
  "recv_loop 0 poll_item on_message on_error st = None"
| "recv_loop (Suc fuel) poll_item on_message on_error st =
     (case poll_item st of
        (Pending, st') \<Rightarrow> Some (Pending, st')
      | (Ready None, st') \<Rightarrow> Some (Ready (Err NoMessage), st')
      | (Ready (Some (pid, it)), st') \<Rightarrow>
          (case (case it of
                   Inr (Message_Message m) \<Rightarrow> on_message pid m st'
                 | Inr _ \<Rightarrow> (Continue, st')
                 | Inl e \<Rightarrow> on_error pid e st') of
             (Return r, st'') \<Rightarrow> Some (Ready r, st'')
           | (Continue, st'') \<Rightarrow> recv_loop fuel poll_item on_message on_error st''))"

section \<open>Lemmas\<close>

text \<open>A run of the queue that yields the given items one after the other.\<close>

inductive yields :: "'st poll_item \<Rightarrow> 'st \<Rightarrow> (peer_identity \<times> item) list \<Rightarrow> 'st \<Rightarrow> bool" for poll_item where
  nil: "yields poll_item st [] st"
| cons: "poll_item st = (Ready (Some x), st1) \<Longrightarrow> yields poll_item st1 xs st2
    \<Longrightarrow> yields poll_item st (x # xs) st2"

inductive_cases yields_NilE [elim!]: "yields poll_item st [] st'"
inductive_cases yields_ConsE [elim!]: "yields poll_item st (x # xs) st'"

definition is_control :: "peer_identity \<times> item \<Rightarrow> bool" where
  "is_control x = (case snd x of Inr (Message_Message m) \<Rightarrow> False | Inr _ \<Rightarrow> True | Inl _ \<Rightarrow> False)"

lemma recv_loop_control:
  assumes "poll_item st = (Ready (Some x), st')" and "is_control x"
  shows "recv_loop (Suc n) poll_item on_message on_error st = recv_loop n poll_item on_message on_error st'"
proof -
  obtain pid it where x: "x = (pid, it)" by fastforce
  from assms(2) x obtain m where m: "it = Ok m" by (cases it) (auto simp: is_control_def)
  with assms x show ?thesis by (cases m) (simp_all add: is_control_def)
qed

text \<open>Control frames are skipped, however many there are.\<close>

lemma recv_loop_skip:
  assumes "yields poll_item st xs st'" and "\<forall>x \<in> set xs. is_control x"
  shows "recv_loop (fuel + length xs) poll_item on_message on_error st
    = recv_loop fuel poll_item on_message on_error st'"
  using assms
proof (induction rule: yields.induct)
  case (cons st x st1 xs st2)
  have "recv_loop (Suc (fuel + length xs)) poll_item on_message on_error st
      = recv_loop (fuel + length xs) poll_item on_message on_error st1"
    by (rule recv_loop_control [where poll_item = poll_item, OF cons(1)]) (use cons.prems in simp)
  with cons show ?case by (simp del: recv_loop.simps)
qed simp

lemma recv_loop_message:
  assumes "yields poll_item st xs st1" and "\<forall>x \<in> set xs. is_control x"
    and "poll_item st1 = (Ready (Some (pid, Ok (Message_Message m))), st2)"
    and "on_message pid m st2 = (Return r, st3)" and "length xs < fuel"
  shows "recv_loop fuel poll_item on_message on_error st = Some (Ready r, st3)"
proof -
  obtain k where k: "fuel = Suc k + length xs"
    using assms(5) by (intro that [of "fuel - Suc (length xs)"]) simp
  show ?thesis unfolding k recv_loop_skip [OF assms(1,2)] using assms(3,4) by simp
qed

text \<open>A poll that hands out no item changes nothing but the queue.\<close>

lemma recv_loop_pending:
  assumes "poll_item st = (Pending, st')" and "0 < fuel"
  shows "recv_loop fuel poll_item on_message on_error st = Some (Pending, st')"
  using assms by (cases fuel) simp_all

text \<open>An invariant that every poll of the queue and every handler keeps.\<close>

lemma recv_loop_invariant:
  assumes "recv_loop fuel poll_item on_message on_error st = Some (r, st')" and "I st"
    and "\<And>st r st'. I st \<Longrightarrow> poll_item st = (r, st') \<Longrightarrow> I st'"
    and "\<And>pid m st h st'. I st \<Longrightarrow> on_message pid m st = (h, st') \<Longrightarrow> I st'"
    and "\<And>pid e st h st'. I st \<Longrightarrow> on_error pid e st = (h, st') \<Longrightarrow> I st'"
  shows "I st'"
  using assms(1,2)
proof (induction fuel arbitrary: st)
  case (Suc fuel)
  obtain p st1 where p: "poll_item st = (p, st1)" by fastforce
  then have I1: "I st1" using assms(3) Suc.prems(2) by blast
  show ?case
  proof (cases "\<exists>pid it. p = Ready (Some (pid, it))")
    case False
    with p Suc.prems I1 show ?thesis by (auto split: poll.splits option.splits)
  next
    case True
    then obtain pid it where pit: "p = Ready (Some (pid, it))" by blast
    obtain h st2 where h: "(case it of Inr (Message_Message m) \<Rightarrow> on_message pid m st1
        | Inr _ \<Rightarrow> (Continue, st1) | Inl e \<Rightarrow> on_error pid e st1) = (h, st2)" by fastforce
    have "I st2"
      using h I1 assms(4) [OF I1] assms(5) [OF I1] by (auto split: sum.splits message.splits)
    with h p pit Suc show ?thesis by (cases h) auto
  qed
qed simp

end
