(* ===== verification/Queue_Backend.thy ===== *)
theory Queue_Backend
  imports Socket_Recv
begin

text \<open>
  The sockets that receive through a fair queue share the same wiring: the backend and the socket hold the
  same queue, the callback that \<open>with_options\<close> installs with \<open>set_on_disconnect\<close> disconnects a peer whose
  stream has ended, and \<open>recv\<close> polls the queue. It is written here once, for any backend, and the contract of
  such a backend is the locale \<open>queue_backend\<close>; \<open>owning_backend\<close> extends it for the backends that drop a
  peer's stream together with the peer.
\<close>

section \<open>Definitions\<close>

text \<open>The callback: the queue being polled is put back into the backend, which disconnects the peer.\<close>

definition backend_callback ::
    "('b \<Rightarrow> ('s, peer_identity) queue_inner option) \<Rightarrow> (('s, peer_identity) queue_inner \<Rightarrow> 'b \<Rightarrow> 'b)
      \<Rightarrow> (peer_identity \<Rightarrow> 'b \<times> 'w \<Rightarrow> 'b \<times> 'w)
      \<Rightarrow> peer_identity \<Rightarrow> ('b \<times> 'w) \<times> ('s, peer_identity) queue_inner
      \<Rightarrow> ('b \<times> 'w) \<times> ('s, peer_identity) queue_inner" where
  "backend_callback queue_of set_queue disconnected pid bwq = (case bwq of ((b, w), q) \<Rightarrow>
     let (b', w') = disconnected pid (set_queue q b, w)
     in ((b', w'), case queue_of b' of Some q' \<Rightarrow> q' | None \<Rightarrow> q))"

text \<open>\<open>FairQueue::poll_next\<close> on the queue shared with the backend; a backend without a queue has nothing to
  poll.\<close>

definition backend_poll_item ::
    "('b \<Rightarrow> ('s, peer_identity) queue_inner option) \<Rightarrow> (('s, peer_identity) queue_inner \<Rightarrow> 'b \<Rightarrow> 'b)
      \<Rightarrow> (peer_identity \<Rightarrow> 'b \<times> 'w \<Rightarrow> 'b \<times> 'w) \<Rightarrow> ('s, item) poll_stream \<Rightarrow> nat \<Rightarrow> ('b \<times> 'w) poll_item" where
  "backend_poll_item queue_of set_queue disconnected poll_stream cx bw =
     (case queue_of (fst bw) of
        None \<Rightarrow> (Pending, bw)
      | Some q \<Rightarrow>
          (case queue_poll_next True poll_stream (Some (backend_callback queue_of set_queue disconnected)) cx bw q of
             (r, (b', w'), q') \<Rightarrow> (r, (set_queue q' b', w'))))"

section \<open>Backends with a queue\<close>

locale queue_backend =
  fixes queue_of :: "'b \<Rightarrow> ('s, peer_identity) queue_inner option"
    and set_queue :: "('s, peer_identity) queue_inner \<Rightarrow> 'b \<Rightarrow> 'b"
    and disconnected :: "peer_identity \<Rightarrow> 'b \<times> 'w \<Rightarrow> 'b \<times> 'w"
  assumes get_set: "queue_of (set_queue q b) = Some q"
    and disconnected_queue: "queue_of b = Some q
      \<Longrightarrow> queue_of (fst (disconnected p (b, w))) \<in> {Some q, Some (queue_remove p q)}"
begin

abbreviation callback where "callback \<equiv> backend_callback queue_of set_queue disconnected"
abbreviation poll_item where "poll_item \<equiv> backend_poll_item queue_of set_queue disconnected"

lemma callback_result:
  assumes "callback k ((b, w), q) = (bw', q')"
  shows "bw' = disconnected k (set_queue q b, w)" and "q' \<in> {q, queue_remove k q}"
    and "queue_of (fst bw') = Some q'"
proof -
  obtain b1 w1 where d: "disconnected k (set_queue q b, w) = (b1, w1)" by fastforce
  then have q: "queue_of b1 \<in> {Some q, Some (queue_remove k q)}"
    using disconnected_queue [of "set_queue q b" q k w, OF get_set] by simp
  have "bw' = (b1, w1)" "q' = (case queue_of b1 of Some q' \<Rightarrow> q' | None \<Rightarrow> q)"
    using assms d by (simp_all add: backend_callback_def)
  then show "bw' = disconnected k (set_queue q b, w)" "q' \<in> {q, queue_remove k q}" "queue_of (fst bw') = Some q'"
    using d q by auto
qed

lemma callback_tame: "tame (Some callback)"
proof (unfold tame_def, intro allI impI)
  fix f k and bw :: "'b \<times> 'w" and q
  assume f: "Some callback = Some f"
  obtain b w where bw: "bw = (b, w)" by fastforce
  obtain bw' q' where c: "callback k ((b, w), q) = (bw', q')" by fastforce
  with callback_result(2) [OF c] f show "snd (f k (bw, q)) \<in> {q, queue_remove k q}" by (auto simp: bw)
qed

text \<open>An invariant that disconnecting keeps and that does not look at the queue.\<close>

lemma poll_item_invariant:
  assumes "poll_item poll_stream cx bw = (r, bw')" and "I bw"
    and set: "\<And>q b w. I (set_queue q b, w) = I (b, w)" and dis: "\<And>p bw. I bw \<Longrightarrow> I (disconnected p bw)"
  shows "I bw'"
proof (cases "queue_of (fst bw)")
  case None
  with assms(1,2) show ?thesis by (simp add: backend_poll_item_def)
next
  case (Some q)
  obtain b1 w1 q1 where p: "queue_poll_next True poll_stream (Some callback) cx bw q = (r, (b1, w1), q1)"
    and bw': "bw' = (set_queue q1 b1, w1)"
    using assms(1) Some by (auto simp: backend_poll_item_def split: prod.splits)
  have "dom (streams q1) \<subseteq> UNIV \<and> I (b1, w1)"
  proof (rule poll_loop_owned [where owners = "\<lambda>_. UNIV" and I = I])
    show "poll_loop (length (ready_queue q)) True poll_stream (Some callback) cx bw (q \<lparr> waker := Some cx \<rparr>)
        = (r, (b1, w1), q1)"
      using p by (simp add: queue_poll_next_def Let_def)
  next
    fix f k and bwx :: "'b \<times> 'w" and qx bwy qy
    assume "Some callback = Some f" "I bwx" "f k (bwx, qx) = (bwy, qy)"
    moreover obtain b w where "bwx = (b, w)" by fastforce
    ultimately have "callback k ((b, w), qx) = (bwy, qy)" "I (b, w)" by auto
    with callback_result(1) [of k b w qx bwy qy] dis [of "(set_queue qx b, w)" k] set
    show "dom (streams qy) \<subseteq> UNIV \<and> I bwy" by simp
  qed (use assms(2) in simp_all)
  then show ?thesis by (simp add: bw' set)
qed

text \<open>The head of the ready queue delivers.\<close>

lemma poll_item_ready:
  assumes "queue_of b = Some q" and "ready_wf q" and "counter q + 1 < 2 ^ 64"
    and "ready_keys q = k # ks" and "streams q k = Some s" and "poll_stream s = (Ready (Some x), s', wk)"
  shows "\<exists>q'. poll_item poll_stream cx (b, w) = (Ready (Some (k, x)), (set_queue q' b, w))
    \<and> ready_keys q' = ks @ [k] \<and> ready_wf q' \<and> streams q' = (streams q)(k \<mapsto> s')"
proof -
  obtain q' where
    "queue_poll_next True poll_stream (Some callback) cx (b, w) q = (Ready (Some (k, x)), (b, w), q')"
    "ready_keys q' = ks @ [k]" "ready_wf q'" "streams q' = (streams q)(k \<mapsto> s')"
    using queue_poll_next_ready [where poll_stream = poll_stream and block = True and cx = cx
        and cb = "Some callback" and b = "(b, w)", OF assms(2-6)] by blast
  then show ?thesis using assms(1) by (intro exI [of _ q']) (simp add: backend_poll_item_def)
qed

end

text \<open>Every stream of the queue belongs to a connected peer.\<close>

definition owns_streams ::
    "('b \<Rightarrow> ('s, peer_identity) queue_inner option) \<Rightarrow> ('b \<Rightarrow> peer_identity set) \<Rightarrow> ('b \<Rightarrow> bool) \<Rightarrow> 'b \<Rightarrow> bool" where
  "owns_streams queue_of owners invar b \<longleftrightarrow>
     invar b \<and> (\<forall>q. queue_of b = Some q \<longrightarrow> dom (streams q) \<subseteq> owners b)"

text \<open>\<open>owners b\<close> are the connected peers; \<open>invar\<close> is the invariant of the backend apart from its queue.\<close>

locale owning_backend = queue_backend queue_of set_queue disconnected
  for queue_of :: "'b \<Rightarrow> ('s, peer_identity) queue_inner option" and set_queue
    and disconnected :: "peer_identity \<Rightarrow> 'b \<times> 'w \<Rightarrow> 'b \<times> 'w" +
  fixes owners :: "'b \<Rightarrow> peer_identity set" and invar :: "'b \<Rightarrow> bool"
  assumes owners_set: "owners (set_queue q b) = owners b"
    and invar_set: "invar (set_queue q b) = invar b"
    and removes_stream: "queue_of b = Some q
      \<Longrightarrow> queue_of (fst (disconnected p (b, w))) = Some (queue_remove p q)"
    and removes_owner: "owners (fst (disconnected p (b, w))) = owners b - {p}"
    and keeps_invar: "invar b \<Longrightarrow> invar (fst (disconnected p (b, w)))"
begin

abbreviation wf :: "'b \<Rightarrow> bool" where "wf \<equiv> owns_streams queue_of owners invar"

lemma disconnected_wf:
  assumes "wf b" and "queue_of b \<noteq> None"
  shows "wf (fst (disconnected p (b, w)))"
  using assms removes_stream [of b] removes_owner keeps_invar
  by (auto simp: owns_streams_def subset_iff domIff split: if_splits)

lemma poll_item_wf:
  assumes "poll_item poll_stream cx bw = (r, bw')" and "wf (fst bw)"
  shows "wf (fst bw') \<and> (queue_of (fst bw) \<noteq> None \<longrightarrow> queue_of (fst bw') \<noteq> None)"
proof (cases "queue_of (fst bw)")
  case None
  with assms show ?thesis by (simp add: backend_poll_item_def)
next
  case (Some q)
  obtain b1 w1 q1 where p: "queue_poll_next True poll_stream (Some callback) cx bw q = (r, (b1, w1), q1)"
    and bw': "bw' = (set_queue q1 b1, w1)"
    using assms(1) Some by (auto simp: backend_poll_item_def split: prod.splits)
  have "dom (streams q1) \<subseteq> owners (fst (b1, w1)) \<and> invar (fst (b1, w1))"
  proof (rule poll_loop_owned [where owners = "\<lambda>bw. owners (fst bw)" and I = "\<lambda>bw. invar (fst bw)"])
    show "poll_loop (length (ready_queue q)) True poll_stream (Some callback) cx bw (q \<lparr> waker := Some cx \<rparr>)
        = (r, (b1, w1), q1)"
      using p by (simp add: queue_poll_next_def Let_def)
    show "dom (streams (q \<lparr> waker := Some cx \<rparr>)) \<subseteq> owners (fst bw)" "invar (fst bw)"
      using assms(2) Some by (simp_all add: owns_streams_def)
  next
    fix f k and bwx :: "'b \<times> 'w" and qx bwy qy
    assume "Some callback = Some f" "invar (fst bwx)" "dom (streams qx) \<subseteq> owners (fst bwx) - {k}"
      "f k (bwx, qx) = (bwy, qy)"
    moreover obtain b w where "bwx = (b, w)" by fastforce
    ultimately have *: "callback k ((b, w), qx) = (bwy, qy)" "invar b" "dom (streams qx) \<subseteq> owners b - {k}" by auto
    have "owners (fst bwy) = owners b - {k}" "invar (fst bwy)"
      using removes_owner [of k "set_queue qx b" w] keeps_invar [of "set_queue qx b" k w] *(2)
      unfolding callback_result(1) [OF *(1)] by (simp_all add: owners_set invar_set)
    moreover have "dom (streams qy) \<subseteq> dom (streams qx)"
      using callback_result(2) [OF *(1)] by (auto simp: queue_remove_def split: if_splits)
    ultimately show "dom (streams qy) \<subseteq> owners (fst bwy) \<and> invar (fst bwy)" using *(3) by blast
  qed
  then show ?thesis by (simp add: bw' owns_streams_def get_set owners_set invar_set)
qed

text \<open>Receiving keeps the invariant when the handlers do.\<close>

lemma recv_loop_wf:
  assumes "recv_loop fuel (poll_item poll_stream cx) on_message on_error bw = Some (r, bw')"
    and "wf (fst bw)" and "queue_of (fst bw) \<noteq> None"
    and "\<And>pid m bw h bw'. wf (fst bw) \<Longrightarrow> queue_of (fst bw) \<noteq> None \<Longrightarrow> on_message pid m bw = (h, bw')
      \<Longrightarrow> wf (fst bw') \<and> queue_of (fst bw') \<noteq> None"
    and "\<And>pid e bw h bw'. on_error pid e bw = (h, bw') \<Longrightarrow> bw' = bw \<or> bw' = disconnected pid bw"
  shows "wf (fst bw') \<and> queue_of (fst bw') \<noteq> None"
proof (rule recv_loop_invariant [where I = "\<lambda>bw. wf (fst bw) \<and> queue_of (fst bw) \<noteq> None", OF assms(1)])
  show "wf (fst bw) \<and> queue_of (fst bw) \<noteq> None" using assms(2,3) by blast
next
  fix st :: "'b \<times> 'w" and p st'
  assume "wf (fst st) \<and> queue_of (fst st) \<noteq> None" "poll_item poll_stream cx st = (p, st')"
  then show "wf (fst st') \<and> queue_of (fst st') \<noteq> None" using poll_item_wf by blast
next
  fix pid m and st :: "'b \<times> 'w" and h st'
  assume "wf (fst st) \<and> queue_of (fst st) \<noteq> None" "on_message pid m st = (h, st')"
  then show "wf (fst st') \<and> queue_of (fst st') \<noteq> None" using assms(4) by blast
next
  fix pid e and st :: "'b \<times> 'w" and h st'
  assume I: "wf (fst st) \<and> queue_of (fst st) \<noteq> None" and e: "on_error pid e st = (h, st')"
  obtain b w where st: "st = (b, w)" by fastforce
  from assms(5) [OF e] I disconnected_wf [of b pid w] removes_stream [of b _ pid w]
  show "wf (fst st') \<and> queue_of (fst st') \<noteq> None" by (auto simp: st)
qed

end

end
