(* ===== verification/Handshake.thy ===== *)
theory Handshake
  imports Environment
begin

text \<open>
  \<open>src/util.rs\<close>: peer identities, the ZMTP handshake (greeting exchange, version negotiation, READY
  exchange), the connect timeout and the retrying connect.

  A raw connection is a state \<open>'io\<close> with two operations of the framed socket: \<open>snd_msg\<close>, which sends and
  flushes a message, and \<open>nxt_msg\<close>, which awaits the next one (\<open>None\<close> at the end of the stream). The random
  identity of \<open>PeerIdentity::new\<close> is the parameter \<open>uuid\<close>. A handshake that panics is \<open>None\<close>.
\<close>

section \<open>Peer identities\<close>

definition MAX_LENGTH :: nat where "MAX_LENGTH = 255"

definition peer_identity_new :: "bytes \<Rightarrow> peer_identity" where
  "peer_identity_new uuid = uuid"

definition peer_identity_try_from :: "bytes \<Rightarrow> bytes \<Rightarrow> peer_identity zmq_result" where
  "peer_identity_try_from uuid data =
     (if data = [] then Ok (peer_identity_new uuid)
      else if length data > MAX_LENGTH then Err ErrPeerIdentity
      else Ok data)"

text \<open>\<open>FromStr\<close>, and the conversions back.\<close>

definition peer_identity_from_str :: "bytes \<Rightarrow> bytes \<Rightarrow> peer_identity zmq_result" where
  "peer_identity_from_str uuid s = peer_identity_try_from uuid s"

definition bytes_from_peer_identity :: "peer_identity \<Rightarrow> bytes" where
  "bytes_from_peer_identity pid = pid"

section \<open>Handshake\<close>

type_synonym 'io snd_msg = "'io \<Rightarrow> message \<Rightarrow> (codec_error + unit) \<times> 'io"
type_synonym 'io nxt_msg = "'io \<Rightarrow> (codec_error + message) option \<times> 'io"

text \<open>Versions are compared as pairs, the major number first.\<close>

definition version_ge :: "zmtp_version \<Rightarrow> zmtp_version \<Rightarrow> bool" where
  "version_ge v w \<longleftrightarrow> fst v > fst w \<or> (fst v = fst w \<and> snd v \<ge> snd w)"

definition negotiate_version :: "message \<Rightarrow> zmtp_version zmq_result" where
  "negotiate_version greeting =
     (let my_version = version greeting_default
      in case greeting of
           Message_Greeting peer \<Rightarrow>
             if version_ge (version peer) my_version then Ok my_version
             else Err (UnsupportedVersion (version peer))
         | _ \<Rightarrow> Err (ErrOther ''Failed Greeting exchange''))"

definition greet_exchange :: "'io snd_msg \<Rightarrow> 'io nxt_msg \<Rightarrow> 'io \<Rightarrow> zmtp_version zmq_result \<times> 'io" where
  "greet_exchange snd_msg nxt_msg io =
     (case snd_msg io (Message_Greeting greeting_default) of
        (Inl e, io1) \<Rightarrow> (Err (ErrCodec e), io1)
      | (Inr _, io1) \<Rightarrow>
          (case nxt_msg io1 of
             (None, io2) \<Rightarrow> (Err (ErrOther ''Failed Greeting exchange''), io2)
           | (Some (Inl e), io2) \<Rightarrow> (Err (ErrCodec e), io2)
           | (Some (Inr greeting), io2) \<Rightarrow> (negotiate_version greeting, io2)))"

text \<open>What a READY command from the other side leads to: its socket type, then its identity, then the
  compatibility of the two types (\<open>None\<close> when the table lookup panics).\<close>

definition accept_ready :: "bytes \<Rightarrow> socket_type \<Rightarrow> zmq_command \<Rightarrow> peer_identity zmq_result option" where
  "accept_ready uuid socket_type command =
     (case properties command (str ''Socket-Type'') of
        None \<Rightarrow> Some (Err (ErrOther ''Failed to parse other socket type''))
      | Some s \<Rightarrow>
          (case socket_try_from s of
             Inl e \<Rightarrow> Some (Err (ErrOther e))
           | Inr other_sock_type \<Rightarrow>
               (case (case properties command (str ''Identity'') of
                        None \<Rightarrow> Ok uuid
                      | Some x \<Rightarrow> peer_identity_try_from uuid x) of
                  Inl e \<Rightarrow> Some (Err e)
                | Inr pid \<Rightarrow>
                    (case compatible socket_type other_sock_type of
                       None \<Rightarrow> None
                     | Some True \<Rightarrow> Some (Ok pid)
                     | Some False \<Rightarrow>
                         Some (Err (ErrOther ''Provided sockets combination is not compatible''))))))"

text \<open>The READY command that is sent: the socket type and the given properties.\<close>

definition ready_command :: "socket_type \<Rightarrow> property_map option \<Rightarrow> zmq_command" where
  "ready_command socket_type props =
     (case props of None \<Rightarrow> ready socket_type | Some ps \<Rightarrow> add_properties (ready socket_type) ps)"

definition ready_exchange ::
    "bytes \<Rightarrow> 'io snd_msg \<Rightarrow> 'io nxt_msg \<Rightarrow> socket_type \<Rightarrow> property_map option \<Rightarrow> 'io
      \<Rightarrow> (peer_identity zmq_result \<times> 'io) option" where
  "ready_exchange uuid snd_msg nxt_msg socket_type props io =
     (case snd_msg io (Message_Command (ready_command socket_type props)) of
        (Inl e, io1) \<Rightarrow> Some (Err (ErrCodec e), io1)
      | (Inr _, io1) \<Rightarrow>
          (case nxt_msg io1 of
             (Some (Inr (Message_Command command)), io2) \<Rightarrow>
               (case cmd_name command of
                  READY \<Rightarrow> map_option (\<lambda>r. (r, io2)) (accept_ready uuid socket_type command))
           | (Some (Inr _), io2) \<Rightarrow> Some (Err (ErrOther ''Failed to confirm ready state''), io2)
           | (Some (Inl e), io2) \<Rightarrow> Some (Err (ErrCodec e), io2)
           | (None, io2) \<Rightarrow> Some (Err (ErrOther ''No reply from server''), io2)))"

text \<open>The properties sent with READY: the configured identity, if there is one.\<close>

definition identity_props :: "socket_options \<Rightarrow> property_map option" where
  "identity_props options =
     (case peer_id options of
        None \<Rightarrow> None
      | Some identity \<Rightarrow> Some [str ''Identity'' \<mapsto> identity])"

definition peer_handshake ::
    "bytes \<Rightarrow> 'io snd_msg \<Rightarrow> 'io nxt_msg \<Rightarrow> socket_type \<Rightarrow> socket_options \<Rightarrow> 'io
      \<Rightarrow> (peer_identity zmq_result \<times> 'io) option" where
  "peer_handshake uuid snd_msg nxt_msg socket_type options io =
     (case greet_exchange snd_msg nxt_msg io of
        (Inl e, io1) \<Rightarrow> Some (Err e, io1)
      | (Inr _, io1) \<Rightarrow> ready_exchange uuid snd_msg nxt_msg socket_type (identity_props options) io1)"

text \<open>\<open>util::peer_connected\<close>: handshake, then hand the connection to the backend.\<close>

definition util_peer_connected ::
    "bytes \<Rightarrow> 'io snd_msg \<Rightarrow> 'io nxt_msg \<Rightarrow> socket_type \<Rightarrow> socket_options
      \<Rightarrow> (peer_identity \<Rightarrow> 'io \<Rightarrow> 'st \<Rightarrow> 'st) \<Rightarrow> 'io \<Rightarrow> 'st \<Rightarrow> (peer_identity zmq_result \<times> 'st) option" where
  "util_peer_connected uuid snd_msg nxt_msg socket_type options backend_connected io st =
     (case peer_handshake uuid snd_msg nxt_msg socket_type options io of
        None \<Rightarrow> None
      | Some (Inl e, io') \<Rightarrow> Some (Err e, st)
      | Some (Inr pid, io') \<Rightarrow> Some (Ok pid, backend_connected pid io' st))"

section \<open>Connecting\<close>

text \<open>\<open>run_with_timeout\<close>; \<open>in_time d\<close> says whether the runtime saw the future complete within \<open>d\<close>.\<close>

definition run_with_timeout :: "duration option \<Rightarrow> (duration \<Rightarrow> bool) \<Rightarrow> 'a zmq_result \<Rightarrow> 'a zmq_result" where
  "run_with_timeout duration in_time result =
     (case duration of
        Some d \<Rightarrow> if in_time d then result else Err (ConnectTimeout d)
      | None \<Rightarrow> result)"

definition is_retryable_connect_error :: "endpoint \<Rightarrow> zmq_error \<Rightarrow> bool" where
  "is_retryable_connect_error endpoint error =
     (case error of
        ErrNetwork e \<Rightarrow>
          e = ConnectionRefused \<or> (endpoint_transport endpoint = Ipc_transport \<and> e = NotFound)
      | _ \<Rightarrow> False)"

definition CONNECT_INITIAL :: duration where "CONNECT_INITIAL = 50 * 10 ^ 6"
definition CONNECT_MAX :: duration where "CONNECT_MAX = 30 * 10 ^ 9"

text \<open>The loop of \<open>connect_forever\<close>. \<open>attempt i\<close> is the outcome of the \<open>i\<close>-th call of the transport; the
  result carries the delays, without their jitter, that were slept between the attempts. Fuel bounds
  the number of attempts.\<close>

fun connect_loop ::
    "nat \<Rightarrow> endpoint \<Rightarrow> (nat \<Rightarrow> 'c zmq_result) \<Rightarrow> nat \<Rightarrow> duration \<Rightarrow> ('c zmq_result \<times> duration list) option" where
  "connect_loop 0 endpoint attempt i delay = None"
| "connect_loop (Suc fuel) endpoint attempt i delay =
     (case attempt i of
        Inr res \<Rightarrow> Some (Ok res, [])
      | Inl e \<Rightarrow>
          if is_retryable_connect_error endpoint e
          then map_option (\<lambda>(r, ds). (r, delay # ds))
                 (connect_loop fuel endpoint attempt (i + 1) (min (delay * 2) CONNECT_MAX))
          else Some (Err e, []))"

definition connect_forever ::
    "nat \<Rightarrow> endpoint \<Rightarrow> (nat \<Rightarrow> 'c zmq_result) \<Rightarrow> ('c zmq_result \<times> duration list) option" where
  "connect_forever fuel endpoint attempt = connect_loop fuel endpoint attempt 0 CONNECT_INITIAL"

section \<open>Lemmas\<close>

lemma ready_properties:
  "properties (ready t) = [str ''Socket-Type'' \<mapsto> socket_as_str t]"
  by (simp add: ready_def)

lemma ready_command_type:
  "properties (ready_command t (identity_props opts)) (str ''Socket-Type'') = Some (socket_as_str t)"
  by (auto simp: ready_command_def identity_props_def ready_def add_properties_def of_char_def
      split: option.splits)

lemma ready_command_identity:
  "properties (ready_command t (identity_props opts)) (str ''Identity'') = peer_id opts"
  by (auto simp: ready_command_def identity_props_def ready_def add_properties_def of_char_def
      split: option.splits)

lemma cmd_name_ready_command: "cmd_name (ready_command t props) = READY"
  by (cases "cmd_name (ready_command t props)")

text \<open>Identities that a peer can send: what \<open>PeerIdentity\<close> can hold.\<close>

lemma peer_identity_valid:
  assumes "length uuid = 16" and "peer_identity_try_from uuid data = Ok pid"
  shows "pid \<noteq> [] \<and> length pid \<le> MAX_LENGTH"
  using assms by (auto simp: peer_identity_try_from_def peer_identity_new_def MAX_LENGTH_def split: if_splits)

lemma accept_own_ready:
  assumes "\<forall>i. peer_id opts = Some i \<longrightarrow> i \<noteq> [] \<and> length i \<le> MAX_LENGTH"
  shows "accept_ready uuid t1 (ready_command t2 (identity_props opts)) =
    (case compatible t1 t2 of
       None \<Rightarrow> None
     | Some True \<Rightarrow> Some (Ok (case peer_id opts of Some i \<Rightarrow> i | None \<Rightarrow> uuid))
     | Some False \<Rightarrow> Some (Err (ErrOther ''Provided sockets combination is not compatible'')))"
  using assms
  by (cases "peer_id opts")
    (auto simp: accept_ready_def ready_command_type ready_command_identity socket_try_from_as_str
      peer_identity_try_from_def peer_identity_new_def simp del: str_simps split: option.splits bool.splits)

lemma connect_loop_delays:
  assumes "\<forall>j. i \<le> j \<and> j < n \<longrightarrow> (\<exists>e. attempt j = Err e \<and> is_retryable_connect_error endpoint e)"
    and "\<forall>e. attempt n = Err e \<longrightarrow> \<not> is_retryable_connect_error endpoint e"
    and "i \<le> n" and "n - i < fuel"
  shows "connect_loop fuel endpoint attempt i (min (CONNECT_INITIAL * 2 ^ i) CONNECT_MAX)
    = Some (attempt n, map (\<lambda>j. min (CONNECT_INITIAL * 2 ^ j) CONNECT_MAX) [i..<n])"
  using assms(1,3,4)
proof (induction fuel arbitrary: i)
  case (Suc fuel)
  show ?case
  proof (cases "i = n")
    case True
    with assms(2) show ?thesis by (cases "attempt n") auto
  next
    case False
    with Suc.prems obtain e where e: "attempt i = Err e" "is_retryable_connect_error endpoint e" by auto
    have "min (min (CONNECT_INITIAL * 2 ^ i) CONNECT_MAX * 2) CONNECT_MAX
        = min (CONNECT_INITIAL * 2 ^ (i + 1)) CONNECT_MAX"
      by (simp add: min_def CONNECT_MAX_def)
    with Suc.IH [of "i + 1"] Suc.prems False e show ?thesis
      by (simp add: upt_rec [of i n])
  qed
qed simp

lemma peer_handshake_cases:
  assumes "peer_handshake uuid snd_msg nxt_msg t opts io = r"
    and "\<nexists>e io'. r = Some (Err e, io')"
  shows "\<exists>io1 io2 g io3 io4 cmd. nxt_msg io1 = (Some (Ok (Message_Greeting g)), io2)
    \<and> version_ge (version g) (version greeting_default)
    \<and> nxt_msg io3 = (Some (Ok (Message_Command cmd)), io4)
    \<and> r = map_option (\<lambda>x. (x, io4)) (accept_ready uuid t cmd)"
proof -
  obtain v io2 where g: "greet_exchange snd_msg nxt_msg io = (v, io2)" by fastforce
  have "\<nexists>e. v = Err e" using assms g by (auto simp: peer_handshake_def)
  then obtain v' where v: "v = Ok v'" by (cases v) auto
  obtain io1 g' where 1: "nxt_msg io1 = (Some (Ok (Message_Greeting g')), io2)"
      "version_ge (version g') (version greeting_default)"
    using g v by (auto simp: greet_exchange_def negotiate_version_def Let_def
        split: prod.splits sum.splits option.splits message.splits if_splits)
  from g v assms(1) have r: "r = ready_exchange uuid snd_msg nxt_msg t (identity_props opts) io2"
    by (simp add: peer_handshake_def)
  have "\<exists>io3 io4 cmd. nxt_msg io3 = (Some (Ok (Message_Command cmd)), io4)
      \<and> r = map_option (\<lambda>x. (x, io4)) (accept_ready uuid t cmd)"
    using r assms(2)
    by (auto simp: ready_exchange_def split: prod.splits sum.splits option.splits message.splits
        zmq_command_name.splits)
  with 1 show ?thesis by blast
qed

lemma accept_ready_Ok:
  assumes "accept_ready uuid t cmd = Some (Ok pid)"
  shows "\<exists>other. properties cmd (str ''Socket-Type'') = Some (socket_as_str other)
    \<and> compatible t other = Some True
    \<and> (pid = uuid \<or> pid \<noteq> [] \<and> length pid \<le> MAX_LENGTH \<and> properties cmd (str ''Identity'') = Some pid)"
  using assms unfolding accept_ready_def
  by (auto simp: socket_try_from_Ok peer_identity_try_from_def peer_identity_new_def simp del: str_simps
      split: option.splits sum.splits bool.splits if_splits)

lemma accept_ready_None:
  "accept_ready uuid t cmd = None \<Longrightarrow> \<exists>other. properties cmd (str ''Socket-Type'') = Some (socket_as_str other)
    \<and> compatible t other = None"
  unfolding accept_ready_def
  by (auto simp: socket_try_from_Ok simp del: str_simps split: option.splits sum.splits bool.splits)

section \<open>Properties\<close>

text \<open>The handshake between two sockets of this library: when the other side's greeting is of version 3.0
  or later and its READY command is the one that \<open>ready_exchange\<close> sends for the socket type \<open>t2\<close> and the
  options \<open>opts2\<close>, the handshake accepts exactly the compatible types and yields the identity that the
  other side configured, or a fresh one.\<close>

theorem handshake_agreement:
  assumes "snd_msg io (Message_Greeting greeting_default) = (Ok (), io1)"
    and "nxt_msg io1 = (Some (Ok (Message_Greeting g)), io2)"
    and "version_ge (version g) (3, 0)"
    and "snd_msg io2 (Message_Command (ready_command t1 (identity_props opts1))) = (Ok (), io3)"
    and "nxt_msg io3 = (Some (Ok (Message_Command (ready_command t2 (identity_props opts2)))), io4)"
    and "\<forall>i. peer_id opts2 = Some i \<longrightarrow> i \<noteq> [] \<and> length i \<le> MAX_LENGTH"
  shows "peer_handshake uuid snd_msg nxt_msg t1 opts1 io =
    (case compatible t1 t2 of
       None \<Rightarrow> None
     | Some True \<Rightarrow> Some (Ok (case peer_id opts2 of Some i \<Rightarrow> i | None \<Rightarrow> uuid), io4)
     | Some False \<Rightarrow> Some (Err (ErrOther ''Provided sockets combination is not compatible''), io4))"
proof -
  have "greet_exchange snd_msg nxt_msg io = (Ok (3, 0), io2)"
    using assms(1-3) by (simp add: greet_exchange_def negotiate_version_def greeting_default_def)
  then have "peer_handshake uuid snd_msg nxt_msg t1 opts1 io
      = map_option (\<lambda>r. (r, io4)) (accept_ready uuid t1 (ready_command t2 (identity_props opts2)))"
    using assms(4,5)
    by (simp add: peer_handshake_def ready_exchange_def cmd_name_ready_command
        split: zmq_command_name.splits)
  then show ?thesis unfolding accept_own_ready [OF assms(6)] by (simp split: option.splits bool.splits)
qed

text \<open>A connection that has buffered what the other side sent and records what is sent.\<close>

definition sample_snd :: "(message list \<times> message list) snd_msg" where
  "sample_snd io m = (Ok (), (fst io, snd io @ [m]))"

definition sample_nxt :: "(message list \<times> message list) nxt_msg" where
  "sample_nxt io = (case fst io of [] \<Rightarrow> (None, io) | m # ms \<Rightarrow> (Some (Ok m), (ms, snd io)))"

lemmas handshake_eval_rules [handshake_eval] =
  peer_handshake_def greet_exchange_def negotiate_version_def ready_exchange_def sample_snd_def sample_nxt_def
  version_ge_def greeting_default_def identity_props_def options_default_def ready_command_def accept_ready_def
  ready_properties ready_def of_char_def

theorem handshake_agreement_witness:
  "\<exists>out. peer_handshake [1] sample_snd sample_nxt DEALER options_default
     ([Message_Greeting greeting_default,
       Message_Command (ready_command ROUTER (identity_props (set_peer_identity options_default [9])))], [])
    = Some (Ok [9], ([], out))"
proof -
  let ?opts = "set_peer_identity options_default [9]"
  let ?r = "Message_Command (ready_command ROUTER (identity_props ?opts))"
  let ?s = "Message_Command (ready_command DEALER (identity_props options_default))"
  have "compatible DEALER ROUTER = Some True" by (simp add: matrix_simps)
  moreover have "version_ge (version greeting_default) (3, 0)"
    by (simp add: version_ge_def greeting_default_def)
  moreover have "peer_id ?opts = Some [9]" by (simp add: set_peer_identity_def)
  ultimately show ?thesis
    using handshake_agreement [of sample_snd "([Message_Greeting greeting_default, ?r], [])"
        "([Message_Greeting greeting_default, ?r], [Message_Greeting greeting_default])" sample_nxt
        greeting_default "([?r], [Message_Greeting greeting_default])" DEALER options_default
        "([?r], [Message_Greeting greeting_default, ?s])" ROUTER ?opts
        "([], [Message_Greeting greeting_default, ?s])" "[1]"]
    by (simp add: sample_snd_def sample_nxt_def MAX_LENGTH_def)
qed

text \<open>C25: A handshake that succeeds has received a greeting of version 3.0 or later and a READY command of a
  compatible socket type, and the identity it returns is not empty and at most 255 bytes long.\<close>

theorem handshake_sound:
  assumes "peer_handshake uuid snd_msg nxt_msg t opts io = Some (Ok pid, io')" and "length uuid = 16"
  shows "pid \<noteq> [] \<and> length pid \<le> 255
    \<and> (\<exists>io1 io2 g. nxt_msg io1 = (Some (Ok (Message_Greeting g)), io2) \<and> version_ge (version g) (3, 0))
    \<and> (\<exists>io3 cmd other. nxt_msg io3 = (Some (Ok (Message_Command cmd)), io')
        \<and> properties cmd (str ''Socket-Type'') = Some (socket_as_str other)
        \<and> compatible t other = Some True)"
proof -
  from peer_handshake_cases [OF assms(1)] obtain io1 io2 g io3 io4 cmd where
    g: "nxt_msg io1 = (Some (Ok (Message_Greeting g)), io2)" "version_ge (version g) (version greeting_default)"
    and c: "nxt_msg io3 = (Some (Ok (Message_Command cmd)), io4)"
      "Some (Ok pid, io') = map_option (\<lambda>x. (x, io4)) (accept_ready uuid t cmd)" by auto
  from c(2) have a: "accept_ready uuid t cmd = Some (Ok pid)" "io4 = io'"
    by (cases "accept_ready uuid t cmd"; simp)+
  from accept_ready_Ok [OF a(1)] assms(2) have "pid \<noteq> [] \<and> length pid \<le> 255"
    by (auto simp: MAX_LENGTH_def)
  moreover have "version_ge (version g) (3, 0)" using g(2) by (simp add: greeting_default_def)
  ultimately show ?thesis using accept_ready_Ok [OF a(1)] c(1) g(1) a(2) by blast
qed

theorem handshake_sound_witness:
  "\<exists>other. compatible SUB other = Some True
    \<and> peer_handshake (replicate 16 7) sample_snd sample_nxt SUB options_default
       ([Message_Greeting greeting_default, Message_Command (ready PUB)], []) \<noteq> None"
proof -
  have c: "compatible SUB PUB = Some True" by (simp add: matrix_simps)
  have t: "socket_try_from (str ''PUB'') = Ok PUB" by (simp add: socket_try_from_def)
  have "peer_handshake (replicate 16 7) sample_snd sample_nxt SUB options_default
      ([Message_Greeting greeting_default, Message_Command (ready PUB)], [])
    = Some (Ok (replicate 16 7), ([], [Message_Greeting greeting_default, Message_Command (ready SUB)]))"
    using c t by (simp add: handshake_eval)
  from handshake_sound [OF this] this show ?thesis by auto
qed

text \<open>C26: The only way for a peer to make the handshake of one of the library's sockets (there is no STREAM
  socket) panic is to announce the type STREAM to an XSUB
  socket: then the lookup in the compatibility table is out of bounds.\<close>

theorem handshake_panic_iff_stream:
  assumes "peer_handshake uuid snd_msg nxt_msg t opts io = None" and "t \<noteq> STREAM"
  shows "t = XSUB \<and> (\<exists>io3 io4 cmd. nxt_msg io3 = (Some (Ok (Message_Command cmd)), io4)
    \<and> properties cmd (str ''Socket-Type'') = Some (str ''STREAM''))"
proof -
  from peer_handshake_cases [OF assms(1)] obtain io3 io4 cmd where
    c: "nxt_msg io3 = (Some (Ok (Message_Command cmd)), io4)" "accept_ready uuid t cmd = None" by auto
  from accept_ready_None [OF c(2)] obtain other where
    o: "properties cmd (str ''Socket-Type'') = Some (socket_as_str other)" "compatible t other = None" by blast
  from o(2) assms(2) have "t = XSUB \<and> other = STREAM" by (cases t; cases other) (simp_all add: matrix_simps)
  with o(1) c(1) show ?thesis by (auto simp del: str_simps)
qed

theorem handshake_panic_iff_stream_witness:
  "\<exists>io io3 io4 cmd. peer_handshake (replicate 16 7) sample_snd sample_nxt XSUB options_default io = None
    \<and> sample_nxt io3 = (Some (Ok (Message_Command cmd)), io4)
    \<and> properties cmd (str ''Socket-Type'') = Some (str ''STREAM'')"
proof -
  have c: "compatible XSUB STREAM = None" by (simp add: matrix_simps)
  have t: "socket_try_from (str ''STREAM'') = Ok STREAM" by (simp add: socket_try_from_def)
  have "peer_handshake (replicate 16 7) sample_snd sample_nxt XSUB options_default
      ([Message_Greeting greeting_default, Message_Command (ready STREAM)], []) = None"
    using c t by (simp add: handshake_eval)
  from this handshake_panic_iff_stream [OF this] show ?thesis by blast
qed

text \<open>C27: \<open>connect_forever\<close> returns the outcome of the first attempt that succeeds or fails for another reason
  than a refused connection (or a missing IPC socket); before each retry it waits for 50 milliseconds,
  doubled per retry and capped at 30 seconds, plus jitter.\<close>

theorem connect_forever_backoff:
  assumes "\<forall>j < n. \<exists>e. attempt j = Err e \<and> is_retryable_connect_error endpoint e"
    and "\<forall>e. attempt n = Err e \<longrightarrow> \<not> is_retryable_connect_error endpoint e" and "n < fuel"
  shows "connect_forever fuel endpoint attempt
    = Some (attempt n, map (\<lambda>j. min (50000000 * 2 ^ j) 30000000000) [0..<n])"
proof -
  have "min (CONNECT_INITIAL * 2 ^ 0) CONNECT_MAX = CONNECT_INITIAL"
    by (simp add: CONNECT_INITIAL_def CONNECT_MAX_def)
  with connect_loop_delays [of 0 n attempt endpoint fuel] assms show ?thesis
    unfolding connect_forever_def by (simp add: CONNECT_INITIAL_def CONNECT_MAX_def)
qed

theorem connect_forever_backoff_witness:
  "connect_forever 3 (Ipc (Some [1])) (\<lambda>i. if i < 2 then Err (ErrNetwork NotFound) else Ok ())
    = Some (Ok (), map (\<lambda>j. min (50000000 * 2 ^ j) 30000000000) [0..<2])"
  using connect_forever_backoff [of 2 "\<lambda>i. if i < 2 then Err (ErrNetwork NotFound) else Ok ()"
      "Ipc (Some [1])" 3]
  by (simp add: is_retryable_connect_error_def endpoint_transport_def)

end
