(* ===== verification/Queue_Sockets.thy ===== *)
theory Queue_Sockets
  imports Generic_Backend Queue_Backend Handshake
begin

text \<open>
  \<open>src/push.rs\<close>, \<open>src/pull.rs\<close>, \<open>src/dealer.rs\<close> and \<open>src/router.rs\<close>: the sockets on top of the generic
  backend. The split halves of DEALER and ROUTER share the backend and run the same code.

  The state of a socket is its backend, which includes the fair queue, and the world.
\<close>

section \<open>Polling the fair queue of a backend\<close>

text \<open>The callback that \<open>with_options\<close> installs with \<open>set_on_disconnect\<close>: when a stream ends the backend
  disconnects its peer.\<close>

abbreviation set_fair_queue :: "('s, peer_identity) queue_inner \<Rightarrow> 's generic_backend \<Rightarrow> 's generic_backend" where
  "set_fair_queue q b \<equiv> b \<lparr> fair_queue_inner := Some q \<rparr>"

definition generic_callback ::
    "'w env \<Rightarrow> peer_identity \<Rightarrow> ('s generic_backend \<times> 'w) \<times> ('s, peer_identity) queue_inner
      \<Rightarrow> ('s generic_backend \<times> 'w) \<times> ('s, peer_identity) queue_inner" where
  "generic_callback env = backend_callback fair_queue_inner set_fair_queue (generic_peer_disconnected env)"

definition generic_poll_item ::
    "'w env \<Rightarrow> ('s, item) poll_stream \<Rightarrow> nat \<Rightarrow> ('s generic_backend \<times> 'w) poll_item" where
  "generic_poll_item env poll_stream cx =
     backend_poll_item fair_queue_inner set_fair_queue (generic_peer_disconnected env) poll_stream cx"

section \<open>PUSH and PULL\<close>

definition push_with_options :: "socket_options \<Rightarrow> 's generic_backend" where
  "push_with_options options = generic_with_options None PUSH options"

definition push_send ::
    "'w env \<Rightarrow> zmq_message \<Rightarrow> 's generic_backend \<times> 'w \<Rightarrow> unit zmq_result \<times> 's generic_backend \<times> 'w" where
  "push_send env message bw = send_round_robin env (Message_Message message) bw"

definition pull_with_options :: "socket_options \<Rightarrow> 's generic_backend" where
  "pull_with_options options = generic_with_options (Some queue_new) PULL options"

definition pull_recv ::
    "nat \<Rightarrow> 'w env \<Rightarrow> ('s, item) poll_stream \<Rightarrow> nat \<Rightarrow> 's generic_backend \<times> 'w
      \<Rightarrow> (zmq_message zmq_result poll \<times> 's generic_backend \<times> 'w) option" where
  "pull_recv fuel env poll_stream cx bw =
     recv_loop fuel (generic_poll_item env poll_stream cx)
       (\<lambda>pid message bw. (Return (Ok message), bw))
       (\<lambda>pid e bw. (Return (Err (ErrCodec e)), generic_peer_disconnected env pid bw)) bw"

section \<open>DEALER\<close>

definition dealer_with_options :: "socket_options \<Rightarrow> 's generic_backend" where
  "dealer_with_options options = generic_with_options (Some queue_new) DEALER options"

definition dealer_send ::
    "'w env \<Rightarrow> zmq_message \<Rightarrow> 's generic_backend \<times> 'w \<Rightarrow> unit zmq_result \<times> 's generic_backend \<times> 'w" where
  "dealer_send env message bw = send_round_robin env (Message_Message message) bw"

text \<open>DEALER returns an error without disconnecting the peer.\<close>

definition dealer_recv ::
    "nat \<Rightarrow> 'w env \<Rightarrow> ('s, item) poll_stream \<Rightarrow> nat \<Rightarrow> 's generic_backend \<times> 'w
      \<Rightarrow> (zmq_message zmq_result poll \<times> 's generic_backend \<times> 'w) option" where
  "dealer_recv fuel env poll_stream cx bw =
     recv_loop fuel (generic_poll_item env poll_stream cx)
       (\<lambda>pid message bw. (Return (Ok message), bw))
       (\<lambda>pid e bw. (Return (Err (ErrCodec e)), bw)) bw"

text \<open>\<open>split\<close>: the socket's backend and queue move to the halves, the socket keeps a fresh backend without a
  queue, which is shut down when the socket is dropped. The result is the shared backend and the dropped one.\<close>

definition dealer_split ::
    "'s generic_backend \<times> 'w \<Rightarrow> ('s generic_backend \<times> 'w) \<times> 's generic_backend" where
  "dealer_split bw =
     (let dummy = generic_with_options None DEALER options_default
      in (bw, fst (generic_shutdown (dummy, snd bw))))"

section \<open>ROUTER\<close>

definition router_with_options :: "socket_options \<Rightarrow> 's generic_backend" where
  "router_with_options options = generic_with_options (Some queue_new) ROUTER options"

text \<open>ROUTER puts the sender's identity in front of a message, and survives broken peers.\<close>

definition router_recv ::
    "nat \<Rightarrow> 'w env \<Rightarrow> ('s, item) poll_stream \<Rightarrow> nat \<Rightarrow> 's generic_backend \<times> 'w
      \<Rightarrow> (zmq_message zmq_result poll \<times> 's generic_backend \<times> 'w) option" where
  "router_recv fuel env poll_stream cx bw =
     recv_loop fuel (generic_poll_item env poll_stream cx)
       (\<lambda>pid message bw. (Return (Ok (push_front message pid)), bw))
       (\<lambda>pid e bw. (Continue, generic_peer_disconnected env pid bw)) bw"

text \<open>The first frame is unwrapped after the check of the length, so that the branch without one is never
  taken.\<close>

definition router_send ::
    "bytes \<Rightarrow> 'w env \<Rightarrow> zmq_message \<Rightarrow> 's generic_backend \<times> 'w
      \<Rightarrow> unit zmq_result \<times> 's generic_backend \<times> 'w" where
  "router_send uuid env message bw =
     (if msg_len message \<le> 1
      then (Err (ErrSocket ''ROUTER send requires at least 2 frames: identity frame + message''), bw)
      else case pop_front message of
        (None, _) \<Rightarrow> (Err NoMessage, bw)
      | (Some frame, rest) \<Rightarrow>
          (case peer_identity_try_from uuid frame of
             Inl e \<Rightarrow> (Err e, bw)
           | Inr pid \<Rightarrow> send_to_peer env pid (Message_Message rest) bw))"

definition router_split ::
    "'s generic_backend \<times> 'w \<Rightarrow> ('s generic_backend \<times> 'w) \<times> 's generic_backend" where
  "router_split bw =
     (let dummy = generic_with_options None ROUTER options_default
      in (bw, fst (generic_shutdown (dummy, snd bw))))"

text \<open>The halves, and \<open>Drop\<close> of the inner socket they share.\<close>

definition dealer_send_half where "dealer_send_half = dealer_send"
definition dealer_recv_half where "dealer_recv_half = dealer_recv"
definition router_send_half where "router_send_half = router_send"
definition router_recv_half where "router_recv_half = router_recv"
definition socket_drop :: "'s generic_backend \<times> 'w \<Rightarrow> 's generic_backend \<times> 'w" where
  "socket_drop bw = generic_shutdown bw"

section \<open>Lemmas\<close>

text \<open>The invariant of the backend apart from the fair queue, which is being polled.\<close>

definition backend_inv :: "'w env \<Rightarrow> 's generic_backend \<Rightarrow> bool" where
  "backend_inv env b \<longleftrightarrow> finite (dom (peers b)) \<and> dom (peers b) \<subseteq> set (round_robin b)
     \<and> (\<forall>accepted written. env_ok env accepted written \<longrightarrow> cache_ok b)"

lemma disconnected_backend_inv:
  "backend_inv env b \<Longrightarrow> backend_inv env (fst (generic_peer_disconnected env p (b, w)))"
  using disconnected_cache_ok [of env _ _ b p w] by (force simp: backend_inv_def)

interpretation gq: owning_backend fair_queue_inner set_fair_queue "generic_peer_disconnected env"
  "\<lambda>b. dom (peers b)" "backend_inv env" for env :: "'w env"
proof
  fix b :: "'s generic_backend" and p w
  show "backend_inv env b \<Longrightarrow> backend_inv env (fst (generic_peer_disconnected env p (b, w)))"
    by (rule disconnected_backend_inv)
qed (simp_all add: backend_inv_def)

lemma gq_wf:
  assumes "env_ok env accepted written"
  shows "owns_streams fair_queue_inner (\<lambda>b. dom (peers b)) (backend_inv env) b \<longleftrightarrow> generic_wf b \<and> cache_ok b"
  using assms by (auto simp: owns_streams_def backend_inv_def generic_wf_def)

lemma generic_poll_item_ready:
  assumes "fair_queue_inner b = Some q" and "ready_wf q" and "counter q + 1 < 2 ^ 64"
    and "ready_keys q = k # ks" and "streams q k = Some s" and "poll_stream s = (Ready (Some x), s', wk)"
  shows "\<exists>q'. generic_poll_item env poll_stream cx (b, w)
      = (Ready (Some (k, x)), (b \<lparr> fair_queue_inner := Some q' \<rparr>, w))
    \<and> ready_keys q' = ks @ [k] \<and> ready_wf q' \<and> streams q' = (streams q)(k \<mapsto> s')"
  unfolding generic_poll_item_def
  using gq.poll_item_ready [where poll_stream = poll_stream and cx = cx and w = w and env = env, OF assms] .

lemma pop_push_front: "pop_front (push_front m f) = (Some f, m)"
  by (simp add: pop_front_def push_front_def)

lemmas recv_defs = pull_recv_def dealer_recv_def router_recv_def

text \<open>A backend with one connected peer, whose stream waits.\<close>

definition sample_backend :: "byte generic_backend" where
  "sample_backend = fst (generic_peer_connected (sample_env [] []) [7] \<lparr> read_half = 5, write_half = 0 \<rparr>
     (router_with_options options_default, (\<lambda>_. [], \<lambda>_. [], 0)))"

lemma sample_queue:
  "fair_queue_inner sample_backend = Some (queue_insert [7] 5 queue_new)"
  "ready_wf (queue_insert [7] 5 queue_new)" "counter (queue_insert [7] 5 queue_new) + 1 < 2 ^ 64"
  "ready_keys (queue_insert [7] 5 queue_new) = [7] # []" "streams (queue_insert [7] 5 queue_new) [7] = Some 5"
  by (simp_all add: sample_backend_def router_with_options_def generic_with_options_def queue_eval)

lemma sample_backend_inv: "generic_wf sample_backend" "cache_ok sample_backend"
proof -
  let ?st = "(router_with_options options_default, (\<lambda>_. [], \<lambda>_. [], 0))
    :: byte generic_backend \<times> (nat \<Rightarrow> message list) \<times> (nat \<Rightarrow> message list) \<times> nat"
  have wf: "generic_wf (fst ?st)" by (simp add: router_with_options_def generic_wf_new)
  from generic.connected_invar [OF wf] show "generic_wf sample_backend" by (simp add: sample_backend_def)
  from wf have "finite (dom (peers (fst ?st)))" by (simp add: generic_wf_def)
  then show "cache_ok sample_backend"
    unfolding sample_backend_def by (intro connected_cache_ok [OF sample_env_ok]) simp
qed

section \<open>Properties\<close>

text \<open>Receiving: when the peer that has waited longest in the fair queue has a message, PULL and DEALER return
  the message and ROUTER returns it with the peer's identity as its first frame; the peer is moved behind
  the waiting peers, its stream advances, and nothing else of the backend changes.\<close>

theorem recv_delivers_in_turn:
  assumes "fair_queue_inner b = Some q" and "ready_wf q" and "counter q + 1 < 2 ^ 64"
    and "ready_keys q = k # ks" and "streams q k = Some s"
    and "poll_stream s = (Ready (Some (Ok (Message_Message m))), s', wk)"
  shows "\<exists>q'. ready_keys q' = ks @ [k] \<and> ready_wf q' \<and> streams q' = (streams q)(k \<mapsto> s')
    \<and> pull_recv (Suc n) env poll_stream cx (b, w) = Some (Ready (Ok m), b \<lparr> fair_queue_inner := Some q' \<rparr>, w)
    \<and> dealer_recv (Suc n) env poll_stream cx (b, w) = Some (Ready (Ok m), b \<lparr> fair_queue_inner := Some q' \<rparr>, w)
    \<and> router_recv (Suc n) env poll_stream cx (b, w)
        = Some (Ready (Ok (push_front m k)), b \<lparr> fair_queue_inner := Some q' \<rparr>, w)"
proof -
  obtain q' where q': "generic_poll_item env poll_stream cx (b, w)
      = (Ready (Some (k, Ok (Message_Message m))), (b \<lparr> fair_queue_inner := Some q' \<rparr>, w))"
    "ready_keys q' = ks @ [k]" "ready_wf q'" "streams q' = (streams q)(k \<mapsto> s')"
    using generic_poll_item_ready [where poll_stream = poll_stream and env = env and cx = cx and w = w, OF assms]
    by blast
  then show ?thesis by (intro exI [of _ q']) (simp add: recv_defs)
qed

theorem recv_delivers_in_turn_witness:
  "\<exists>q'. router_recv 1 (sample_env [] []) (\<lambda>s. (Ready (Some (Ok (Message_Message \<lparr> frames = [[s]] \<rparr>))), s + 1, False)) 0
      (sample_backend, (\<lambda>_. [], \<lambda>_. [], 0))
    = Some (Ready (Ok \<lparr> frames = [[7], [5]] \<rparr>),
        sample_backend \<lparr> fair_queue_inner := Some q' \<rparr>, (\<lambda>_. [], \<lambda>_. [], 0))
    \<and> ready_keys q' = [[7]]"
proof -
  let ?p = "\<lambda>s :: byte. (Ready (Some (Ok (Message_Message \<lparr> frames = [[s]] \<rparr>) :: item)), s + 1, False)"
  obtain q' where "router_recv (Suc 0) (sample_env [] []) ?p 0 (sample_backend, (\<lambda>_. [], \<lambda>_. [], 0))
    = Some (Ready (Ok (push_front \<lparr> frames = [[5]] \<rparr> [7])),
        sample_backend \<lparr> fair_queue_inner := Some q' \<rparr>, (\<lambda>_. [], \<lambda>_. [], 0))" "ready_keys q' = [] @ [[7]]"
    using recv_delivers_in_turn [where poll_stream = ?p and n = 0 and env = "sample_env [] []" and cx = 0
        and w = "(\<lambda>_. [], \<lambda>_. [], 0)", OF sample_queue refl] by blast
  then show ?thesis by (intro exI [of _ q']) (simp add: push_front_def)
qed

text \<open>What a broken connection does to a receiver: PULL disconnects the peer and returns the error; DEALER
  returns the error and keeps the peer; ROUTER disconnects the peer and goes on receiving from the others.
  A greeting or command frame is skipped by all three.\<close>

theorem recv_error_policies:
  assumes "generic_poll_item env poll_stream cx bw = (Ready (Some (k, x)), bw1)"
  shows "(case x of
      Inl e \<Rightarrow> pull_recv (Suc n) env poll_stream cx bw
            = Some (Ready (Err (ErrCodec e)), generic_peer_disconnected env k bw1)
          \<and> dealer_recv (Suc n) env poll_stream cx bw = Some (Ready (Err (ErrCodec e)), bw1)
          \<and> router_recv (Suc n) env poll_stream cx bw
            = router_recv n env poll_stream cx (generic_peer_disconnected env k bw1)
    | Inr (Message_Message m) \<Rightarrow> True
    | Inr _ \<Rightarrow> pull_recv (Suc n) env poll_stream cx bw = pull_recv n env poll_stream cx bw1
          \<and> dealer_recv (Suc n) env poll_stream cx bw = dealer_recv n env poll_stream cx bw1
          \<and> router_recv (Suc n) env poll_stream cx bw = router_recv n env poll_stream cx bw1)"
  using assms by (auto simp: recv_defs split: sum.splits message.splits)

theorem recv_error_policies_witness:
  "\<exists>bw1. dealer_recv 1 (sample_env [] []) (\<lambda>s. (Ready (Some (Err (CodecIo UnexpectedEof))), s, False)) 0
      (sample_backend, (\<lambda>_. [], \<lambda>_. [], 0))
    = Some (Ready (Err (ErrCodec (CodecIo UnexpectedEof))), bw1)"
proof -
  let ?p = "\<lambda>s :: byte. (Ready (Some (Err (CodecIo UnexpectedEof) :: item)), s, False)"
  obtain bw1 where "generic_poll_item (sample_env [] []) ?p 0 (sample_backend, (\<lambda>_. [], \<lambda>_. [], 0))
      = (Ready (Some ([7], Err (CodecIo UnexpectedEof))), bw1)"
    using generic_poll_item_ready [where poll_stream = ?p and env = "sample_env [] []" and cx = 0
        and w = "(\<lambda>_. [], \<lambda>_. [], 0)", OF sample_queue refl] by blast
  from recv_error_policies [OF this, where n = 0] show ?thesis by (intro exI [of _ bw1]) simp
qed

text \<open>C36: Receiving keeps the backend's invariants, whatever the streams deliver and whichever peers are
  disconnected on the way: every stream belongs to a connected peer, every peer is in the rotation, the
  single-peer cache agrees with the peers.\<close>

theorem recv_keeps_invariants:
  assumes "env_ok env accepted written" and "generic_wf (fst bw)" and "cache_ok (fst bw)"
    and "fair_queue_inner (fst bw) \<noteq> None"
    and "pull_recv n env poll_stream cx bw = Some (r, bw') \<or> dealer_recv n env poll_stream cx bw = Some (r, bw')
      \<or> router_recv n env poll_stream cx bw = Some (r, bw')"
  shows "generic_wf (fst bw') \<and> cache_ok (fst bw')"
proof -
  have wf: "owns_streams fair_queue_inner (\<lambda>b. dom (peers b)) (backend_inv env) (fst bw)" using assms(2,3) by (simp add: gq_wf [OF assms(1)])
  note loop = gq.recv_loop_wf [where env = env and poll_stream = poll_stream and cx = cx, OF _ wf assms(4)]
  from assms(5) consider "pull_recv n env poll_stream cx bw = Some (r, bw')"
    | "dealer_recv n env poll_stream cx bw = Some (r, bw')" | "router_recv n env poll_stream cx bw = Some (r, bw')"
    by blast
  then have "owns_streams fair_queue_inner (\<lambda>b. dom (peers b)) (backend_inv env) (fst bw') \<and> fair_queue_inner (fst bw') \<noteq> None"
    by cases (unfold recv_defs generic_poll_item_def, (erule loop; force)+)
  then show ?thesis by (simp add: gq_wf [OF assms(1)])
qed

theorem recv_keeps_invariants_witness:
  "\<exists>bw'. pull_recv 1 (sample_env [] []) (\<lambda>s. (Ready (Some (Err (CodecIo UnexpectedEof))), s, False)) 0
      (sample_backend, (\<lambda>_. [], \<lambda>_. [], 1)) = Some (Ready (Err (ErrCodec (CodecIo UnexpectedEof))), bw')
    \<and> generic_wf (fst bw') \<and> cache_ok (fst bw')"
proof -
  let ?p = "\<lambda>s :: byte. (Ready (Some (Err (CodecIo UnexpectedEof) :: item)), s, False)"
  obtain bw1 where "generic_poll_item (sample_env [] []) ?p 0 (sample_backend, (\<lambda>_. [], \<lambda>_. [], 1))
      = (Ready (Some ([7], Err (CodecIo UnexpectedEof))), bw1)"
    using generic_poll_item_ready [where poll_stream = ?p and env = "sample_env [] []" and cx = 0
        and w = "(\<lambda>_. [], \<lambda>_. [], 1)", OF sample_queue refl] by blast
  then have r: "pull_recv 1 (sample_env [] []) ?p 0 (sample_backend, (\<lambda>_. [], \<lambda>_. [], 1))
      = Some (Ready (Err (ErrCodec (CodecIo UnexpectedEof))), generic_peer_disconnected (sample_env [] []) [7] bw1)"
    by (simp add: recv_defs)
  have "generic_wf (fst (generic_peer_disconnected (sample_env [] []) [7] bw1))
      \<and> cache_ok (fst (generic_peer_disconnected (sample_env [] []) [7] bw1))"
    by (rule recv_keeps_invariants [OF sample_env_ok _ _ _ disjI1 [OF r]]) (simp_all add: sample_backend_inv sample_queue)
  with r show ?thesis by blast
qed

text \<open>Routing by identity: a message that ROUTER received, sent back unchanged, goes to the peer it came
  from, without the identity frame. ROUTER sends nothing when the message has fewer than two frames or
  when its first frame is longer than an identity may be.\<close>

theorem router_echo:
  assumes "1 \<le> length k" and "length k \<le> 255" and "frames m \<noteq> []"
  shows "router_send uuid env (push_front m k) bw = send_to_peer env k (Message_Message m) bw
    \<and> (\<forall>m'. length (frames m') \<le> 1 \<longrightarrow> (\<exists>e. router_send uuid env m' bw = (Err e, bw)))
    \<and> (\<forall>m' f. length f > 255 \<and> frames m' \<noteq> [] \<longrightarrow> router_send uuid env (push_front m' f) bw = (Err ErrPeerIdentity, bw))"
proof (intro conjI allI impI)
  have len: "1 < msg_len (push_front m' f)" if "frames m' \<noteq> []" for m' f
    using that by (cases m') (auto simp: msg_len_def push_front_def neq_Nil_conv)
  show "router_send uuid env (push_front m k) bw = send_to_peer env k (Message_Message m) bw"
    using assms len [OF assms(3), of k] by (auto simp: router_send_def pop_push_front peer_identity_try_from_def MAX_LENGTH_def)
  show "\<exists>e. router_send uuid env m' bw = (Err e, bw)" if "length (frames m') \<le> 1" for m'
    using that by (simp add: router_send_def msg_len_def)
  show "router_send uuid env (push_front m' f) bw = (Err ErrPeerIdentity, bw)"
    if "length f > 255 \<and> frames m' \<noteq> []" for m' f
    using that len [of m' f] by (auto simp: router_send_def pop_push_front peer_identity_try_from_def MAX_LENGTH_def)
qed

theorem router_echo_witness:
  "router_send [9] (sample_env [] []) \<lparr> frames = [[7], [5]] \<rparr> (sample_backend, (\<lambda>_. [], \<lambda>_. [], 1))
    = send_to_peer (sample_env [] []) [7] (Message_Message \<lparr> frames = [[5]] \<rparr>) (sample_backend, (\<lambda>_. [], \<lambda>_. [], 1))"
  using router_echo [of "[7]" "\<lparr> frames = [[5]] \<rparr>" "[9]" "sample_env [] []" "(sample_backend, (\<lambda>_. [], \<lambda>_. [], 1))"]
  by (simp add: push_front_def)

end
