(* ===== verification/Peer_Streams.thy ===== *)
theory Peer_Streams
  imports Queue_Backend "HOL-Library.Sublist"
begin

text \<open>
  The order of messages across a receiving socket. The streams of the peers are given by the messages that each
  still holds (\<open>message_streams\<close>); the lemmas account, peer by peer, for what polling the queue and receiving
  take out of them: nothing is invented, nothing overtakes, and nothing is lost while the peer stays connected.
\<close>

section \<open>Streams of messages\<close>

locale message_streams =
  fixes poll_stream :: "('s, item) poll_stream" and valid :: "'s \<Rightarrow> bool" and content :: "'s \<Rightarrow> message list"
  assumes stream_item: "valid s \<Longrightarrow> poll_stream s = (Ready (Some (Ok m)), s', wk)
      \<Longrightarrow> valid s' \<and> content s = m # content s'"
    and stream_pending: "valid s \<Longrightarrow> poll_stream s = (Pending, s', wk) \<Longrightarrow> valid s' \<and> content s' = content s"
    and stream_ended: "valid s \<Longrightarrow> poll_stream s = (Ready None, s', wk) \<Longrightarrow> content s = []"
begin

abbreviation rest :: "'s option \<Rightarrow> message list" where
  "rest \<equiv> case_option [] content"

text \<open>What has become of a stream that delivered nothing.\<close>

definition same_rest :: "'s option \<Rightarrow> 's option \<Rightarrow> bool" where
  "same_rest s t \<longleftrightarrow> (pred_option valid s \<longrightarrow> pred_option valid t \<and> rest t = rest s)"

lemma poll_rest:
  assumes "queue_poll_next block poll_stream cb cx b q = (r, b', q')" and "tame cb"
    and "\<And>l. pred_option valid (streams q l)"
  shows "(\<nexists>x. r = Ready (Some (l, x))) \<Longrightarrow> pred_option valid (streams q' l) \<and> rest (streams q' l) = rest (streams q l)"
    and "r = Ready (Some (l, Ok m)) \<Longrightarrow> pred_option valid (streams q' l) \<and> rest (streams q l) = m # rest (streams q' l)"
proof -
  have "poll_loop (length (ready_queue q)) block poll_stream cb cx b (q \<lparr> waker := Some cx \<rparr>) = (r, b', q')"
    using assms(1) by (simp add: queue_poll_next_def Let_def)
  note p = poll_loop_streams [where R = same_rest, OF this assms(2)]
  have p: "(\<forall>l. (\<nexists>x. r = Ready (Some (l, x))) \<longrightarrow> same_rest (streams q l) (streams q' l))
    \<and> (\<forall>k x. r = Ready (Some (k, x)) \<longrightarrow> (\<exists>s s' wk. same_rest (streams q k) (Some s)
        \<and> poll_stream s = (Ready (Some x), s', wk) \<and> streams q' k = Some s'))"
    using p by (auto simp: same_rest_def stream_pending stream_ended)
  show "pred_option valid (streams q' l) \<and> rest (streams q' l) = rest (streams q l)" if "\<nexists>x. r = Ready (Some (l, x))"
    using p that assms(3) [of l] by (auto simp: same_rest_def)
  show "pred_option valid (streams q' l) \<and> rest (streams q l) = m # rest (streams q' l)"
    if "r = Ready (Some (l, Ok m))"
  proof -
    from p that obtain s s' wk where "same_rest (streams q l) (Some s)"
      "poll_stream s = (Ready (Some (Ok m)), s', wk)" "streams q' l = Some s'" by blast
    with stream_item [of s m s' wk] assms(3) [of l] show ?thesis by (auto simp: same_rest_def)
  qed
qed

end

section \<open>Backends over such streams\<close>

text \<open>The messages among the frames, and the message of peer \<open>l\<close> in what one call of \<open>recv\<close> handed out.\<close>

fun data_of :: "message list \<Rightarrow> zmq_message list" where
  "data_of [] = []"
| "data_of (Message_Message m # ms) = m # data_of ms"
| "data_of (_ # ms) = data_of ms"

lemma data_of_append [simp]: "data_of (xs @ ys) = data_of xs @ data_of ys"
  by (induction xs rule: data_of.induct) auto

lemma data_of_prefix: "prefix xs ys \<Longrightarrow> prefix (data_of xs) (data_of ys)"
  by (auto simp: prefix_def)

definition from_peer :: "peer_identity \<Rightarrow> (peer_identity \<times> zmq_message) list \<Rightarrow> zmq_message list" where
  "from_peer l ds = map snd (filter (\<lambda>d. fst d = l) ds)"

lemma from_peer_simps [simp]:
  "from_peer l [] = []" "from_peer l (d # ds) = (if fst d = l then snd d # from_peer l ds else from_peer l ds)"
  "from_peer l (ds @ es) = from_peer l ds @ from_peer l es"
  by (simp_all add: from_peer_def)

definition of_peer :: "peer_identity \<Rightarrow> (peer_identity \<times> zmq_message) option \<Rightarrow> zmq_message list" where
  "of_peer l d = from_peer l (case d of None \<Rightarrow> [] | Some x \<Rightarrow> [x])"

text \<open>\<open>d\<close> is the peer and message behind the result of \<open>recv\<close>; \<open>f\<close> is what the socket makes of them.\<close>

definition outcome ::
    "(peer_identity \<Rightarrow> zmq_message \<Rightarrow> 'a) \<Rightarrow> 'a zmq_result poll \<Rightarrow> (peer_identity \<times> zmq_message) option \<Rightarrow> bool" where
  "outcome f r d = (case d of Some (k, m) \<Rightarrow> r = Ready (Ok (f k m)) | None \<Rightarrow> \<nexists>v. r = Ready (Ok v))"

text \<open>The stream of a peer, and the messages that are still to come from it.\<close>

definition peer_stream ::
    "('b \<Rightarrow> ('s, peer_identity) queue_inner option) \<Rightarrow> 'b \<Rightarrow> peer_identity \<Rightarrow> 's option" where
  "peer_stream queue_of b l = (case queue_of b of None \<Rightarrow> None | Some q \<Rightarrow> streams q l)"

definition peer_future ::
    "('b \<Rightarrow> ('s, peer_identity) queue_inner option) \<Rightarrow> ('s \<Rightarrow> message list) \<Rightarrow> 'b \<Rightarrow> peer_identity \<Rightarrow> message list" where
  "peer_future queue_of content b l = case_option [] content (peer_stream queue_of b l)"

definition sound_streams ::
    "('b \<Rightarrow> ('s, peer_identity) queue_inner option) \<Rightarrow> ('b \<Rightarrow> peer_identity set) \<Rightarrow> ('b \<Rightarrow> bool)
      \<Rightarrow> ('s \<Rightarrow> bool) \<Rightarrow> 'b \<Rightarrow> bool" where
  "sound_streams queue_of owners invar valid b \<longleftrightarrow> owns_streams queue_of owners invar b \<and> queue_of b \<noteq> None
     \<and> (\<forall>l. pred_option valid (peer_stream queue_of b l))"

text \<open>\<open>ms\<close> has been taken out of the stream of \<open>l\<close>.\<close>

definition took_from ::
    "('b \<Rightarrow> ('s, peer_identity) queue_inner option) \<Rightarrow> ('b \<Rightarrow> peer_identity set) \<Rightarrow> ('s \<Rightarrow> message list)
      \<Rightarrow> peer_identity \<Rightarrow> message list \<Rightarrow> 'b \<Rightarrow> 'b \<Rightarrow> bool" where
  "took_from queue_of owners content l ms b b' \<longleftrightarrow> prefix ms (peer_future queue_of content b l)
     \<and> (l \<in> owners b' \<longrightarrow> peer_future queue_of content b l = ms @ peer_future queue_of content b' l)"

locale stream_backend =
  owning_backend queue_of set_queue disconnected owners invar + message_streams poll_stream valid content
  for queue_of :: "'b \<Rightarrow> ('s, peer_identity) queue_inner option" and set_queue
    and disconnected :: "peer_identity \<Rightarrow> 'b \<times> 'w \<Rightarrow> 'b \<times> 'w" and owners and invar
    and poll_stream :: "('s, item) poll_stream" and valid and content
begin

abbreviation stream_of where "stream_of \<equiv> peer_stream queue_of"
abbreviation future where "future \<equiv> peer_future queue_of content"

abbreviation sound where "sound \<equiv> sound_streams queue_of owners invar valid"
abbreviation took where "took \<equiv> took_from queue_of owners content"

lemma future_unowned: "sound b \<Longrightarrow> l \<notin> owners b \<Longrightarrow> future b l = []"
  by (auto simp: sound_streams_def owns_streams_def peer_future_def peer_stream_def split: option.splits)

lemma took_trans:
  assumes "took l ms b b1" and "took l ns b1 b2" and "sound b1" and "owners b2 \<subseteq> owners b1"
  shows "took l (ms @ ns) b b2"
  using assms future_unowned [OF assms(3), of l]
  by (cases "l \<in> owners b1") (auto simp: took_from_def prefix_def subset_iff)

lemma poll_item_future:
  assumes "poll_item poll_stream cx bw = (r, bw')" and "sound (fst bw)"
  shows "owners (fst bw') \<subseteq> owners (fst bw)" and "wf (fst bw')" and "queue_of (fst bw') \<noteq> None"
    and "(\<nexists>x. r = Ready (Some (l, x))) \<Longrightarrow>
      pred_option valid (stream_of (fst bw') l) \<and> future (fst bw') l = future (fst bw) l"
    and "r = Ready (Some (l, Ok m)) \<Longrightarrow>
      pred_option valid (stream_of (fst bw') l) \<and> future (fst bw) l = m # future (fst bw') l"
proof -
  obtain q where q: "queue_of (fst bw) = Some q" using assms(2) by (auto simp: sound_streams_def)
  obtain b1 w1 q1 where p: "queue_poll_next True poll_stream (Some callback) cx bw q = (r, (b1, w1), q1)"
    and bw': "bw' = (set_queue q1 b1, w1)"
    using assms(1) q by (auto simp: backend_poll_item_def split: prod.splits)
  have v: "pred_option valid (streams q l)" for l
    using assms(2) q by (auto simp: sound_streams_def peer_stream_def dest: spec [of _ l])
  note rst = poll_rest [OF p callback_tame v]
  have st: "stream_of (fst bw') l = streams q1 l" "stream_of (fst bw) l = streams q l" for l
    using q by (simp_all add: peer_stream_def bw' get_set)
  show "(\<nexists>x. r = Ready (Some (l, x))) \<Longrightarrow>
      pred_option valid (stream_of (fst bw') l) \<and> future (fst bw') l = future (fst bw) l"
    using rst(1) unfolding peer_future_def st by blast
  show "r = Ready (Some (l, Ok m)) \<Longrightarrow>
      pred_option valid (stream_of (fst bw') l) \<and> future (fst bw) l = m # future (fst bw') l"
    using rst(2) unfolding peer_future_def st by blast
  show "wf (fst bw')" "queue_of (fst bw') \<noteq> None"
    using poll_item_wf [OF assms(1)] assms(2) by (auto simp: sound_streams_def)
  have "owners (fst bw') \<subseteq> owners (fst bw)"
    by (rule poll_item_invariant [where I = "\<lambda>bw'. owners (fst bw') \<subseteq> owners (fst bw)", OF assms(1)])
      (auto simp: owners_set removes_owner)
  then show "owners (fst bw') \<subseteq> owners (fst bw)" .
qed

text \<open>Disconnecting a peer drops its stream, valid or not.\<close>

lemma disconnected_sound:
  assumes "wf (fst bw)" and "queue_of (fst bw) \<noteq> None" and "\<And>k. k \<noteq> l \<Longrightarrow> pred_option valid (stream_of (fst bw) k)"
  shows "sound (fst (disconnected l bw))" and "owners (fst (disconnected l bw)) = owners (fst bw) - {l}"
    and "k \<noteq> l \<Longrightarrow> future (fst (disconnected l bw)) k = future (fst bw) k"
proof -
  obtain b w q where bw: "bw = (b, w)" and q: "queue_of b = Some q" using assms(2) by (cases bw) auto
  note s = removes_stream [OF q, of l w]
  have st: "stream_of (fst (disconnected l bw)) k = (if k = l then None else stream_of b k)" for k
    by (simp add: peer_stream_def bw q s)
  show "sound (fst (disconnected l bw))"
    using disconnected_wf [of b l w] assms(1,3) q s by (auto simp: sound_streams_def st [unfolded bw] bw)
  show "owners (fst (disconnected l bw)) = owners (fst bw) - {l}" using removes_owner [of l b w] by (simp add: bw)
  show "k \<noteq> l \<Longrightarrow> future (fst (disconnected l bw)) k = future (fst bw) k" by (simp add: peer_future_def st [unfolded bw] bw)
qed

lemma took_poll:
  assumes "poll_item poll_stream cx bw = (r, bw')" and "sound (fst bw)"
  shows "(\<nexists>x. r = Ready (Some (l, x))) \<Longrightarrow> took l [] (fst bw) (fst bw')"
    and "r = Ready (Some (l, Ok m)) \<Longrightarrow> took l [m] (fst bw) (fst bw')"
    and "(\<nexists>k e. r = Ready (Some (k, Err e))) \<Longrightarrow> sound (fst bw')"
proof -
  note p = poll_item_future [OF assms]
  show "(\<nexists>x. r = Ready (Some (l, x))) \<Longrightarrow> took l [] (fst bw) (fst bw')" using p(4) by (simp add: took_from_def)
  show "r = Ready (Some (l, Ok m)) \<Longrightarrow> took l [m] (fst bw) (fst bw')" using p(5) by (simp add: took_from_def)
  assume r: "\<nexists>k e. r = Ready (Some (k, Err e))"
  have "pred_option valid (stream_of (fst bw') l)" for l
  proof (cases "\<exists>x. r = Ready (Some (l, x))")
    case True
    with r obtain m where "r = Ready (Some (l, Ok m))" by (metis sum.exhaust)
    with p(5) show ?thesis by blast
  qed (use p(4) in blast)
  with p(2,3) show "sound (fst bw')" by (simp add: sound_streams_def)
qed

text \<open>One item with its handling by a socket that disconnects the peers of broken streams.\<close>

lemma took_error:
  assumes "poll_item poll_stream cx bw = (Ready (Some (k, Err e)), bw1)" and "sound (fst bw)"
  shows "took l [] (fst bw) (fst (disconnected k bw1))" and "sound (fst (disconnected k bw1))"
    and "owners (fst (disconnected k bw1)) \<subseteq> owners (fst bw)"
proof -
  note p = poll_item_future [OF assms]
  have "\<And>l. l \<noteq> k \<Longrightarrow> pred_option valid (stream_of (fst bw1) l)" using p(4) by simp
  note d = disconnected_sound [OF p(2,3) this]
  show "sound (fst (disconnected k bw1))" "owners (fst (disconnected k bw1)) \<subseteq> owners (fst bw)"
    using d(1,2) p(1) by auto
  show "took l [] (fst bw) (fst (disconnected k bw1))"
    using p(4) [of l] d(2,3) by (cases "l = k") (auto simp: took_from_def)
qed

lemma recv_loop_future:
  assumes "recv_loop fuel (poll_item poll_stream cx) (\<lambda>pid m bw. (Return (Ok (f pid m)), bw)) on_error bw = Some (r, bw')"
    and "sound (fst bw)"
    and "\<And>pid e bw. fst (on_error pid e bw) = Continue \<or> (\<exists>err. fst (on_error pid e bw) = Return (Err err))"
    and "\<And>pid e bw. snd (on_error pid e bw) = disconnected pid bw
      \<or> (\<nexists>err. r = Ready (Err err)) \<and> (\<exists>err. fst (on_error pid e bw) = Return (Err err))"
  shows "sound (fst bw') \<and> owners (fst bw') \<subseteq> owners (fst bw)
    \<and> (\<exists>d. outcome f r d \<and> (\<forall>l. \<exists>ms. took l ms (fst bw) (fst bw') \<and> data_of ms = of_peer l d))"
    (is "?Q bw")
  using assms(1,2)
proof (induction fuel arbitrary: bw)
  case (Suc fuel)
  obtain p bw1 where p: "poll_item poll_stream cx bw = (p, bw1)" by (meson surj_pair)
  note own = poll_item_future(1) [OF p Suc.prems(2)] and t = took_poll [OF p Suc.prems(2)]
  have cont: ?case
    if run: "recv_loop fuel (poll_item poll_stream cx) (\<lambda>pid m bw. (Return (Ok (f pid m)), bw)) on_error bw2 = Some (r, bw')"
      and s2: "sound (fst bw2)" and o2: "owners (fst bw2) \<subseteq> owners (fst bw)"
      and t2: "\<And>l. \<exists>ms. took l ms (fst bw) (fst bw2) \<and> data_of ms = []" for bw2
  proof -
    from Suc.IH [OF run s2] obtain d where d: "sound (fst bw')" "owners (fst bw') \<subseteq> owners (fst bw2)"
      "outcome f r d" "\<And>l. \<exists>ms. took l ms (fst bw2) (fst bw') \<and> data_of ms = of_peer l d" by blast
    have "\<exists>ms. took l ms (fst bw) (fst bw') \<and> data_of ms = of_peer l d" for l
      using t2 [of l] d(4) [of l] took_trans [OF _ _ s2 d(2)] by (metis append_Nil data_of_append)
    with d o2 show ?thesis by blast
  qed
  consider "\<nexists>k x. p = Ready (Some (k, x))" | k m where "p = Ready (Some (k, Ok (Message_Message m)))"
    | k m where "p = Ready (Some (k, Ok m))" "data_of [m] = []" | k e where "p = Ready (Some (k, Err e))"
    by (metis old.sum.exhaust data_of.simps(1,3,4) message.exhaust)
  then show ?case
  proof cases
    case 1
    then have "bw' = bw1" "\<nexists>v. r = Ready (Ok v)"
      using Suc.prems(1) p by (auto split: poll.splits option.splits)
    with 1 own t show ?thesis
      by (intro conjI exI [of _ None]) (auto simp: outcome_def of_peer_def intro!: exI [of _ "[]"])
  next
    case (2 k m)
    then have "bw' = bw1" "r = Ready (Ok (f k m))" using Suc.prems(1) p by auto
    moreover have "\<exists>ms. took l ms (fst bw) (fst bw1) \<and> data_of ms = of_peer l (Some (k, m))" for l
      using t(1,2) [of l] 2 by (cases "l = k") (auto simp: of_peer_def intro: exI [of _ "[Message_Message m]"] exI [of _ "[]"])
    ultimately show ?thesis using own t(3) 2 by (intro conjI exI [of _ "Some (k, m)"]) (auto simp: outcome_def)
  next
    case (3 k m)
    have "\<exists>ms. took l ms (fst bw) (fst bw1) \<and> data_of ms = []" for l
      using t(1,2) [of l] 3 by (cases "l = k") (auto intro: exI [of _ "[m]"] exI [of _ "[]"])
    moreover have "recv_loop fuel (poll_item poll_stream cx) (\<lambda>pid m bw. (Return (Ok (f pid m)), bw)) on_error bw1 = Some (r, bw')"
      using Suc.prems(1) p 3 by (cases m) auto
    ultimately show ?thesis using own t(3) 3 by (intro cont [of bw1]) auto
  next
    case (4 k e)
    note te = took_error [OF p [unfolded 4] Suc.prems(2)]
    obtain h bw2 where h: "on_error k e bw1 = (h, bw2)" by (meson surj_pair)
    then have run: "(case h of Return r \<Rightarrow> Some (Ready r, bw2)
        | Continue \<Rightarrow> recv_loop fuel (poll_item poll_stream cx) (\<lambda>pid m bw. (Return (Ok (f pid m)), bw)) on_error bw2)
      = Some (r, bw')"
      using Suc.prems(1) p 4 by simp
    from assms(3) [of k e bw1] h consider "h = Continue" | err where "h = Return (Err err)" by auto
    then show ?thesis
    proof cases
      case 1
      with assms(4) [of k e bw1] h have "bw2 = disconnected k bw1" by auto
      with run 1 te show ?thesis by (intro cont [of bw2]) (auto intro: exI [of _ "[]"])
    next
      case (2 err)
      with run have r: "r = Ready (Err err)" "bw' = bw2" by auto
      with assms(4) [of k e bw1] h have "bw' = disconnected k bw1" by auto
      with te r show ?thesis
        by (intro conjI exI [of _ None]) (auto simp: outcome_def of_peer_def intro!: exI [of _ "[]"])
    qed
  qed
qed simp

end

section \<open>Receiving everything\<close>

text \<open>A number of calls of \<open>recv\<close>, with their results.\<close>

fun recv_times :: "nat \<Rightarrow> ('st \<Rightarrow> ('r \<times> 'st) option) \<Rightarrow> 'st \<Rightarrow> ('r list \<times> 'st) option" where
  "recv_times 0 recv st = Some ([], st)"
| "recv_times (Suc n) recv st =
     (case recv st of
        None \<Rightarrow> None
      | Some (r, st') \<Rightarrow> map_option (apfst ((#) r)) (recv_times n recv st'))"

text \<open>Streams that are never pending and never fail, and enough room in the queue's counter for \<open>n\<close> more polls.\<close>

definition all_waiting :: "nat \<Rightarrow> ('s, peer_identity) queue_inner \<Rightarrow> bool" where
  "all_waiting n q \<longleftrightarrow> ready_wf q \<and> dom (streams q) \<subseteq> set (ready_keys q)
     \<and> counter q + n * length (ready_queue q) < 2 ^ 64"

text \<open>The items that the peers of a finite set still have.\<close>

definition peer_load ::
    "('b \<Rightarrow> ('s, peer_identity) queue_inner option) \<Rightarrow> ('s \<Rightarrow> message list) \<Rightarrow> peer_identity set \<Rightarrow> 'b \<Rightarrow> nat" where
  "peer_load queue_of content K b = (\<Sum>l \<in> K. length (peer_future queue_of content b l))"

locale complete_backend = stream_backend +
  assumes never_pending: "valid s \<Longrightarrow> poll_stream s \<noteq> (Pending, s', wk)"
    and never_error: "valid s \<Longrightarrow> poll_stream s \<noteq> (Ready (Some (Err e)), s', wk)"
begin

abbreviation waiting :: "nat \<Rightarrow> 'a \<Rightarrow> bool" where
  "waiting n b \<equiv> \<exists>q. queue_of b = Some q \<and> all_waiting n q"

lemma poll_item_complete:
  assumes "poll_item poll_stream cx bw = (r, bw')" and "sound (fst bw)" and "waiting (Suc n) (fst bw)"
  shows "waiting n (fst bw')" and "future (fst bw) l \<noteq> [] \<Longrightarrow> \<exists>k m. r = Ready (Some (k, Ok m))"
    and "\<nexists>k e. r = Ready (Some (k, Err e))"
proof -
  obtain q where q: "queue_of (fst bw) = Some q" and all: "all_waiting (Suc n) q" using assms(3) by blast
  obtain b1 w1 q1 where p: "queue_poll_next True poll_stream (Some callback) cx bw q = (r, (b1, w1), q1)"
    and bw': "bw' = (set_queue q1 b1, w1)"
    using assms(1) q by (auto simp: backend_poll_item_def split: prod.splits)
  let ?q = "q \<lparr> waker := Some cx \<rparr>" and ?n = "length (ready_queue q)"
  have loop: "poll_loop ?n True poll_stream (Some callback) cx bw ?q = (r, (b1, w1), q1)"
    using p by (simp add: queue_poll_next_def Let_def)
  have room: "ready_wf ?q" "counter ?q + ?n < 2 ^ 64" "dom (streams ?q) \<subseteq> set (take ?n (ready_keys ?q))"
    using all by (simp_all add: all_waiting_def)
  have v: "pred_option valid (streams q l)" for l
    using assms(2) q by (auto simp: sound_streams_def peer_stream_def dest: spec [of _ l])
  then have np: "streams ?q l = Some s \<Longrightarrow> poll_stream s \<noteq> (Pending, s', wk)" for l s s' wk
    using never_pending [of s s' wk] by (metis option.pred_inject(2) queue_inner.select_convs(4) queue_inner.surjective queue_inner.update_convs(5))
  have c: "dom (streams q1) \<subseteq> set (ready_keys q1) \<and> (streams q1 \<noteq> Map.empty \<longrightarrow> (\<exists>i. r = Ready (Some i)))
      \<and> length (ready_queue q1) \<le> length (ready_queue ?q)"
    by (rule poll_loop_prompt [OF loop callback_tame room(1) _ room(2,3) np]) simp
  have d: "consumed ?n poll_stream r ?q q1 \<and> ready_wf q1 \<and> counter q1 \<le> counter ?q + ?n"
    by (rule poll_loop_consumes [OF loop room(1) _ room(2) callback_tame]) simp
  have "counter q1 + n * length (ready_queue q1) \<le> counter q + Suc n * ?n"
  proof -
    have "n * length (ready_queue q1) \<le> n * ?n" using c by simp
    moreover have "counter q1 \<le> counter q + ?n" using d by simp
    ultimately have "counter q1 + n * length (ready_queue q1) \<le> counter q + ?n + n * ?n" by (intro add_mono)
    then show ?thesis by simp
  qed
  then have "all_waiting n q1" using c d all by (auto simp: all_waiting_def)
  then show "waiting n (fst bw')" by (simp add: bw' get_set)
  have err: "\<nexists>k e. r = Ready (Some (k, Err e))"
  proof
    assume "\<exists>k e. r = Ready (Some (k, Err e))"
    then obtain k e where r: "r = Ready (Some (k, Err e))" by blast
    have "\<exists>s s' wk. same_rest (streams ?q k) (Some s) \<and> poll_stream s = (Ready (Some (Err e)), s', wk) \<and> streams q1 k = Some s'"
      using poll_loop_streams [where R = same_rest, OF loop callback_tame] r
      by (auto simp: same_rest_def stream_pending stream_ended)
    with v [of k] never_error show False by (auto simp: same_rest_def)
  qed
  then show "\<nexists>k e. r = Ready (Some (k, Err e))" .
  show "\<exists>k m. r = Ready (Some (k, Ok m))" if f: "future (fst bw) l \<noteq> []"
  proof (cases "\<exists>i. r = Ready (Some i)")
    case True
    with err show ?thesis by (metis old.sum.exhaust surj_pair)
  next
    case False
    then have "rest (streams q1 l) = rest (streams q l)" using poll_rest(1) [OF p callback_tame v] by blast
    moreover have "streams q1 = Map.empty" using c False by blast
    ultimately show ?thesis using f q by (simp add: peer_future_def peer_stream_def)
  qed
qed

abbreviation load where "load \<equiv> peer_load queue_of content"

lemma load_poll:
  assumes "poll_item poll_stream cx bw = (Ready (Some (k, Ok m)), bw')" and "sound (fst bw)" and "finite K"
    and "\<And>l. l \<notin> K \<Longrightarrow> future (fst bw) l = []"
  shows "load K (fst bw) = Suc (load K (fst bw'))" and "k \<in> K"
    and "\<And>l. future (fst bw) l = (if l = k then [m] else []) @ future (fst bw') l"
proof -
  note p = poll_item_future [OF assms(1,2)]
  show f: "future (fst bw) l = (if l = k then [m] else []) @ future (fst bw') l" for l
    using p(4) [of l] p(5) [of k] by (cases "l = k") auto
  show k: "k \<in> K" using f [of k] assms(4) [of k] by auto
  have "(\<Sum>l \<in> K. length (future (fst bw) l)) = (\<Sum>l \<in> K. (if l = k then 1 else 0) + length (future (fst bw') l))"
    by (intro sum.cong) (simp_all add: f)
  then show "load K (fst bw) = Suc (load K (fst bw'))"
    using k assms(3) by (simp add: peer_load_def sum.distrib)
qed

lemma recv_loop_complete:
  assumes "sound (fst bw)" and "waiting (load K (fst bw)) (fst bw)" and "finite K"
    and "\<And>l. l \<notin> K \<Longrightarrow> future (fst bw) l = []" and "load K (fst bw) \<le> fuel" and "data_of (future (fst bw) l0) \<noteq> []"
  shows "\<exists>k m bw'. recv_loop fuel (poll_item poll_stream cx) (\<lambda>pid m bw. (Return (Ok (f pid m)), bw)) on_error bw
        = Some (Ready (Ok (f k m)), bw')
    \<and> sound (fst bw') \<and> waiting (load K (fst bw')) (fst bw') \<and> load K (fst bw') \<le> load K (fst bw)
    \<and> (\<forall>l. \<exists>ms. future (fst bw) l = ms @ future (fst bw') l \<and> data_of ms = of_peer l (Some (k, m)))"
  using assms(1,2,4-)
proof (induction fuel arbitrary: bw)
  case 0
  then have "future (fst bw) l0 \<noteq> []" "l0 \<in> K" by (auto, metis data_of.simps(1))
  with 0(4) assms(3) show ?case by (auto simp: peer_load_def)
next
  case (Suc fuel)
  have f0: "future (fst bw) l0 \<noteq> []" using Suc.prems(5) by auto
  then have "l0 \<in> K" using Suc.prems(3) by blast
  then have "length (future (fst bw) l0) \<le> load K (fst bw)"
    using assms(3) by (auto simp: peer_load_def intro: member_le_sum)
  with f0 obtain n where n: "load K (fst bw) = Suc n" by (cases "load K (fst bw)") auto
  obtain r bw1 where p: "poll_item poll_stream cx bw = (r, bw1)" by (meson surj_pair)
  note c = poll_item_complete [OF p Suc.prems(1) Suc.prems(2) [unfolded n]]
  from c(2) [OF f0] obtain k m where r: "r = Ready (Some (k, Ok m))" by blast
  note l = load_poll [OF p [unfolded r] Suc.prems(1) assms(3) Suc.prems(3)]
  have s1: "sound (fst bw1)" using took_poll(3) [OF p Suc.prems(1)] r by simp
  have n1: "load K (fst bw1) = n" using l(1) n by simp
  show ?case
  proof (cases "\<exists>z. m = Message_Message z")
    case True
    then obtain z where z: "m = Message_Message z" by blast
    have "\<exists>ms. future (fst bw) l = ms @ future (fst bw1) l \<and> data_of ms = of_peer l (Some (k, z))" for l
      using l(3) [of l] z by (intro exI [of _ "if l = k then [m] else []"]) (simp add: of_peer_def)
    moreover have "recv_loop (Suc fuel) (poll_item poll_stream cx) (\<lambda>pid m bw. (Return (Ok (f pid m)), bw)) on_error bw
        = Some (Ready (Ok (f k z)), bw1)"
      using p r z by simp
    ultimately show ?thesis using s1 c(1) n n1 by (intro exI [of _ k] exI [of _ z] exI [of _ bw1]) simp
  next
    case False
    then have m: "data_of [m] = []" and ctl: "is_control (k, Ok m)" by (cases m; simp add: is_control_def)+
    have skip: "recv_loop (Suc fuel) (poll_item poll_stream cx) (\<lambda>pid m bw. (Return (Ok (f pid m)), bw)) on_error bw
        = recv_loop fuel (poll_item poll_stream cx) (\<lambda>pid m bw. (Return (Ok (f pid m)), bw)) on_error bw1"
      by (rule recv_loop_control [where poll_item = "poll_item poll_stream cx", OF p [unfolded r] ctl])
    have f1: "future (fst bw1) l = []" if "l \<notin> K" for l using l(3) [of l] Suc.prems(3) [OF that] by simp
    have d0: "data_of (future (fst bw1) l0) \<noteq> []" using Suc.prems(5) l(3) [of l0] m by (auto split: if_splits)
    from Suc.IH [OF s1 _ f1 _ d0] n1 c(1) Suc.prems(4) n obtain k' z bw' where
      rec: "recv_loop fuel (poll_item poll_stream cx) (\<lambda>pid m bw. (Return (Ok (f pid m)), bw)) on_error bw1
        = Some (Ready (Ok (f k' z)), bw')" "sound (fst bw')" "waiting (load K (fst bw')) (fst bw')"
        "load K (fst bw') \<le> load K (fst bw1)"
      and acc: "\<forall>l. \<exists>ms. future (fst bw1) l = ms @ future (fst bw') l \<and> data_of ms = of_peer l (Some (k', z))" by auto
    have "\<exists>ms. future (fst bw) l = ms @ future (fst bw') l \<and> data_of ms = of_peer l (Some (k', z))" for l
    proof -
      from acc obtain ms where "future (fst bw1) l = ms @ future (fst bw') l" "data_of ms = of_peer l (Some (k', z))" by blast
      with l(3) [of l] m show ?thesis by (intro exI [of _ "(if l = k then [m] else []) @ ms"]) simp
    qed
    with rec skip n n1 show ?thesis by (intro exI [of _ k'] exI [of _ z] exI [of _ bw']) (simp del: recv_loop.simps)
  qed
qed

text \<open>As many calls as there are messages receive them all, each peer's in order.\<close>

lemma recv_all:
  assumes "sound (fst bw)" and "waiting (load K (fst bw)) (fst bw)" and "finite K"
    and "\<And>l. l \<notin> K \<Longrightarrow> future (fst bw) l = []" and "load K (fst bw) \<le> fuel"
    and "n = (\<Sum>l \<in> K. length (data_of (future (fst bw) l)))"
  shows "\<exists>ds bw'. recv_times n
        (recv_loop fuel (poll_item poll_stream cx) (\<lambda>pid m bw. (Return (Ok (f pid m)), bw)) on_error) bw
        = Some (map (\<lambda>(k, m). Ready (Ok (f k m))) ds, bw')
    \<and> (\<forall>l. from_peer l ds = data_of (future (fst bw) l))"
  using assms(1,2,4-)
proof (induction n arbitrary: bw)
  case 0
  then have "data_of (future (fst bw) l) = []" for l using assms(3) by (cases "l \<in> K") auto
  then show ?case by (intro exI [of _ "[]"] exI [of _ bw]) simp
next
  case (Suc n)
  then obtain l0 where "data_of (future (fst bw) l0) \<noteq> []" by (metis list.size(3) nat.distinct(1) sum.neutral)
  from recv_loop_complete [OF Suc.prems(1,2) assms(3) Suc.prems(3,4) this, of cx f on_error] obtain k m bw1 where
    r: "recv_loop fuel (poll_item poll_stream cx) (\<lambda>pid m bw. (Return (Ok (f pid m)), bw)) on_error bw
        = Some (Ready (Ok (f k m)), bw1)" and s: "sound (fst bw1)" "waiting (load K (fst bw1)) (fst bw1)"
      "load K (fst bw1) \<le> load K (fst bw)"
    and acc: "\<forall>l. \<exists>ms. future (fst bw) l = ms @ future (fst bw1) l \<and> data_of ms = of_peer l (Some (k, m))" by blast
  have d: "data_of (future (fst bw) l) = of_peer l (Some (k, m)) @ data_of (future (fst bw1) l)" for l
    using acc by (metis data_of_append)
  have f1: "future (fst bw1) l = []" if "l \<notin> K" for l using acc Suc.prems(3) [OF that] by (metis append_is_Nil_conv)
  have k: "k \<in> K" using d [of k] Suc.prems(3) [of k] by (cases "k \<in> K") (simp_all add: of_peer_def)
  have "Suc n = (\<Sum>l \<in> K. (if l = k then 1 else 0) + length (data_of (future (fst bw1) l)))"
    unfolding Suc.prems(5) by (intro sum.cong) (auto simp: d of_peer_def)
  then have "n = (\<Sum>l \<in> K. length (data_of (future (fst bw1) l)))" using k assms(3) by (simp add: sum.distrib)
  from Suc.IH [OF s(1,2) f1 _ this] s(3) Suc.prems(4) obtain ds bw' where
    "recv_times n (recv_loop fuel (poll_item poll_stream cx) (\<lambda>pid m bw. (Return (Ok (f pid m)), bw)) on_error) bw1
        = Some (map (\<lambda>(k, m). Ready (Ok (f k m))) ds, bw')" "\<forall>l. from_peer l ds = data_of (future (fst bw1) l)" by auto
  with r d show ?case by (intro exI [of _ "(k, m) # ds"] exI [of _ bw']) (simp add: of_peer_def del: recv_loop.simps)
qed

end

end
