(* ===== verification/Fan_In.thy ===== *)
theory Fan_In
  imports Peer_Streams
begin

text \<open>
  Peers that join a receiving socket. The locale \<open>joining_backend\<close> is the contract of \<open>peer_connected\<close> towards the
  fair queue: a connection that is admitted puts its reading half into the queue, and its peer owns it. From it
  follows, once for all backends, that a fresh socket whose peers have joined holds what they sent
  (\<open>join_all_queue\<close>) and that receiving hands out all of it (\<open>recv_joined\<close>).
\<close>

section \<open>Joining\<close>

text \<open>\<open>admits io bw\<close>: the handshake of the backend with the new peer succeeds. The generic backend admits everybody,
  the subscribing backend those to whom it can send its subscriptions.\<close>

locale joining_backend =
  stream_backend queue_of set_queue disconnected owners invar poll_stream valid content
  for queue_of :: "'b \<Rightarrow> ('s, peer_identity) queue_inner option" and set_queue
    and disconnected :: "peer_identity \<Rightarrow> 'b \<times> 'w \<Rightarrow> 'b \<times> 'w" and owners and invar
    and poll_stream :: "('s, item) poll_stream" and valid and content +
  fixes connected :: "peer_identity \<Rightarrow> 's framed_io \<Rightarrow> 'b \<times> 'w \<Rightarrow> 'b \<times> 'w"
    and admits :: "'s framed_io \<Rightarrow> 'b \<times> 'w \<Rightarrow> bool"
  assumes joined_queue: "admits io (b, w) \<Longrightarrow> queue_of b = Some q
      \<Longrightarrow> queue_of (fst (connected k io (b, w))) = Some (queue_insert k (read_half io) q)"
    and joined_owner: "admits io (b, w) \<Longrightarrow> owners (fst (connected k io (b, w))) = insert k (owners b)"
    and joined_invar: "admits io (b, w) \<Longrightarrow> invar b \<Longrightarrow> invar (fst (connected k io (b, w)))"
begin

lemma join_sound:
  assumes "sound b" and "valid (read_half io)" and "admits io (b, w)"
  shows "sound (fst (connected k io (b, w)))"
    and "stream_of (fst (connected k io (b, w))) l = (if l = k then Some (read_half io) else stream_of b l)"
proof -
  obtain q where q: "queue_of b = Some q" using assms(1) by (auto simp: sound_streams_def)
  note j = joined_queue [OF assms(3) q, of k] joined_owner [OF assms(3), of k]
  show st: "stream_of (fst (connected k io (b, w))) l = (if l = k then Some (read_half io) else stream_of b l)" for l
    by (simp add: peer_stream_def j(1) q)
  have "dom (streams (queue_insert k (read_half io) q)) \<subseteq> insert k (owners b)"
    using assms(1) q by (auto simp: sound_streams_def owns_streams_def split: if_splits)
  then show "sound (fst (connected k io (b, w)))"
    using assms(1,2) joined_invar [OF assms(3)] by (simp add: sound_streams_def owns_streams_def st j)
qed

text \<open>Peers with different identities, one after the other.\<close>

lemma join_all_queue:
  assumes "sound b0" and "queue_of b0 = Some q0" and "ready_wf q0"
    and "ready_keys q0 = map fst done" and "counter q0 = length done" and "queued q0 = fst ` set done"
    and "\<And>l. stream_of b0 l = map_option read_half (map_of done l)"
    and "length done + length ios < 2 ^ 64" and "distinct (map fst (done @ ios))"
    and "\<forall>(k, io) \<in> set ios. valid (read_half io) \<and> (\<forall>bw. admits io bw)"
  shows "\<exists>b w' q. fold (\<lambda>(k, io). connected k io) ios (b0, w) = (b, w') \<and> sound b \<and> queue_of b = Some q
    \<and> ready_wf q \<and> ready_keys q = map fst (done @ ios) \<and> counter q = length (done @ ios)
    \<and> (\<forall>l. stream_of b l = map_option read_half (map_of (done @ ios) l))"
  using assms
proof (induction ios arbitrary: b0 q0 "done" w)
  case (Cons x ios)
  obtain k io where x: "x = (k, io)" by fastforce
  have v: "valid (read_half io)" "admits io (b0, w)" using Cons.prems(10) x by auto
  obtain b1 w1 where c: "connected k io (b0, w) = (b1, w1)" by fastforce
  let ?q1 = "queue_insert k (read_half io) q0"
  have k: "k \<notin> queued q0" using Cons.prems(6,9) x by auto
  note qi = queue_insert_waiting [OF Cons.prems(3) _ k, of "read_half io"]
  have q1: "queue_of b1 = Some ?q1" using joined_queue [OF v(2) Cons.prems(2), of k] c by simp
  have s1: "sound b1" and st1: "stream_of b1 l = (if l = k then Some (read_half io) else stream_of b0 l)" for l
    using join_sound [OF Cons.prems(1) v, of k] c by simp_all
  have "map_of done k = None" using k Cons.prems(6) by (simp add: map_of_eq_None_iff)
  then have st: "stream_of b1 l = map_option read_half (map_of (done @ [(k, io)]) l)" for l
    using Cons.prems(7) [of l] by (auto simp: st1 map_add_def split: option.splits)
  have "counter q0 + 1 < 2 ^ 64" using Cons.prems(5,8) by simp
  note qi = qi [OF this]
  have "\<exists>b w' q. fold (\<lambda>(k, io). connected k io) ios (b1, w1) = (b, w') \<and> sound b \<and> queue_of b = Some q
    \<and> ready_wf q \<and> ready_keys q = map fst ((done @ [(k, io)]) @ ios) \<and> counter q = length ((done @ [(k, io)]) @ ios)
    \<and> (\<forall>l. stream_of b l = map_option read_half (map_of ((done @ [(k, io)]) @ ios) l))"
    by (rule Cons.IH [OF s1 q1]) (use Cons.prems qi st x in auto)
  then show ?case by (simp add: x c)
qed simp

end

section \<open>Receiving from everybody\<close>

lemma data_of_messages [simp]: "data_of (map Message_Message ms) = ms"
  by (induction ms) auto

locale complete_joining =
  complete_backend queue_of set_queue disconnected owners invar poll_stream valid content +
  joining_backend queue_of set_queue disconnected owners invar poll_stream valid content connected admits
  for queue_of :: "'b \<Rightarrow> ('s, peer_identity) queue_inner option" and set_queue
    and disconnected :: "peer_identity \<Rightarrow> 'b \<times> 'w \<Rightarrow> 'b \<times> 'w" and owners and invar
    and poll_stream :: "('s, item) poll_stream" and valid and content and connected and admits
begin

text \<open>A fresh receiver whose peers have joined: the queue holds what they sent, and every stream waits.\<close>

lemma joined_future:
  assumes "sound b0" and "queue_of b0 = Some queue_new" and "distinct (map fst ios)"
    and "\<forall>(k, io) \<in> set ios. valid (read_half io) \<and> (\<forall>bw. admits io bw)
      \<and> content (read_half io) = map Message_Message (sent k)"
    and "length ios * Suc n < 2 ^ 64"
  shows "\<exists>b w'. fold (\<lambda>(k, io). connected k io) ios (b0, w) = (b, w') \<and> sound b \<and> waiting n b
    \<and> (\<forall>l. future b l = (if l \<in> fst ` set ios then map Message_Message (sent l) else []))"
proof -
  have "\<exists>b w' q. fold (\<lambda>(k, io). connected k io) ios (b0, w) = (b, w') \<and> sound b \<and> queue_of b = Some q
    \<and> ready_wf q \<and> ready_keys q = map fst ([] @ ios) \<and> counter q = length ([] @ ios)
    \<and> (\<forall>l. stream_of b l = map_option read_half (map_of ([] @ ios) l))"
    by (rule join_all_queue [OF assms(1,2)])
      (use assms in \<open>fastforce simp: peer_stream_def queue_new_def ready_keys_def ready_wf_def\<close>)+
  then obtain b w' q where b: "fold (\<lambda>(k, io). connected k io) ios (b0, w) = (b, w')" "sound b"
    "queue_of b = Some q" "ready_wf q" "ready_keys q = map fst ios" "counter q = length ios"
    "\<And>l. stream_of b l = map_option read_half (map_of ios l)" by auto
  have dom: "stream_of b l = None \<longleftrightarrow> l \<notin> fst ` set ios" for l by (simp add: b(7) map_of_eq_None_iff)
  have "future b l = (if l \<in> fst ` set ios then map Message_Message (sent l) else [])" for l
  proof (cases "map_of ios l")
    case (Some io)
    from map_of_SomeD [OF this] assms(4) have "content (read_half io) = map Message_Message (sent l)" by fast
    with Some map_of_SomeD [OF Some] b(7) [of l] show ?thesis by (force simp: peer_future_def)
  next
    case None
    then have "l \<notin> fst ` set ios" by (simp add: map_of_eq_None_iff)
    with None b(7) [of l] show ?thesis by (simp add: peer_future_def)
  qed
  moreover have "all_waiting n q"
  proof -
    have "streams q l = None" if "l \<notin> fst ` set ios" for l using that dom [of l] b(3) by (simp add: peer_stream_def)
    then have "dom (streams q) \<subseteq> fst ` set ios" by (metis domIff subsetI)
    moreover have "length (ready_queue q) = length ios" using b(5) length_ready_keys [of q] by simp
    ultimately show ?thesis using b(4-6) assms(5) by (simp add: all_waiting_def mult.commute)
  qed
  ultimately show ?thesis using b(1-3) by blast
qed

lemma recv_joined:
  assumes "sound b0" and "queue_of b0 = Some queue_new" and "distinct (map fst ios)"
    and "\<forall>(k, io) \<in> set ios. valid (read_half io) \<and> (\<forall>bw. admits io bw)
      \<and> content (read_half io) = map Message_Message (sent k)"
    and "length ios * Suc n < 2 ^ 64" and "n = (\<Sum>k \<in> fst ` set ios. length (sent k))" and "n \<le> fuel"
  shows "\<exists>ds bw. recv_times n (recv_loop fuel (poll_item poll_stream cx)
        (\<lambda>pid m bw. (Return (Ok (f pid m)), bw)) on_error) (fold (\<lambda>(k, io). connected k io) ios (b0, w))
      = Some (map (\<lambda>(k, m). Ready (Ok (f k m))) ds, bw)
    \<and> (\<forall>k. from_peer k ds = (if k \<in> fst ` set ios then sent k else []))"
proof -
  let ?K = "fst ` set ios"
  from joined_future [OF assms(1-5), of w] obtain b w' where
    b: "fold (\<lambda>(k, io). connected k io) ios (b0, w) = (b, w')" "sound b" "waiting n b"
    and future: "\<And>l. future b l = (if l \<in> ?K then map Message_Message (sent l) else [])" by blast
  have load: "load K b = (\<Sum>l \<in> K. if l \<in> ?K then length (sent l) else 0)" for K
    by (simp add: peer_load_def future if_distrib [of length] cong: if_cong)
  have "load ?K b = n" "n = (\<Sum>l \<in> ?K. length (data_of (future b l)))" by (simp_all add: load future assms(6))
  with recv_all [of "(b, w')" ?K fuel n cx f on_error] b(2,3) future assms(7) obtain ds bw where
    "recv_times n (recv_loop fuel (poll_item poll_stream cx) (\<lambda>pid m bw. (Return (Ok (f pid m)), bw)) on_error) (b, w')
      = Some (map (\<lambda>(k, m). Ready (Ok (f k m))) ds, bw)" "\<forall>l. from_peer l ds = data_of (future b l)" by auto
  then show ?thesis unfolding b(1) by (intro exI [of _ ds] exI [of _ bw]) (simp add: future)
qed

end

end
