(* ===== verification/Pipeline.thy ===== *)
theory Pipeline
  imports Delivery Queue_Sockets Fan_In
begin

text \<open>
  From the senders to the receiver: many connections, each with its writer task, transport and framed reader,
  end in the fair queue of one PULL or ROUTER socket. The theory puts the reader into the queue as a stream
  (\<open>reader_poll\<close>) and follows the messages of every peer through a run of the socket, in which peers come and go
  while the application receives.
\<close>

section \<open>The framed reader as a stream of the fair queue\<close>

text \<open>\<open>poll_next\<close> of a reader. \<open>wakes\<close> says whether the transport calls the waker at once. The fuel is enough for
  the bytes still to come; a reader that keeps its invariant does not panic (\<open>reader_poll_result\<close>).\<close>

definition reader_poll ::
    "'r poll_read \<Rightarrow> ('r \<Rightarrow> bytes) \<Rightarrow> ('r \<Rightarrow> bool) \<Rightarrow> ('r framed_read, item) poll_stream" where
  "reader_poll poll_read stream wakes rd =
     (let wk = wakes (rd_inner rd)
      in case framed_poll_next (Suc (length (stream (rd_inner rd)))) poll_read decode rd of
           Some (NextItem x, rd') \<Rightarrow> (Ready (Some x), rd', wk)
         | Some (NextEnd, rd') \<Rightarrow> (Ready None, rd', wk)
         | Some (_, rd') \<Rightarrow> (Pending, rd', wk)
         | None \<Rightarrow> (Pending, rd, wk))"

definition reader_valid :: "'r poll_read \<Rightarrow> ('r \<Rightarrow> bytes) \<Rightarrow> 'r framed_read \<Rightarrow> bool" where
  "reader_valid poll_read stream rd \<longleftrightarrow> transport poll_read stream \<and> framed_wf rd"

text \<open>The messages that a reader will still deliver.\<close>

definition reader_content :: "('r \<Rightarrow> bytes) \<Rightarrow> 'r framed_read \<Rightarrow> message list" where
  "reader_content stream rd = fst (remaining stream rd)"

text \<open>A poll of a reader that keeps its invariant returns what the decoder makes of the remaining bytes.\<close>

lemma reader_poll_result:
  assumes "reader_valid poll_read stream rd" and "reader_poll poll_read stream wakes rd = (p, rd', wk)"
  obtains r where "implements poll_read stream (spec_of stream rd) (r, rd')" and "reader_valid poll_read stream rd'"
    and "p = (case r of NextItem x \<Rightarrow> Ready (Some x) | NextEnd \<Rightarrow> Ready None | _ \<Rightarrow> Pending)" and "r \<noteq> NextPanic"
    and "framed_poll_next (Suc (length (stream (rd_inner rd)))) poll_read decode rd = Some (r, rd')"
proof -
  have a: "transport poll_read stream" "framed_wf rd" using assms(1) by (simp_all add: reader_valid_def)
  obtain r rd1 where f: "framed_poll_next (Suc (length (stream (rd_inner rd)))) poll_read decode rd = Some (r, rd1)"
    using framed_poll_next_terminates [OF a] by fastforce
  note i = framed_poll_next_implements [OF a f]
  then have np: "r \<noteq> NextPanic" by (auto simp: implements_def)
  with f assms(2) have r: "rd1 = rd'" "p = (case r of NextItem x \<Rightarrow> Ready (Some x) | NextEnd \<Rightarrow> Ready None | _ \<Rightarrow> Pending)"
    by (auto simp: reader_poll_def Let_def split: next_result.splits)
  have "reader_valid poll_read stream rd'" using framed_poll_next_wf [OF a(2) f] a(1) r(1) by (simp add: reader_valid_def)
  with f i r np that show thesis by blast
qed

lemma reader_poll_steps:
  assumes "reader_valid poll_read stream s"
  shows "reader_poll poll_read stream wakes s = (Ready (Some (Ok m)), s', wk)
      \<Longrightarrow> reader_valid poll_read stream s' \<and> remaining stream s = apfst ((#) m) (remaining stream s')"
    and "reader_poll poll_read stream wakes s = (Pending, s', wk)
      \<Longrightarrow> reader_valid poll_read stream s' \<and> remaining stream s' = remaining stream s"
    and "reader_poll poll_read stream wakes s = (Ready None, s', wk) \<Longrightarrow> reader_content stream s = []"
proof -
  show "reader_poll poll_read stream wakes s = (Ready (Some (Ok m)), s', wk)
      \<Longrightarrow> reader_valid poll_read stream s' \<and> remaining stream s = apfst ((#) m) (remaining stream s')"
    by (erule reader_poll_result [OF assms])
      (auto simp: implements_def remaining_def spec_of_def decode_all_Item case_prod_unfold Let_def prod_eq_iff
        split: next_result.splits)
  show "reader_poll poll_read stream wakes s = (Pending, s', wk)
      \<Longrightarrow> reader_valid poll_read stream s' \<and> remaining stream s' = remaining stream s"
    by (erule reader_poll_result [OF assms])
      (auto simp: implements_def split: next_result.splits dest: remaining_spec)
  show "reader_poll poll_read stream wakes s = (Ready None, s', wk) \<Longrightarrow> reader_content stream s = []"
    by (erule reader_poll_result [OF assms])
      (auto simp: implements_def reader_content_def remaining_def spec_of_def decode_all_stop split: next_result.splits)
qed

interpretation reader: message_streams "reader_poll poll_read stream wakes" "reader_valid poll_read stream"
  "reader_content stream" for poll_read :: "'r poll_read" and stream wakes
  by unfold_locales (auto simp: reader_content_def dest: reader_poll_steps)

text \<open>A transport that is never pending and never fails, with whole messages to deliver.\<close>

definition reader_complete :: "'r poll_read \<Rightarrow> ('r \<Rightarrow> bytes) \<Rightarrow> 'r framed_read \<Rightarrow> bool" where
  "reader_complete poll_read stream rd \<longleftrightarrow> reader_valid poll_read stream rd \<and> prompt poll_read
     \<and> (\<exists>n c. snd (remaining stream rd) = (DecNeed n, c, []))"

interpretation gs: stream_backend fair_queue_inner set_fair_queue "generic_peer_disconnected env"
  "\<lambda>b. dom (peers b)" "backend_inv env" "reader_poll poll_read stream wakes" "reader_valid poll_read stream"
  "reader_content stream" for env :: "'w env" and poll_read :: "'r poll_read" and stream wakes ..

lemma reader_complete_prompt:
  assumes "reader_complete poll_read stream s"
  shows "reader_poll poll_read stream wakes s \<noteq> (Pending, s', wk)"
    and "reader_poll poll_read stream wakes s \<noteq> (Ready (Some (Err e)), s', wk)"
proof -
  from assms have v: "reader_valid poll_read stream s" and pr: "prompt poll_read"
    and c: "\<exists>n c. snd (remaining stream s) = (DecNeed n, c, [])" by (auto simp: reader_complete_def)
  show "reader_poll poll_read stream wakes s \<noteq> (Pending, s', wk)"
    using framed_poll_next_not_pending [OF pr] by (auto elim!: reader_poll_result [OF v] split: next_result.splits)
  have io: "\<not> (\<exists>io r n r'. e = CodecIo io \<and> poll_read r n = (Ready (Err io), r'))" for e
    using pr unfolding prompt_def by (metis Inl_Inr_False Pair_inject poll.inject)
  have "\<not> implements poll_read stream (spec_of stream s) (NextItem (Err e), s')"
    using c io [of e] by (auto simp: implements_def remaining_def spec_of_def decode_all_stop)
  then show "reader_poll poll_read stream wakes s \<noteq> (Ready (Some (Err e)), s', wk)"
    by (auto elim!: reader_poll_result [OF v] split: next_result.splits)
qed

interpretation whole: message_streams "reader_poll poll_read stream wakes" "reader_complete poll_read stream"
  "reader_content stream" for poll_read :: "'r poll_read" and stream wakes
proof unfold_locales
  fix s m s' wk
  assume s: "reader_complete poll_read stream s"
  then have v: "reader_valid poll_read stream s" by (simp add: reader_complete_def)
  show "reader_poll poll_read stream wakes s = (Ready (Some (Ok m)), s', wk)
      \<Longrightarrow> reader_complete poll_read stream s' \<and> reader_content stream s = m # reader_content stream s'"
    using reader_poll_steps(1) [OF v] s by (fastforce simp: reader_complete_def reader_content_def)
  show "reader_poll poll_read stream wakes s = (Pending, s', wk)
      \<Longrightarrow> reader_complete poll_read stream s' \<and> reader_content stream s' = reader_content stream s"
    using reader_complete_prompt(1) [OF s] by blast
  show "reader_poll poll_read stream wakes s = (Ready None, s', wk) \<Longrightarrow> reader_content stream s = []"
    using reader_poll_steps(3) [OF v] .
qed

interpretation gc: complete_backend fair_queue_inner set_fair_queue "generic_peer_disconnected env"
  "\<lambda>b. dom (peers b)" "backend_inv env" "reader_poll poll_read stream wakes" "reader_complete poll_read stream"
  "reader_content stream" for env :: "'w env" and poll_read :: "'r poll_read" and stream wakes
  by unfold_locales (use reader_complete_prompt in blast)+

section \<open>Runs of a receiving socket\<close>

datatype ('s, 'a) socket_step =
  Joined peer_identity 's | Left peer_identity | Received "'a zmq_result poll"

text \<open>Peers join after their handshake, peers are disconnected, the application calls \<open>recv\<close> or polls it again;
  between the steps the other tasks may do anything to the world.\<close>

inductive socket_run ::
    "'w env \<Rightarrow> ('s generic_backend \<times> 'w \<Rightarrow> 'a zmq_result poll \<times> 's generic_backend \<times> 'w \<Rightarrow> bool)
      \<Rightarrow> 's generic_backend \<Rightarrow> ('s, 'a) socket_step list \<Rightarrow> 's generic_backend \<Rightarrow> bool" for env recv b where
  start: "socket_run env recv b [] b"
| join: "socket_run env recv b es b1
    \<Longrightarrow> socket_run env recv b (es @ [Joined k (read_half io)]) (fst (generic_peer_connected env k io (b1, w)))"
| leave: "socket_run env recv b es b1
    \<Longrightarrow> socket_run env recv b (es @ [Left k]) (fst (generic_peer_disconnected env k (b1, w)))"
| recv: "socket_run env recv b es b1 \<Longrightarrow> recv (b1, w) (r, b2, w2)
    \<Longrightarrow> socket_run env recv b (es @ [Received r]) b2"

text \<open>The connections of a run, in order, and the messages it received.\<close>

fun joins :: "('s, 'a) socket_step list \<Rightarrow> (peer_identity \<times> 's) list" where
  "joins [] = []"
| "joins (Joined k s # es) = (k, s) # joins es"
| "joins (_ # es) = joins es"

fun received :: "('s, 'a) socket_step list \<Rightarrow> 'a list" where
  "received [] = []"
| "received (Received (Ready (Inr v)) # es) = v # received es"
| "received (_ # es) = received es"

lemma joins_append [simp]: "joins (es @ fs) = joins es @ joins fs"
  by (induction es rule: joins.induct) auto

lemma received_append [simp]: "received (es @ fs) = received es @ received fs"
  by (induction es rule: received.induct) auto

abbreviation reader_sound :: "'w env \<Rightarrow> 'r poll_read \<Rightarrow> ('r \<Rightarrow> bytes) \<Rightarrow> 'r framed_read generic_backend \<Rightarrow> bool" where
  "reader_sound env poll_read stream
     \<equiv> sound_streams fair_queue_inner (\<lambda>b. dom (peers b)) (backend_inv env) (reader_valid poll_read stream)"

text \<open>What is still to come from a peer.\<close>

abbreviation to_come :: "('r \<Rightarrow> bytes) \<Rightarrow> 'r framed_read generic_backend \<Rightarrow> peer_identity \<Rightarrow> message list" where
  "to_come stream \<equiv> peer_future fair_queue_inner (reader_content stream)"

lemma connected_backend_inv: "backend_inv env b \<Longrightarrow> backend_inv env (fst (generic_peer_connected env k io (b, w)))"
  using connected_cache_ok [of env _ _ b k io w] by (auto simp: backend_inv_def)

interpretation gj: joining_backend fair_queue_inner set_fair_queue "generic_peer_disconnected env"
  "\<lambda>b. dom (peers b)" "backend_inv env" "reader_poll poll_read stream wakes" "reader_valid poll_read stream"
  "reader_content stream" "generic_peer_connected env" "\<lambda>_ _. True"
  for env :: "'w env" and poll_read :: "'r poll_read" and stream wakes
  by unfold_locales (simp_all add: connected_backend_inv)

interpretation gjc: complete_joining fair_queue_inner set_fair_queue "generic_peer_disconnected env"
  "\<lambda>b. dom (peers b)" "backend_inv env" "reader_poll poll_read stream wakes" "reader_complete poll_read stream"
  "reader_content stream" "generic_peer_connected env" "\<lambda>_ _. True"
  for env :: "'w env" and poll_read :: "'r poll_read" and stream wakes
  by unfold_locales (simp_all add: connected_backend_inv)

text \<open>The account of a run: every message that was received came from the connection of a peer, and in the order of
  that connection; from a peer that is still connected nothing is missing.\<close>

definition accounted ::
    "(peer_identity \<Rightarrow> zmq_message \<Rightarrow> 'a) \<Rightarrow> ('r \<Rightarrow> bytes) \<Rightarrow> ('r framed_read, 'a) socket_step list
      \<Rightarrow> 'r framed_read generic_backend \<Rightarrow> (peer_identity \<times> zmq_message) list \<Rightarrow> bool" where
  "accounted f stream es b ds \<longleftrightarrow> received es = map (\<lambda>(k, m). f k m) ds
     \<and> (\<forall>k. k \<notin> fst ` set (joins es) \<longrightarrow> from_peer k ds = [] \<and> k \<notin> dom (peers b))
     \<and> (\<forall>(k, s) \<in> set (joins es). \<exists>ms. from_peer k ds = data_of ms \<and> prefix ms (reader_content stream s)
          \<and> (k \<in> dom (peers b) \<longrightarrow> reader_content stream s = ms @ to_come stream b k))"

lemma accounted_took:
  assumes "accounted f stream es b ds" and "reader_sound env poll_read stream b"
    and "\<And>l. \<exists>ms. took_from fair_queue_inner (\<lambda>b. dom (peers b)) (reader_content stream) l ms b b'
      \<and> data_of ms = from_peer l ds'"
    and "dom (peers b') \<subseteq> dom (peers b)" and "joins fs = []" and "received fs = map (\<lambda>(k, m). f k m) ds'"
  shows "accounted f stream (es @ fs) b' (ds @ ds')"
proof -
  have gone: "to_come stream b l = []" if "l \<notin> dom (peers b)" for l
    using gs.future_unowned [OF assms(2) that] .
  have "\<exists>ns. from_peer k (ds @ ds') = data_of ns \<and> prefix ns (reader_content stream s)
      \<and> (k \<in> dom (peers b') \<longrightarrow> reader_content stream s = ns @ to_come stream b' k)" if ks: "(k, s) \<in> set (joins es)" for k s
  proof -
    from ks assms(1) obtain ms where ms: "from_peer k ds = data_of ms" "prefix ms (reader_content stream s)"
      "k \<in> dom (peers b) \<longrightarrow> reader_content stream s = ms @ to_come stream b k" by (fastforce simp: accounted_def)
    obtain ns where ns: "prefix ns (to_come stream b k)" "data_of ns = from_peer k ds'"
      "k \<in> dom (peers b') \<longrightarrow> to_come stream b k = ns @ to_come stream b' k"
      using assms(3) [of k] by (auto simp: took_from_def)
    show ?thesis
    proof (cases "k \<in> dom (peers b)")
      case True
      with ms ns show ?thesis by (intro exI [of _ "ms @ ns"]) simp
    next
      case False
      with ms ns gone [OF False] assms(4) show ?thesis by (intro exI [of _ "ms @ ns"]) auto
    qed
  qed
  moreover have "from_peer k (ds @ ds') = [] \<and> k \<notin> dom (peers b')" if k: "k \<notin> fst ` set (joins es)" for k
  proof -
    from k assms(1) have *: "from_peer k ds = []" "k \<notin> dom (peers b)" by (auto simp: accounted_def)
    from assms(3) [of k] gone [OF *(2)] have "from_peer k ds' = []"
      by (auto simp: took_from_def)
    with * assms(4) show ?thesis by auto
  qed
  ultimately show ?thesis using assms(1,5,6) by (auto simp: accounted_def)
qed

lemma accounted_join:
  assumes "accounted f stream es b ds" and "k \<notin> fst ` set (joins es)" and "reader_sound env poll_read stream b"
    and "reader_valid poll_read stream (read_half io)" and b': "b' = fst (generic_peer_connected env k io (b, w))"
  shows "accounted f stream (es @ [Joined k (read_half io)]) b' ds"
proof -
  have f: "to_come stream b' l = (if l = k then reader_content stream (read_half io) else to_come stream b l)" for l
    using gj.join_sound(2) [OF assms(3,4) TrueI, where k = k and l = l and w = w] by (simp add: peer_future_def b')
  have p: "dom (peers b') = insert k (dom (peers b))" by (simp add: b')
  have k: "from_peer k ds = []" using assms(1,2) by (simp add: accounted_def)
  have "\<exists>ms. from_peer l ds = data_of ms \<and> prefix ms (reader_content stream s)
      \<and> (l \<in> dom (peers b') \<longrightarrow> reader_content stream s = ms @ to_come stream b' l)"
    if ls: "(l, s) \<in> set (joins es)" for l s
  proof -
    have "l \<noteq> k" using ls assms(2) by force
    with ls assms(1) show ?thesis unfolding f p by (fastforce simp: accounted_def)
  qed
  moreover have "\<exists>ms. from_peer k ds = data_of ms \<and> prefix ms (reader_content stream (read_half io))
      \<and> (k \<in> dom (peers b') \<longrightarrow> reader_content stream (read_half io) = ms @ to_come stream b' k)"
    using k by (intro exI [of _ "[]"]) (simp add: f)
  ultimately show ?thesis using assms(1) p by (auto simp: accounted_def)
qed

text \<open>A socket whose \<open>recv\<close> takes one message at a time, in the sense of \<open>took\<close>, accounts for all its runs.\<close>

definition accountable ::
    "'w env \<Rightarrow> 'r poll_read \<Rightarrow> ('r \<Rightarrow> bytes) \<Rightarrow> (peer_identity \<Rightarrow> zmq_message \<Rightarrow> 'a)
      \<Rightarrow> ('r framed_read generic_backend \<times> 'w \<Rightarrow> 'a zmq_result poll \<times> 'r framed_read generic_backend \<times> 'w \<Rightarrow> bool) \<Rightarrow> bool" where
  "accountable env poll_read stream f recv \<longleftrightarrow> (\<forall>b w r b' w'. reader_sound env poll_read stream b \<and> recv (b, w) (r, b', w') \<longrightarrow>
     reader_sound env poll_read stream b' \<and> dom (peers b') \<subseteq> dom (peers b)
     \<and> (\<exists>d. outcome f r d \<and> (\<forall>l. \<exists>ms. took_from fair_queue_inner (\<lambda>b. dom (peers b)) (reader_content stream) l ms b b'
          \<and> data_of ms = of_peer l d)))"

lemma outcome_received:
  assumes "outcome f r d"
  shows "received [Received r] = map (\<lambda>(k, m). f k m) (case d of None \<Rightarrow> [] | Some x \<Rightarrow> [x])"
proof (cases d)
  case None
  with assms have r: "\<nexists>v. r = Ready (Ok v)" by (simp add: outcome_def)
  show ?thesis
  proof (cases r)
    case (Ready x)
    with r None show ?thesis by (cases x) auto
  qed (simp add: None)
qed (use assms in \<open>auto simp: outcome_def\<close>)

lemma run_accounted:
  assumes "socket_run env recv b0 es b" and "accountable env poll_read stream f recv"
    and "reader_sound env poll_read stream b0" and "dom (peers b0) = {}"
    and "distinct (map fst (joins es))" and "\<forall>(k, s) \<in> set (joins es). reader_valid poll_read stream s"
  shows "reader_sound env poll_read stream b \<and> (\<exists>ds. accounted f stream es b ds)"
  using assms(1,5,6)
proof (induction rule: socket_run.induct)
  case start
  then show ?case using assms(3,4) by (intro conjI exI [of _ "[]"]) (auto simp: accounted_def)
next
  case (join es b1 k io w)
  then obtain ds where "reader_sound env poll_read stream b1" "accounted f stream es b1 ds" by auto
  with join.prems accounted_join [of f stream es b1 ds k env poll_read io _ w] gj.join_sound(1) [where env = env and poll_read = poll_read and stream = stream and b = b1 and io = io and k = k and w = w]
  show ?case by force
next
  case (leave es b1 k w)
  then obtain ds where s: "reader_sound env poll_read stream b1" and ds: "accounted f stream es b1 ds" by auto
  let ?b = "fst (generic_peer_disconnected env k (b1, w))"
  have d: "reader_sound env poll_read stream ?b" "\<And>l. l \<noteq> k \<Longrightarrow> to_come stream ?b l = to_come stream b1 l"
    using gs.disconnected_sound [where bw = "(b1, w)" and l = k and env = env and poll_read = poll_read and stream = stream] s
    by (auto simp: sound_streams_def)
  then have "took_from fair_queue_inner (\<lambda>b. dom (peers b)) (reader_content stream) l [] b1 ?b" for l
    by (cases "l = k") (auto simp: took_from_def)
  then have "accounted f stream (es @ [Left k]) ?b (ds @ [])"
    by (intro accounted_took [OF ds s]) (auto intro!: exI [of _ "[]"])
  with d(1) show ?case by auto
next
  case (recv es b1 w r b2 w2)
  then obtain ds where s: "reader_sound env poll_read stream b1" and ds: "accounted f stream es b1 ds" by auto
  from assms(2) [unfolded accountable_def, rule_format, OF conjI [OF s recv.hyps(2)]] obtain d where d: "reader_sound env poll_read stream b2" "dom (peers b2) \<subseteq> dom (peers b1)"
    "outcome f r d" "\<And>l. \<exists>ms. took_from fair_queue_inner (\<lambda>b. dom (peers b)) (reader_content stream) l ms b1 b2
          \<and> data_of ms = of_peer l d"
    by metis
  have "received [Received r] = map (\<lambda>(k, m). f k m) (case d of None \<Rightarrow> [] | Some x \<Rightarrow> [x])"
    by (rule outcome_received [OF d(3)])
  then have "accounted f stream (es @ [Received r]) b2 (ds @ (case d of None \<Rightarrow> [] | Some x \<Rightarrow> [x]))"
    by (intro accounted_took [OF ds s _ d(2)]) (use d(4) in \<open>auto simp: of_peer_def\<close>)
  with d(1) show ?case by blast
qed

text \<open>The calls of \<open>recv\<close> on the two sockets, polled by any task and with any fuel.\<close>

definition pull_calls where
  "pull_calls env poll_stream bw res \<longleftrightarrow> (\<exists>fuel cx. pull_recv fuel env poll_stream cx bw = Some res)"

definition router_calls where
  "router_calls env poll_stream bw res \<longleftrightarrow> (\<exists>fuel cx. router_recv fuel env poll_stream cx bw = Some res)"

lemma pull_accountable:
  "accountable env poll_read stream (\<lambda>_ m. m) (pull_calls env (reader_poll poll_read stream wakes))"
proof (unfold accountable_def pull_calls_def pull_recv_def generic_poll_item_def, intro allI impI, elim conjE exE)
  fix b w r b' w' fuel cx
  assume "reader_sound env poll_read stream b"
    "recv_loop fuel (backend_poll_item fair_queue_inner set_fair_queue (generic_peer_disconnected env)
        (reader_poll poll_read stream wakes) cx) (\<lambda>pid message bw. (Return (Ok message), bw))
      (\<lambda>pid e bw. (Return (Err (ErrCodec e)), generic_peer_disconnected env pid bw)) (b, w) = Some (r, b', w')"
  from gs.recv_loop_future [where f = "\<lambda>_ m. m", OF this(2)] this(1)
  show "reader_sound env poll_read stream b' \<and> dom (peers b') \<subseteq> dom (peers b)
      \<and> (\<exists>d. outcome (\<lambda>_ m. m) r d \<and> (\<forall>l. \<exists>ms. took_from fair_queue_inner (\<lambda>b. dom (peers b)) (reader_content stream) l ms b b'
          \<and> data_of ms = of_peer l d))" by simp
qed

lemma router_accountable:
  "accountable env poll_read stream (\<lambda>k m. push_front m k) (router_calls env (reader_poll poll_read stream wakes))"
proof (unfold accountable_def router_calls_def router_recv_def generic_poll_item_def, intro allI impI, elim conjE exE)
  fix b w r b' w' fuel cx
  assume "reader_sound env poll_read stream b"
    "recv_loop fuel (backend_poll_item fair_queue_inner set_fair_queue (generic_peer_disconnected env)
        (reader_poll poll_read stream wakes) cx) (\<lambda>pid message bw. (Return (Ok (push_front message pid)), bw))
      (\<lambda>pid e bw. (Continue, generic_peer_disconnected env pid bw)) (b, w) = Some (r, b', w')"
  from gs.recv_loop_future [where f = "\<lambda>k m. push_front m k", OF this(2)] this(1)
  show "reader_sound env poll_read stream b' \<and> dom (peers b') \<subseteq> dom (peers b)
      \<and> (\<exists>d. outcome (\<lambda>k m. push_front m k) r d \<and> (\<forall>l. \<exists>ms. took_from fair_queue_inner (\<lambda>b. dom (peers b)) (reader_content stream) l ms b b'
          \<and> data_of ms = of_peer l d))" by simp
qed

section \<open>Connections\<close>

text \<open>What a sender's connection leaves in the receiver's reader \<open>s\<close>: the sender's handshake has written its greeting
  and commands and its writer task has run on the queue of the messages \<open>sent\<close>; the transport carries a prefix of the
  bytes; the receiver's handshake has read the greeting and the commands. \<open>whole\<close> says that the writer has ended
  normally and the transport carries everything.\<close>

definition connection ::
    "bool \<Rightarrow> 'q recv \<Rightarrow> 'q recv \<Rightarrow> ('q \<Rightarrow> message list) \<Rightarrow> 'o feed \<Rightarrow> 'o flush \<Rightarrow> (property_map \<Rightarrow> bytes list)
      \<Rightarrow> ('o \<Rightarrow> bytes) \<Rightarrow> ('o \<Rightarrow> nat) \<Rightarrow> 'r poll_read \<Rightarrow> ('r \<Rightarrow> bytes) \<Rightarrow> socket_options
      \<Rightarrow> zmq_message list \<Rightarrow> 'r framed_read \<Rightarrow> bool" where
  "connection whole recv_next try_recv pending feed flush iter out unflushed poll_read stream opts sent s \<longleftrightarrow>
     (\<exists>g cmds q w fuel res q' w' r. unflushed w = 0 \<and> out w = greeting_to_bytes g @ concat (map (encoding iter) cmds)
        \<and> pending q = map Message_Message sent
        \<and> write_message_queue fuel recv_next try_recv feed flush q w = Some (res, q', w')
        \<and> (\<forall>m \<in> set (cmds @ pending q). wire_ok iter (codec_with_options opts) m)
        \<and> prefix (stream r) (out w') \<and> (whole \<longrightarrow> res = Ok () \<and> stream r = out w')
        \<and> delivers poll_read (framed_read_new r opts) (Message_Greeting g # cmds) s)"

lemma connection_content:
  assumes "receiver recv_next try_recv pending" and "sink feed flush iter out unflushed"
    and "transport poll_read stream" and "options_wf opts"
    and "connection whole recv_next try_recv pending feed flush iter out unflushed poll_read stream opts sent s"
  shows "reader_valid poll_read stream s" and "prefix (reader_content stream s) (map Message_Message sent)"
    and "whole \<Longrightarrow> prompt poll_read \<Longrightarrow> reader_complete poll_read stream s \<and> reader_content stream s = map Message_Message sent"
proof -
  from assms(5) obtain g cmds q w fuel res q' w' r where
    w: "unflushed w = 0" "out w = greeting_to_bytes g @ concat (map (encoding iter) cmds)"
    and q: "pending q = map Message_Message sent"
    and run: "write_message_queue fuel recv_next try_recv feed flush q w = Some (res, q', w')"
    and ok: "\<forall>m \<in> set (cmds @ pending q). wire_ok iter (codec_with_options opts) m"
    and r: "prefix (stream r) (out w')" "whole \<longrightarrow> res = Ok () \<and> stream r = out w'"
    and hs: "delivers poll_read (framed_read_new r opts) (Message_Greeting g # cmds) s"
    unfolding connection_def by metis
  let ?c = "codec_with_options opts" and ?hs = "Message_Greeting g # cmds"
  from write_message_queue_spec [OF assms(1,2) run w(1)] obtain ms lost where
    mv: "moved pending iter out (pending q) w ms lost q' w'" and all: "res = Ok () \<longrightarrow> ms = pending q" by blast
  have out: "out w' = greeting_to_bytes g @ concat (map (encoding iter) (cmds @ ms))" and ms: "prefix ms (pending q)"
    using mv w(2) by (simp_all add: moved_def)
  have "set ms \<subseteq> set (pending q)" using ms by (metis set_mono_prefix)
  with ok have "\<forall>m \<in> set (cmds @ ms). wire_ok iter ?c m" by auto
  from decode_all_connection [OF assms(4) this, of g] out obtain n c where
    dec: "decode_all ?c (out w') = (?hs @ ms, DecNeed n, c, [])" by auto
  have rem: "remaining stream (framed_read_new r opts) = decode_all ?c (stream r)"
    by (simp add: remaining_def undecoded_def framed_read_new_def)
  note d = delivers_remaining [OF hs assms(3) framed_wf_new [OF assms(4)]]
  have split: "decode_all ?c (stream r) = (?hs @ fst (remaining stream s), snd (remaining stream s))"
    using d rem by (simp add: case_prod_unfold Let_def)
  show v: "reader_valid poll_read stream s" using d assms(3) by (simp add: reader_valid_def)
  have "prefix (?hs @ fst (remaining stream s)) (?hs @ ms)"
  proof -
    from r(1) obtain zs where "out w' = stream r @ zs" by (auto elim: prefixE)
    with decode_all_prefix [OF codec_wf_with_options [OF assms(4)], of "stream r" zs] split dec show ?thesis by simp
  qed
  then have "prefix (fst (remaining stream s)) ms" by simp
  with ms q show "prefix (reader_content stream s) (map Message_Message sent)"
    unfolding reader_content_def by (metis prefix_order.trans)
  show "reader_complete poll_read stream s \<and> reader_content stream s = map Message_Message sent" if "whole" "prompt poll_read"
  proof -
    have "(?hs @ fst (remaining stream s), snd (remaining stream s)) = (?hs @ pending q, DecNeed n, c, [])"
      using that(1) r(2) all split dec by auto
    with that q v show ?thesis by (auto simp: reader_complete_def reader_content_def)
  qed
qed

section \<open>Joining peers one after the other\<close>

definition join_all ::
    "'w env \<Rightarrow> (peer_identity \<times> 's framed_io) list \<Rightarrow> 's generic_backend \<times> 'w \<Rightarrow> 's generic_backend \<times> 'w" where
  "join_all env ios bw = fold (\<lambda>(k, io). generic_peer_connected env k io) ios bw"

lemma fan_in_receive:
  assumes "receiver recv_next try_recv pending" and "sink feed flush iter out unflushed"
    and "transport poll_read stream" and "prompt poll_read" and "options_wf opts"
    and "b0 = generic_with_options (Some queue_new) t opts" and "distinct (map fst ios)"
    and "\<forall>(k, io) \<in> set ios.
      connection True recv_next try_recv pending feed flush iter out unflushed poll_read stream opts (sent k) (read_half io)"
    and "length ios * Suc n < 2 ^ 64" and "n = (\<Sum>k \<in> fst ` set ios. length (sent k))" and "n \<le> fuel"
  shows "\<exists>ds bw. recv_times n (recv_loop fuel (generic_poll_item env (reader_poll poll_read stream wakes) cx)
        (\<lambda>pid m bw. (Return (Ok (f pid m)), bw)) on_error) (join_all env ios (b0, w))
      = Some (map (\<lambda>(k, m). Ready (Ok (f k m))) ds, bw)
    \<and> (\<forall>k. from_peer k ds = (if k \<in> fst ` set ios then sent k else []))"
proof -
  note conn = connection_content [OF assms(1-3,5)]
  have held: "\<forall>(k, io) \<in> set ios. reader_complete poll_read stream (read_half io)
      \<and> reader_content stream (read_half io) = map Message_Message (sent k)"
    using assms(4,8) conn(3) by fast
  have new: "sound_streams fair_queue_inner (\<lambda>b. dom (peers b)) (backend_inv env) (reader_complete poll_read stream) b0"
    "fair_queue_inner b0 = Some queue_new"
    using assms(6) cache_ok_new
    by (auto simp: sound_streams_def owns_streams_def backend_inv_def peer_stream_def generic_with_options_def queue_new_def)
  show ?thesis
    unfolding join_all_def generic_poll_item_def by (rule gjc.recv_joined [OF new assms(7) _ assms(9-11)]) (use held in simp)
qed

section \<open>A sample connection\<close>

lemma delivers_append:
  assumes "delivers poll_read rd (xs @ ys) rd'"
  shows "\<exists>s. delivers poll_read rd xs s"
  using assms
proof (induction rd "xs @ ys" rd' arbitrary: xs rule: delivers.induct)
  case (item fuel rd m rd1 ms rd2)
  then show ?case by (cases xs) (auto intro: delivers.intros)
qed (auto intro: delivers.intros)

text \<open>A sender that has written one message of one byte; its bytes are all there for the reader.\<close>

lemma sample_connection:
  "\<exists>s. connection True sample_recv sample_recv (\<lambda>q. q) (sample_feed (\<lambda>_. [])) sample_flush (\<lambda>_. []) fst snd
    eager_poll_read (\<lambda>r. r) options_default [\<lparr> frames = [[c]] \<rparr>] s"
proof -
  let ?m = "Message_Message \<lparr> frames = [[c]] \<rparr>" and ?g = "greeting_to_bytes greeting_default"
  have ok: "\<forall>m \<in> set [?m]. wire_ok (\<lambda>_. []) (codec_with_options options_default) m"
    by (simp add: wire_ok_def frame_fits_def codec_with_options_def options_default_def isize_MAX_def)
  have run: "write_message_queue 2 sample_recv sample_recv (sample_feed (\<lambda>_. [])) sample_flush [?m] (?g, 0)
      = Some (Ok (), [], ?g @ [0, 1, c], 0)"
    by (simp add: numeral_2_eq_2 write_batch_def sample_recv_def sample_feed_def sample_flush_def WRITE_BATCH_LIMIT_def
        encoding_def encode_Message encode_frame_def eval_nat_numeral)
  from decode_all_connection [OF options_default_wf ok, of greeting_default] obtain n c' where
    "remaining (\<lambda>r. r) (framed_read_new (?g @ [0, 1, c]) options_default)
      = ([Message_Greeting greeting_default, ?m], DecNeed n, c', [])"
    by (auto simp: encoding_def encode_Message encode_frame_def remaining_def undecoded_def framed_read_new_def)
  from reader_drains [OF eager_transport eager_prompt framed_wf_new [OF options_default_wf] this]
    delivers_append [where xs = "[Message_Greeting greeting_default]" and ys = "[?m]"]
  obtain s where "delivers eager_poll_read (framed_read_new (?g @ [0, 1, c]) options_default) [Message_Greeting greeting_default] s"
    by force
  with run ok show ?thesis
    unfolding connection_def
    by (intro exI [of _ s] exI [of _ greeting_default] exI [of _ "[]"] exI [of _ "[?m]"] exI [of _ "(?g, 0)"]
        exI [of _ 2] exI [of _ "Ok ()"] exI [of _ "?g @ [0, 1, c]"] exI) auto
qed

section \<open>Properties\<close>

text \<open>C1: Many senders, one receiver. In any run of a fresh PULL or ROUTER socket, in which peers join (each identity
  once) with the reader of their connection, peers are disconnected, and the application receives, the messages
  received are, for some attribution to peers, an interleaving of what the peers sent: from each peer a prefix of what
  it sent, in order and unchanged, and nothing from anybody else; ROUTER puts the identity of exactly that peer in
  front. While a peer stays connected, none of what its reader holds has been lost or duplicated.\<close>

theorem fan_in_fifo:
  assumes "receiver recv_next try_recv pending" and "sink feed flush iter out unflushed"
    and "transport poll_read stream" and "options_wf opts"
    and "recv = pull_calls env (reader_poll poll_read stream wakes) \<and> b0 = pull_with_options opts \<and> f = (\<lambda>k m. m)
      \<or> recv = router_calls env (reader_poll poll_read stream wakes) \<and> b0 = router_with_options opts \<and> f = (\<lambda>k m. push_front m k)"
    and "socket_run env recv b0 es b" and "distinct (map fst (joins es))"
    and "\<forall>(k, s) \<in> set (joins es).
      connection False recv_next try_recv pending feed flush iter out unflushed poll_read stream opts (sent k) s"
  shows "\<exists>ds. received es = map (\<lambda>(k, m). f k m) ds \<and> fst ` set ds \<subseteq> fst ` set (joins es)
    \<and> (\<forall>(k, s) \<in> set (joins es). prefix (from_peer k ds) (sent k)
        \<and> (k \<in> dom (peers b) \<longrightarrow> data_of (reader_content stream s) = from_peer k ds @ data_of (to_come stream b k)))"
proof -
  note conn = connection_content [OF assms(1-4)]
  have new: "reader_sound env poll_read stream b0" "dom (peers b0) = {}" "accountable env poll_read stream f recv"
    using assms(5) pull_accountable router_accountable cache_ok_new
    by (auto simp: sound_streams_def owns_streams_def backend_inv_def peer_stream_def pull_with_options_def
        router_with_options_def generic_with_options_def queue_new_def)
  have "\<forall>(k, s) \<in> set (joins es). reader_valid poll_read stream s" using assms(8) conn(1) by fast
  from run_accounted [OF assms(6) new(3,1,2) assms(7) this] obtain ds where acc: "accounted f stream es b ds" by blast
  have "prefix (from_peer k ds) (sent k)
      \<and> (k \<in> dom (peers b) \<longrightarrow> data_of (reader_content stream s) = from_peer k ds @ data_of (to_come stream b k))"
    if ks: "(k, s) \<in> set (joins es)" for k s
  proof -
    from acc ks obtain ms where ms: "from_peer k ds = data_of ms" "prefix ms (reader_content stream s)"
      "k \<in> dom (peers b) \<longrightarrow> reader_content stream s = ms @ to_come stream b k" by (fastforce simp: accounted_def)
    have "prefix (reader_content stream s) (map Message_Message (sent k))" using ks assms(8) conn(2) by fast
    with ms(2) have "prefix (data_of ms) (data_of (map Message_Message (sent k)))"
      by (intro data_of_prefix) (rule prefix_order.trans)
    with ms show ?thesis by simp
  qed
  moreover have "fst ` set ds \<subseteq> fst ` set (joins es)"
  proof -
    have "from_peer k ds \<noteq> []" if "k \<in> fst ` set ds" for k
      using that by (auto simp: from_peer_def filter_empty_conv)
    with acc show ?thesis unfolding accounted_def by blast
  qed
  ultimately show ?thesis using acc by (intro exI [of _ ds]) (auto simp: accounted_def)
qed

theorem fan_in_fifo_witness:
  "\<exists>s r b bw. connection False sample_recv sample_recv (\<lambda>q. q) (sample_feed (\<lambda>_. [])) sample_flush (\<lambda>_. []) fst snd
      eager_poll_read (\<lambda>r. r) options_default [\<lparr> frames = [[9]] \<rparr>] s
    \<and> router_recv 1 (sample_env [] []) (reader_poll eager_poll_read (\<lambda>r. r) (\<lambda>_. False)) 0
        (join_all (sample_env [] []) [([7], \<lparr> read_half = s, write_half = 0 \<rparr>)]
          (router_with_options options_default, (\<lambda>_. [], \<lambda>_. [], 0))) = Some (r, b, bw)
    \<and> (\<exists>ds. received [Joined [7] s, Received r] = map (\<lambda>(k, m). push_front m k) ds
        \<and> fst ` set ds \<subseteq> {[7]} \<and> prefix (from_peer [7] ds) [\<lparr> frames = [[9]] \<rparr>])"
proof -
  let ?env = "sample_env [] []" and ?w = "(\<lambda>_. [], \<lambda>_. [], 0) :: (nat \<Rightarrow> message list) \<times> (nat \<Rightarrow> message list) \<times> nat"
  let ?ps = "reader_poll eager_poll_read (\<lambda>r. r) (\<lambda>_. False)" and ?b0 = "router_with_options options_default"
  let ?conn = "\<lambda>whole. connection whole sample_recv sample_recv (\<lambda>q. q) (sample_feed (\<lambda>_. [])) sample_flush (\<lambda>_. []) fst snd
      eager_poll_read (\<lambda>r. r) options_default"
  let ?sent = "\<lambda>k :: peer_identity. [\<lparr> frames = [[9]] \<rparr>]"
  obtain s where s: "?conn True [\<lparr> frames = [[9]] \<rparr>] s" using sample_connection by blast
  then have s': "?conn False [\<lparr> frames = [[9]] \<rparr>] s" unfolding connection_def by blast
  let ?ios = "[([7], \<lparr> read_half = s, write_half = 0 \<rparr>)]"
  have "\<forall>(k, io) \<in> set ?ios. ?conn True (?sent k) (read_half io)" "distinct (map fst ?ios)"
    "length ?ios * Suc 1 < 2 ^ 64" "1 = (\<Sum>k \<in> fst ` set ?ios. length (?sent k))" "(1 :: nat) \<le> 1" using s by simp_all
  from fan_in_receive [OF sample_writer(1) sample_writer(2) eager_transport eager_prompt options_default_wf
      router_with_options_def this(2,1,3-5), of ?env "\<lambda>_. False" 0 "\<lambda>k m. push_front m k" _ ?w]
  obtain r b w2 where r: "router_recv 1 ?env ?ps 0 (join_all ?env ?ios (?b0, ?w)) = Some (r, b, w2)"
    unfolding router_recv_def by (fastforce split: option.splits)
  let ?c = "generic_peer_connected ?env [7] \<lparr> read_half = s, write_half = 0 \<rparr> (?b0, ?w)"
  have calls: "router_calls ?env ?ps (fst ?c, snd ?c) (r, b, w2)"
    unfolding router_calls_def using r by (auto simp: join_all_def)
  have start: "socket_run ?env (router_calls ?env ?ps) ?b0 ([] @ [Joined [7] (read_half \<lparr> read_half = s, write_half = 0 \<rparr>)]) (fst ?c)"
    by (intro socket_run.join socket_run.start)
  from socket_run.recv [where recv = "router_calls ?env ?ps", OF start calls]
  have run: "socket_run ?env (router_calls ?env ?ps) ?b0 [Joined [7] s, Received r] b" by simp
  have "distinct (map fst (joins [Joined [7] s, Received r]))" "\<forall>(k, s) \<in> set (joins [Joined [7] s, Received r]). ?conn False (?sent k) s"
    using s' by simp_all
  from fan_in_fifo [OF sample_writer(1) sample_writer(2) eager_transport options_default_wf disjI2 [OF conjI [OF refl conjI [OF refl refl]]] run this]
  show ?thesis using s' r by (intro exI [of _ s] exI [of _ r] exI [of _ b] exI [of _ w2]) fastforce
qed

text \<open>C2: And everything arrives. When peers have joined a fresh PULL or ROUTER socket, each with a connection whose
  writer has ended normally and whose transport carries all the bytes and is never pending and never fails, then as
  many calls of \<open>recv\<close> as messages were sent by all of them together return all the messages, each peer's complete and
  in order. (The heap's counter must not wrap around meanwhile.)\<close>

theorem fan_in_complete:
  assumes "receiver recv_next try_recv pending" and "sink feed flush iter out unflushed"
    and "transport poll_read stream" and "prompt poll_read" and "options_wf opts"
    and "recv = pull_recv fuel env (reader_poll poll_read stream wakes) cx \<and> b0 = pull_with_options opts \<and> f = (\<lambda>k m. m)
      \<or> recv = router_recv fuel env (reader_poll poll_read stream wakes) cx \<and> b0 = router_with_options opts \<and> f = (\<lambda>k m. push_front m k)"
    and "distinct (map fst ios)"
    and "\<forall>(k, io) \<in> set ios.
      connection True recv_next try_recv pending feed flush iter out unflushed poll_read stream opts (sent k) (read_half io)"
    and "n = (\<Sum>k \<in> fst ` set ios. length (sent k))" and "n \<le> fuel" and "length ios * Suc n < 2 ^ 64"
  shows "\<exists>ds bw. recv_times n recv (join_all env ios (b0, w)) = Some (map (\<lambda>(k, m). Ready (Ok (f k m))) ds, bw)
    \<and> (\<forall>k. from_peer k ds = (if k \<in> fst ` set ios then sent k else []))"
proof -
  have "\<exists>t on_error. b0 = generic_with_options (Some queue_new) t opts
      \<and> recv = recv_loop fuel (generic_poll_item env (reader_poll poll_read stream wakes) cx)
          (\<lambda>pid m bw. (Return (Ok (f pid m)), bw)) on_error"
    using assms(6) by (auto simp: fun_eq_iff pull_recv_def router_recv_def pull_with_options_def router_with_options_def)
  then obtain t on_error where b0: "b0 = generic_with_options (Some queue_new) t opts"
    and recv: "recv = recv_loop fuel (generic_poll_item env (reader_poll poll_read stream wakes) cx)
          (\<lambda>pid m bw. (Return (Ok (f pid m)), bw)) on_error" by blast
  show ?thesis unfolding recv by (rule fan_in_receive [OF assms(1-5) b0 assms(7,8,11,9,10)])
qed

theorem fan_in_complete_witness:
  "\<exists>s1 s2 ds bw.
      recv_times 2 (router_recv 2 (sample_env [] []) (reader_poll eager_poll_read (\<lambda>r. r) (\<lambda>_. False)) 0)
        (join_all (sample_env [] []) [([1], \<lparr> read_half = s1, write_half = 0 \<rparr>), ([2], \<lparr> read_half = s2, write_half = 1 \<rparr>)]
          (router_with_options options_default, (\<lambda>_. [], \<lambda>_. [], 0)))
        = Some (map (\<lambda>(k, m). Ready (Ok (push_front m k))) ds, bw)
    \<and> from_peer [1] ds = [\<lparr> frames = [[8]] \<rparr>] \<and> from_peer [2] ds = [\<lparr> frames = [[9]] \<rparr>]"
proof -
  let ?conn = "connection True sample_recv sample_recv (\<lambda>q. q) (sample_feed (\<lambda>_. [])) sample_flush (\<lambda>_. []) fst snd
      eager_poll_read (\<lambda>r. r) options_default"
  obtain s1 s2 where s: "?conn [\<lparr> frames = [[8]] \<rparr>] s1" "?conn [\<lparr> frames = [[9]] \<rparr>] s2"
    using sample_connection by blast
  let ?ios = "[([1 :: byte], \<lparr> read_half = s1, write_half = 0 \<rparr>), ([2], \<lparr> read_half = s2, write_half = 1 \<rparr>)]"
  let ?sent = "\<lambda>k :: peer_identity. if k = [1] then [\<lparr> frames = [[8]] \<rparr>] else [\<lparr> frames = [[9]] \<rparr>]"
  have "distinct (map fst ?ios)" "\<forall>(k, io) \<in> set ?ios. ?conn (?sent k) (read_half io)"
    "2 = (\<Sum>k \<in> fst ` set ?ios. length (?sent k))" "(2 :: nat) \<le> 2" "length ?ios * Suc 2 < 2 ^ 64" using s by simp_all
  from fan_in_complete [OF sample_writer(1) sample_writer(2) eager_transport eager_prompt options_default_wf
      disjI2 [OF conjI [OF refl conjI [OF refl refl]]] this,
      of "sample_env [] []" "\<lambda>_. False" 0 "(\<lambda>_. [], \<lambda>_. [], 0)"]
  show ?thesis by fastforce
qed

end
