(* ===== verification/Push_Pull.thy ===== *)
theory Push_Pull
  imports Pipeline "HOL-Library.Multiset"
begin

text \<open>
  A pipeline from end to end: one PUSH socket (\<open>push.rs\<close>) that distributes over its peers, and PULL sockets
  (\<open>pull.rs\<close>) that receive from it and possibly from others. What the sends have accepted is accounted for by an
  attribution to queues (\<open>push_all_spread\<close>); connections and fair queues carry it on (\<open>Pipeline\<close>).
\<close>

section \<open>Sending\<close>

text \<open>Messages sent one after the other, with the results of the sends.\<close>

fun push_all ::
    "'w env \<Rightarrow> zmq_message list \<Rightarrow> 's generic_backend \<times> 'w \<Rightarrow> unit zmq_result list \<times> 's generic_backend \<times> 'w" where
  "push_all env [] bw = ([], bw)"
| "push_all env (m # ms) bw =
     (case push_send env m bw of (r, bw') \<Rightarrow>
        (case push_all env ms bw' of (rs, bw'') \<Rightarrow> (r # rs, bw'')))"

text \<open>The messages whose send has succeeded.\<close>

definition sent_ok :: "unit zmq_result list \<Rightarrow> zmq_message list \<Rightarrow> zmq_message list" where
  "sent_ok rs ms = map snd (filter (\<lambda>(r, m). r = Ok ()) (zip rs ms))"

lemma sent_ok_simps [simp]:
  "sent_ok [] ms = []" "sent_ok (r # rs) (m # ms) = (if r = Ok () then m # sent_ok rs ms else sent_ok rs ms)"
  by (simp_all add: sent_ok_def)

lemma sent_ok_subseq: "subseq (sent_ok rs ms) ms"
proof (induction rs arbitrary: ms)
  case (Cons r rs)
  then show ?case by (cases ms) (auto simp: sent_ok_def)
qed simp

text \<open>The part of an attribution that concerns one queue.\<close>

definition for_queue :: "nat \<Rightarrow> (nat \<times> zmq_message) list \<Rightarrow> zmq_message list" where
  "for_queue h ds = map snd (filter (\<lambda>d. fst d = h) ds)"

lemma for_queue_simps [simp]:
  "for_queue h [] = []" "for_queue h (d # ds) = (if fst d = h then snd d # for_queue h ds else for_queue h ds)"
  by (simp_all add: for_queue_def)

lemma for_queue_subseq: "subseq (for_queue h ds) (map snd ds)"
  by (simp add: for_queue_def subseq_map)

lemma for_queue_partition:
  assumes "finite H" and "fst ` set ds \<subseteq> H"
  shows "(\<Sum>h \<in> H. mset (for_queue h ds)) = mset (map snd ds)"
  using assms(2)
proof (induction ds)
  case (Cons d ds)
  have "(\<Sum>h \<in> H. mset (for_queue h (d # ds))) = (\<Sum>h \<in> H. (if h = fst d then {#snd d#} else {#}) + mset (for_queue h ds))"
    by (intro sum.cong) auto
  also have "\<dots> = {#snd d#} + (\<Sum>h \<in> H. mset (for_queue h ds))"
    using Cons.prems assms(1) by (simp add: sum.distrib)
  finally show ?case using Cons by simp
qed simp

text \<open>Every message whose send has succeeded was accepted by the queue of exactly one peer, in the order of the
  sends; the others were accepted by none. This holds whatever queues are full or closed.\<close>

lemma push_all_spread:
  assumes "env_ok env accepted written" and "generic_wf b" and "cache_ok b"
    and "push_all env ms (b, w) = (rs, b', w')"
  shows "length rs = length ms \<and> (\<exists>ds. map snd ds = sent_ok rs ms \<and> fst ` set ds \<subseteq> ran (peers b)
    \<and> (\<forall>h. accepted w' h = accepted w h @ map Message_Message (for_queue h ds)))"
  using assms(2-)
proof (induction ms arbitrary: b w rs)
  case (Cons m ms)
  obtain r b1 w1 where s: "send_round_robin env (Message_Message m) (b, w) = (r, b1, w1)" by (metis surj_pair)
  with Cons.prems(3) obtain rs' where rs: "rs = r # rs'" "push_all env ms (b1, w1) = (rs', b', w')"
    by (auto simp: push_send_def split: prod.splits)
  note one = send_round_robin_delivers [OF assms(1) Cons.prems(1,2) s]
  from Cons.IH [OF _ _ rs(2)] one obtain ds where ds: "length rs' = length ms" "map snd ds = sent_ok rs' ms"
    "fst ` set ds \<subseteq> ran (peers b1)" "\<And>h. accepted w' h = accepted w1 h @ map Message_Message (for_queue h ds)" by auto
  show ?case
  proof (cases r)
    case (Inr u)
    with one obtain k q where q: "peers b k = Some q" "peers b1 = peers b"
      "accepted w1 = (accepted w)(q := accepted w q @ [Message_Message m])" by auto
    then have "q \<in> ran (peers b)" by (auto intro: ranI)
    with Inr rs(1) ds q show ?thesis by (intro conjI exI [of _ "(q, m) # ds"]) auto
  next
    case (Inl e)
    with one have "ran (peers b1) \<subseteq> ran (peers b)" and a: "accepted w1 = accepted w"
      by (auto simp: ran_def split: if_splits)
    with ds(3) have "fst ` set ds \<subseteq> ran (peers b)" by blast
    with Inl rs(1) ds a show ?thesis by (intro conjI exI [of _ ds]) auto
  qed
qed simp

section \<open>Properties\<close>

text \<open>C4: Exactly-once distribution, from the sender to the receivers. A PUSH socket sends the messages \<open>ms\<close>; each of its
  peers is a PULL socket, which knows it as \<open>me p\<close> and may receive from any number of other senders. When the
  connections are whole, then all PULL sockets together receive each message whose send succeeded exactly once, and
  nothing else from this sender; each PULL socket receives its share in the order of the sends. This holds also when
  sends fail because peers have gone.\<close>

theorem push_pull_exactly_once:
  fixes env :: "'w env" and renv :: "'v env"
  assumes "env_ok env accepted written" and "generic_wf b" and "cache_ok b" and "inj_on (peers b) (dom (peers b))"
    and "\<forall>q \<in> ran (peers b). accepted w q = []" and "push_all env ms (b, w) = (rs, b', w')"
    and "receiver recv_next try_recv pending" and "sink feed flush iter out unflushed"
    and "transport poll_read stream" and "prompt poll_read" and "options_wf opts"
    and "\<forall>p q. peers b p = Some q \<longrightarrow> distinct (map fst (ios p)) \<and> me p \<in> fst ` set (ios p)
      \<and> sent p (me p) = data_of (accepted w' q)
      \<and> (\<forall>(k, io) \<in> set (ios p).
          connection True recv_next try_recv pending feed flush iter out unflushed poll_read stream opts (sent p k) (read_half io))
      \<and> n p = (\<Sum>k \<in> fst ` set (ios p). length (sent p k)) \<and> length (ios p) * Suc (n p) < 2 ^ 64"
  shows "\<exists>ds. (\<forall>p \<in> dom (peers b). \<exists>bw.
        recv_times (n p) (pull_recv (n p) renv (reader_poll poll_read stream wakes) cx) (join_all renv (ios p) (pull_with_options opts, rw))
          = Some (map (\<lambda>(k, m). Ready (Ok m)) (ds p), bw)
        \<and> subseq (from_peer (me p) (ds p)) ms)
    \<and> (\<Sum>p \<in> dom (peers b). mset (from_peer (me p) (ds p))) = mset (sent_ok rs ms)"
proof -
  from push_all_spread [OF assms(1-3,6)] obtain as where as: "map snd as = sent_ok rs ms" "fst ` set as \<subseteq> ran (peers b)"
    "\<And>h. accepted w' h = accepted w h @ map Message_Message (for_queue h as)" by blast
  let ?Q = "\<lambda>p ds. (\<exists>bw. recv_times (n p) (pull_recv (n p) renv (reader_poll poll_read stream wakes) cx)
        (join_all renv (ios p) (pull_with_options opts, rw)) = Some (map (\<lambda>(k, m). Ready (Ok m)) ds, bw))
      \<and> from_peer (me p) ds = for_queue (the (peers b p)) as"
  have "\<exists>ds. ?Q p ds" if p: "p \<in> dom (peers b)" for p
  proof -
    from p obtain q where q: "peers b p = Some q" by blast
    note h = assms(12) [rule_format, OF q]
    have s: "sent p (me p) = for_queue q as" using h as(3) [of q] assms(5) ranI [of "peers b" p q] q by simp
    from h have h': "distinct (map fst (ios p))" "\<forall>(k, io) \<in> set (ios p).
          connection True recv_next try_recv pending feed flush iter out unflushed poll_read stream opts (sent p k) (read_half io)"
      "length (ios p) * Suc (n p) < 2 ^ 64" "n p = (\<Sum>k \<in> fst ` set (ios p). length (sent p k))" "me p \<in> fst ` set (ios p)"
      by blast+
    have "\<exists>ds bw. recv_times (n p) (pull_recv (n p) renv (reader_poll poll_read stream wakes) cx)
        (join_all renv (ios p) (pull_with_options opts, rw)) = Some (map (\<lambda>(k, m). Ready (Ok m)) ds, bw)
      \<and> (\<forall>k. from_peer k ds = (if k \<in> fst ` set (ios p) then sent p k else []))"
      unfolding pull_recv_def [abs_def] by (rule fan_in_receive [OF assms(7-11) pull_with_options_def h'(1-4) order_refl])
    then obtain ds bw where "recv_times (n p) (pull_recv (n p) renv (reader_poll poll_read stream wakes) cx)
        (join_all renv (ios p) (pull_with_options opts, rw)) = Some (map (\<lambda>(k, m). Ready (Ok m)) ds, bw)"
      "from_peer (me p) ds = (if me p \<in> fst ` set (ios p) then sent p (me p) else [])" by blast
    with q s h'(5) show ?thesis by (intro exI [of _ ds]) simp
  qed
  then obtain ds where ds: "\<And>p. p \<in> dom (peers b) \<Longrightarrow> ?Q p (ds p)" by metis
  have inj: "inj_on (\<lambda>p. the (peers b p)) (dom (peers b))" using assms(4) unfolding inj_on_def by (metis domD option.sel)
  have ran: "(\<lambda>p. the (peers b p)) ` dom (peers b) = ran (peers b)" by (force simp: ran_def)
  have fin: "finite (ran (peers b))" using assms(2) finite_ran by (auto simp: generic_wf_def)
  have "(\<Sum>p \<in> dom (peers b). mset (from_peer (me p) (ds p))) = (\<Sum>p \<in> dom (peers b). mset (for_queue (the (peers b p)) as))"
    by (intro sum.cong) (use ds in auto)
  also have "\<dots> = (\<Sum>h \<in> ran (peers b). mset (for_queue h as))" using sum.reindex [OF inj, of "\<lambda>h. mset (for_queue h as)"] by (simp add: ran)
  also have "\<dots> = mset (sent_ok rs ms)" using for_queue_partition [OF fin as(2)] as(1) by simp
  finally have "(\<Sum>p \<in> dom (peers b). mset (from_peer (me p) (ds p))) = mset (sent_ok rs ms)" .
  moreover have "subseq (from_peer (me p) (ds p)) ms" if "p \<in> dom (peers b)" for p
    using ds [OF that] for_queue_subseq [of _ as] sent_ok_subseq [of rs ms] as(1) by (metis subseq_order.trans)
  ultimately show ?thesis using ds by (intro exI [of _ ds]) blast
qed

text \<open>Two messages over two peers.\<close>

theorem push_pull_exactly_once_witness:
  "\<exists>s1 s2 ds1 ds2 bw1 bw2.
     recv_times 1 (pull_recv 1 (sample_env [] []) (reader_poll eager_poll_read (\<lambda>r. r) (\<lambda>_. False)) 0)
        (join_all (sample_env [] []) [([0], \<lparr> read_half = s1, write_half = 0 \<rparr>)] (pull_with_options options_default, (\<lambda>_. [], \<lambda>_. [], 0)))
       = Some (map (\<lambda>(k, m). Ready (Ok m)) ds1, bw1)
   \<and> recv_times 1 (pull_recv 1 (sample_env [] []) (reader_poll eager_poll_read (\<lambda>r. r) (\<lambda>_. False)) 0)
        (join_all (sample_env [] []) [([0], \<lparr> read_half = s2, write_half = 0 \<rparr>)] (pull_with_options options_default, (\<lambda>_. [], \<lambda>_. [], 0)))
       = Some (map (\<lambda>(k, m). Ready (Ok m)) ds2, bw2)
   \<and> mset (from_peer [0] ds1) + mset (from_peer [0] ds2) = {# \<lparr> frames = [[41]] \<rparr>, \<lparr> frames = [[42]] \<rparr> #}"
proof -
  let ?env = "sample_env [] []" and ?w = "(\<lambda>_. [], \<lambda>_. [], 2) :: (nat \<Rightarrow> message list) \<times> (nat \<Rightarrow> message list) \<times> nat"
  let ?m1 = "\<lparr> frames = [[41]] \<rparr> :: zmq_message" and ?m2 = "\<lparr> frames = [[42]] \<rparr> :: zmq_message"
  define b where "b = (generic_with_options None PUSH options_default :: unit generic_backend) \<lparr>
    peers := [[1] \<mapsto> 0, [2] \<mapsto> 1], round_robin := [[2], [1]], peer_count := 2 \<rparr>"
  have wf: "generic_wf b" "cache_ok b" and p: "peers b = [[1] \<mapsto> 0, [2] \<mapsto> 1]" "dom (peers b) = {[1], [2]}"
    by (auto simp: b_def generic_with_options_def generic_wf_def cache_ok_def singleton_map_iff)
  have ok: "inj_on (peers b) (dom (peers b))" "\<forall>q \<in> ran (peers b). fst ?w q = []" by (auto simp: p inj_on_def)
  obtain w' where run: "push_all ?env [?m1, ?m2] (b, ?w) = ([Ok (), Ok ()], b, w')"
    "fst w' 1 = [Message_Message ?m1]" "fst w' 0 = [Message_Message ?m2]"
    by (simp add: push_send_def send_round_robin_def try_send_cached_single_peer_def finish_cached_send_def
        send_to_peer_queue_def b_def generic_with_options_def)
  let ?conn = "connection True sample_recv sample_recv (\<lambda>q. q) (sample_feed (\<lambda>_. [])) sample_flush (\<lambda>_. []) fst snd
      eager_poll_read (\<lambda>r. r) options_default"
  obtain s1 s2 where s: "?conn [?m2] s1" "?conn [?m1] s2" using sample_connection by blast
  define ios where "ios = (\<lambda>p :: peer_identity. [([0 :: byte], \<lparr> read_half = if p = [1] then s1 else s2, write_half = 0 \<rparr>)])"
  define sent where "sent = (\<lambda>(p :: peer_identity) (k :: peer_identity). if p = [1] then [?m2] else [?m1])"
  have "\<forall>p q. peers b p = Some q \<longrightarrow> distinct (map fst (ios p)) \<and> [0] \<in> fst ` set (ios p)
      \<and> sent p [0] = data_of (fst w' q) \<and> (\<forall>(k, io) \<in> set (ios p). ?conn (sent p k) (read_half io))
      \<and> 1 = (\<Sum>k \<in> fst ` set (ios p). length (sent p k)) \<and> length (ios p) * Suc 1 < 2 ^ 64"
    using run(2,3) s by (auto simp: p ios_def sent_def split: if_splits)
  from push_pull_exactly_once [where me = "\<lambda>_. [0]" and n = "\<lambda>_. 1", OF sample_env_ok wf ok run(1) sample_writer(1)
      sample_writer(2) eager_transport eager_prompt options_default_wf this, of ?env "\<lambda>_. False" 0 "(\<lambda>_. [], \<lambda>_. [], 0)"]
  obtain ds where ds: "\<forall>p \<in> {[1], [2]}. \<exists>bw. recv_times 1 (pull_recv 1 ?env (reader_poll eager_poll_read (\<lambda>r. r) (\<lambda>_. False)) 0)
        (join_all ?env (ios p) (pull_with_options options_default, (\<lambda>_. [], \<lambda>_. [], 0)))
       = Some (map (\<lambda>(k, m). Ready (Ok m)) (ds p), bw)"
      "(\<Sum>p \<in> {[1], [2]}. mset (from_peer [0] (ds p))) = {# ?m1, ?m2 #}"
    unfolding p(2) by (auto simp: sent_ok_def)
  then show ?thesis by (intro exI [of _ s1] exI [of _ s2] exI [of _ "ds [1]"] exI [of _ "ds [2]"]) (simp add: ios_def)
qed

end
