(* ===== verification/Pub.thy ===== *)
theory Pub
  imports Multi_Peer "HOL-Library.Multiset"
begin

text \<open>
  \<open>src/pub.rs\<close>: the PUB socket. Its backend keeps the subscriptions and the send queue of every
  subscriber and a counter of the subscribers; messages to publish go through a bounded queue to a worker
  task, which copies each of them to the queues of the subscribers with a matching subscription and drops
  the copy for a subscriber whose queue is full or closed.

  The fan-out queue is a concurrent program of two parties, the publishing task and the worker; \<open>fan_step\<close>
  is its step relation, one step per atomic operation on the shared queue, flag and wake channel.
\<close>

section \<open>Subscriptions\<close>

definition filter_matches :: "bytes \<Rightarrow> bytes \<Rightarrow> bool" where
  "filter_matches sub_filter first_frame \<longleftrightarrow>
     length sub_filter \<le> length first_frame \<and> sub_filter = take (length sub_filter) first_frame"

definition subscription_matches :: "bytes list \<Rightarrow> bytes \<Rightarrow> bool" where
  "subscription_matches subscriptions first_frame =
     (if length subscriptions \<le> 1 then list_ex (\<lambda>f. filter_matches f first_frame) subscriptions
      else let first_byte = (case first_frame of [] \<Rightarrow> None | b # _ \<Rightarrow> Some b)
           in list_ex (\<lambda>f. case f of
                [] \<Rightarrow> filter_matches f first_frame
              | prefix_first # _ \<Rightarrow>
                  if Some prefix_first \<noteq> first_byte then False else filter_matches f first_frame)
                subscriptions)"

text \<open>The part of \<open>message_received\<close> that decides what a message from a subscriber does to its
  subscriptions: a single frame whose first byte is 1 adds the rest, 0 removes the first equal entry,
  anything else is ignored.\<close>

definition update_subscriptions :: "message \<Rightarrow> bytes list \<Rightarrow> bytes list" where
  "update_subscriptions message subs =
     (case message of
        Message_Message m \<Rightarrow>
          if msg_len m \<noteq> 1 then subs
          else (case last (into_vec m) of
                  [] \<Rightarrow> subs
                | b # topic \<Rightarrow>
                    if b = 1 then subs @ [topic]
                    else if b = 0 then remove1 topic subs
                    else subs)
      | _ \<Rightarrow> subs)"

section \<open>The backend\<close>

definition PUB_SEND_QUEUE_CAPACITY :: nat where "PUB_SEND_QUEUE_CAPACITY = 100000"

record subscriber =
  subscriptions :: "bytes list"
  sub_queue :: nat

record pub_backend =
  subscribers :: "peer_identity \<rightharpoonup> subscriber"
  subscriber_count :: nat
  pub_monitor :: "nat option"
  pub_options :: socket_options

definition pub_new :: "socket_options \<Rightarrow> pub_backend" where
  "pub_new options =
     \<lparr> subscribers = Map.empty, subscriber_count = 0, pub_monitor = None, pub_options = options \<rparr>"

definition send_to_subscriber :: "'w env \<Rightarrow> nat \<Rightarrow> zmq_message \<Rightarrow> 'w \<Rightarrow> 'w" where
  "send_to_subscriber env send_queue message w =
     (case try_send env send_queue (Message_Message message) w of
        (TrySent, w') \<Rightarrow> w'
      | (TryFull _, w') \<Rightarrow> w'
      | (TryClosed, w') \<Rightarrow> w')"

definition pub_fanout_message :: "'w env \<Rightarrow> zmq_message \<Rightarrow> pub_backend \<Rightarrow> 'w \<Rightarrow> 'w" where
  "pub_fanout_message env message b w =
     (case msg_get message 0 of
        None \<Rightarrow> w
      | Some first_frame \<Rightarrow>
          fold (\<lambda>k w. case subscribers b k of
                  None \<Rightarrow> w
                | Some subscriber \<Rightarrow>
                    if subscription_matches (subscriptions subscriber) first_frame
                    then send_to_subscriber env (sub_queue subscriber) message w else w)
            (keys_of env w (dom (subscribers b))) w)"

definition pub_message_received :: "peer_identity \<Rightarrow> message \<Rightarrow> pub_backend \<Rightarrow> pub_backend" where
  "pub_message_received pid message b =
     (case subscribers b pid of
        None \<Rightarrow> b
      | Some s \<Rightarrow>
          b \<lparr> subscribers := (subscribers b)(pid \<mapsto>
                s \<lparr> subscriptions := update_subscriptions message (subscriptions s) \<rparr>) \<rparr>)"

definition pub_peer_connected ::
    "'w env \<Rightarrow> peer_identity \<Rightarrow> 's framed_io \<Rightarrow> pub_backend \<times> 'w \<Rightarrow> pub_backend \<times> 'w" where
  "pub_peer_connected env pid io bw = (case bw of (b, w) \<Rightarrow>
     let (queue, w1) = channel env PUB_SEND_QUEUE_CAPACITY w;
         old_subscriber = subscribers b pid;
         b1 = b \<lparr> subscribers := (subscribers b)(pid \<mapsto> \<lparr> subscriptions = [], sub_queue = queue \<rparr>) \<rparr>;
         b2 = (if old_subscriber = None then b1 \<lparr> subscriber_count := subscriber_count b1 + 1 \<rparr> else b1)
     in (b2, spawn_writer env pid queue (write_half io) w1))"

definition pub_peer_disconnected :: "'w env \<Rightarrow> peer_identity \<Rightarrow> pub_backend \<times> 'w \<Rightarrow> pub_backend \<times> 'w" where
  "pub_peer_disconnected env pid bw = (case bw of (b, w) \<Rightarrow>
     let w1 = monitor_event env (pub_monitor b) (Disconnected pid) w
     in if subscribers b pid \<noteq> None
        then (b \<lparr> subscribers := (subscribers b)(pid := None),
                  subscriber_count := subscriber_count b - 1 \<rparr>, w1)
        else (b, w1))"

definition pub_shutdown :: "pub_backend \<times> 'w \<Rightarrow> pub_backend \<times> 'w" where
  "pub_shutdown bw = (case bw of (b, w) \<Rightarrow>
     (b \<lparr> subscribers := Map.empty, subscriber_count := 0 \<rparr>, w))"

text \<open>The reading task of a subscriber, as spawned by \<open>peer_connected\<close>: what \<open>select!\<close> yields one after the
  other, either the stop signal or the next item of the connection.\<close>

datatype reader_event = StopSignal | Received "(codec_error + message) option"

fun pub_reader :: "'w env \<Rightarrow> peer_identity \<Rightarrow> reader_event list \<Rightarrow> pub_backend \<times> 'w \<Rightarrow> pub_backend \<times> 'w" where
  "pub_reader env pid [] bw = bw"
| "pub_reader env pid (StopSignal # es) bw = bw"
| "pub_reader env pid (Received (Some (Inr m)) # es) bw =
     pub_reader env pid es (pub_message_received pid m (fst bw), snd bw)"
| "pub_reader env pid (Received (Some (Inl e)) # es) bw = pub_peer_disconnected env pid bw"
| "pub_reader env pid (Received None # es) bw = pub_peer_disconnected env pid bw"

section \<open>The fan-out queue\<close>

text \<open>Where the publishing task is within \<open>publish\<close>, and where the worker is within its loops.\<close>

datatype publisher_pc = PubIdle | PubLoad | PubSwap | PubSend
datatype worker_pc = WaitWake | Drain | StoreFalse | CheckEmpty | StoreTrue

record fanout =
  fan_capacity :: nat
  fan_queue :: "zmq_message list"
  wake_pending :: bool
  wakes :: nat
  publisher :: publisher_pc
  worker :: worker_pc
  published :: "zmq_message list"
  fanned_out :: "zmq_message list"

text \<open>\<open>published\<close> and \<open>fanned_out\<close> record the messages that entered the queue and those given to
  \<open>fanout_message\<close>.\<close>

definition fanout_new :: "nat \<Rightarrow> fanout" where
  "fanout_new capacity =
     \<lparr> fan_capacity = capacity, fan_queue = [], wake_pending = False, wakes = 0, publisher = PubIdle,
       worker = WaitWake, published = [], fanned_out = [] \<rparr>"

inductive publisher_step :: "fanout \<Rightarrow> fanout \<Rightarrow> bool" where
  push_full: "publisher f = PubIdle \<Longrightarrow> length (fan_queue f) \<ge> fan_capacity f \<Longrightarrow> publisher_step f f"
| push: "publisher f = PubIdle \<Longrightarrow> length (fan_queue f) < fan_capacity f
    \<Longrightarrow> publisher_step f (f \<lparr> fan_queue := fan_queue f @ [m], published := published f @ [m],
                           publisher := PubLoad \<rparr>)"
| load_true: "publisher f = PubLoad \<Longrightarrow> wake_pending f \<Longrightarrow> publisher_step f (f \<lparr> publisher := PubIdle \<rparr>)"
| load_false: "publisher f = PubLoad \<Longrightarrow> \<not> wake_pending f \<Longrightarrow> publisher_step f (f \<lparr> publisher := PubSwap \<rparr>)"
| swap_true: "publisher f = PubSwap \<Longrightarrow> wake_pending f \<Longrightarrow> publisher_step f (f \<lparr> publisher := PubIdle \<rparr>)"
| swap_false: "publisher f = PubSwap \<Longrightarrow> \<not> wake_pending f
    \<Longrightarrow> publisher_step f (f \<lparr> wake_pending := True, publisher := PubSend \<rparr>)"
| send_wake: "publisher f = PubSend
    \<Longrightarrow> publisher_step f (f \<lparr> wakes := wakes f + 1, publisher := PubIdle \<rparr>)"

inductive worker_step :: "fanout \<Rightarrow> fanout \<Rightarrow> bool" where
  receive: "worker f = WaitWake \<Longrightarrow> wakes f > 0
    \<Longrightarrow> worker_step f (f \<lparr> wakes := wakes f - 1, worker := Drain \<rparr>)"
| pop: "worker f = Drain \<Longrightarrow> fan_queue f = m # ms
    \<Longrightarrow> worker_step f (f \<lparr> fan_queue := ms, fanned_out := fanned_out f @ [m] \<rparr>)"
| drained: "worker f = Drain \<Longrightarrow> fan_queue f = [] \<Longrightarrow> worker_step f (f \<lparr> worker := StoreFalse \<rparr>)"
| clear: "worker f = StoreFalse
    \<Longrightarrow> worker_step f (f \<lparr> wake_pending := False, worker := CheckEmpty \<rparr>)"
| sleep: "worker f = CheckEmpty \<Longrightarrow> fan_queue f = [] \<Longrightarrow> worker_step f (f \<lparr> worker := WaitWake \<rparr>)"
| again: "worker f = CheckEmpty \<Longrightarrow> fan_queue f \<noteq> [] \<Longrightarrow> worker_step f (f \<lparr> worker := StoreTrue \<rparr>)"
| keep: "worker f = StoreTrue \<Longrightarrow> worker_step f (f \<lparr> wake_pending := True, worker := Drain \<rparr>)"

definition fan_step :: "fanout \<Rightarrow> fanout \<Rightarrow> bool" where
  "fan_step f f' \<longleftrightarrow> publisher_step f f' \<or> worker_step f f'"

text \<open>\<open>publish\<close> run to its end without the worker in between, and \<open>SocketSend::send\<close>: a message without
  frames and a message without subscribers are dropped.\<close>

definition publish :: "zmq_message \<Rightarrow> fanout \<Rightarrow> unit zmq_result \<times> fanout" where
  "publish message f =
     (if length (fan_queue f) \<ge> fan_capacity f then (Ok (), f)
      else let f1 = f \<lparr> fan_queue := fan_queue f @ [message], published := published f @ [message] \<rparr>
           in if \<not> wake_pending f1
              then (Ok (), f1 \<lparr> wake_pending := True, wakes := wakes f1 + 1 \<rparr>)
              else (Ok (), f1))"

definition pub_send :: "zmq_message \<Rightarrow> pub_backend \<Rightarrow> fanout \<Rightarrow> unit zmq_result \<times> fanout" where
  "pub_send message b f =
     (if msg_get message 0 = None then (Ok (), f)
      else if subscriber_count b = 0 then (Ok (), f)
      else publish message f)"

section \<open>Lemmas on subscriptions\<close>

lemma filter_matches_prefix: "filter_matches s f \<longleftrightarrow> prefix s f"
  by (auto simp: filter_matches_def prefix_def) (metis append_take_drop_id)

lemma subscription_matches_iff: "subscription_matches subs f \<longleftrightarrow> (\<exists>s \<in> set subs. prefix s f)"
proof -
  have "(case s of [] \<Rightarrow> filter_matches s f
      | c # _ \<Rightarrow> if Some c \<noteq> (case f of [] \<Rightarrow> None | b # _ \<Rightarrow> Some b) then False else filter_matches s f)
      \<longleftrightarrow> prefix s f" for s
    by (cases s; cases f) (auto simp: filter_matches_prefix)
  then show ?thesis
    unfolding subscription_matches_def Let_def by (simp add: list_ex_iff filter_matches_prefix)
qed

abbreviation sub_message :: "byte \<Rightarrow> bytes \<Rightarrow> message" where
  "sub_message b topic \<equiv> Message_Message \<lparr> frames = [b # topic] \<rparr>"

lemma update_subscriptions_simps [simp]:
  "update_subscriptions (sub_message 1 topic) subs = subs @ [topic]"
  "update_subscriptions (sub_message 0 topic) subs = remove1 topic subs"
  by (simp_all add: update_subscriptions_def msg_len_def into_vec_def into_vecdeque_def)

lemma pub_message_received_dom [simp]:
  "dom (subscribers (pub_message_received p m b)) = dom (subscribers b)"
  "subscriber_count (pub_message_received p m b) = subscriber_count b"
  by (auto simp: pub_message_received_def split: option.splits)

section \<open>The backend's invariant\<close>

definition pub_wf :: "pub_backend \<Rightarrow> bool" where
  "pub_wf b \<longleftrightarrow> finite (dom (subscribers b)) \<and> subscriber_count b = card (dom (subscribers b))"

lemma pub_connected_wf: "pub_wf b \<Longrightarrow> pub_wf (fst (pub_peer_connected env p io (b, w)))"
  by (auto simp: pub_wf_def pub_peer_connected_def Let_def card_insert_if domIff split: prod.splits)

lemma pub_disconnected_wf: "pub_wf b \<Longrightarrow> pub_wf (fst (pub_peer_disconnected env p (b, w)))"
  by (auto simp: pub_wf_def pub_peer_disconnected_def Let_def card_Diff_singleton_if)

interpretation pub: reliable_backend "pub_peer_connected env" "pub_peer_disconnected env"
  pub_shutdown "\<lambda>bw. dom (subscribers (fst bw))" "\<lambda>bw. pub_wf (fst bw)"
  for env :: "'w env"
proof
  fix st :: "pub_backend \<times> 'w" and p and io :: "'s framed_io"
  obtain b w where st: "st = (b, w)" by fastforce
  assume "pub_wf (fst st)"
  then show "pub_wf (fst (pub_peer_connected env p io st))" "pub_wf (fst (pub_peer_disconnected env p st))"
    "pub_wf (fst (pub_shutdown st))"
    using pub_connected_wf [of b env p io w] pub_disconnected_wf [of b env p w]
    by (simp_all add: st pub_shutdown_def pub_wf_def)
  show "dom (subscribers (fst (pub_peer_connected env p io st))) = insert p (dom (subscribers (fst st)))"
    by (auto simp: st pub_peer_connected_def Let_def split: prod.splits)
  then show "dom (subscribers (fst (pub_peer_connected env p io st))) \<subseteq> insert p (dom (subscribers (fst st)))"
    "dom (subscribers (fst st)) \<subseteq> dom (subscribers (fst (pub_peer_connected env p io st)))"
    by auto
  show "dom (subscribers (fst (pub_peer_disconnected env p st))) = dom (subscribers (fst st)) - {p}"
    by (auto simp: st pub_peer_disconnected_def Let_def)
  show "dom (subscribers (fst (pub_shutdown st))) = {}"
    by (simp add: st pub_shutdown_def)
qed

lemma pub_reader_wf: "pub_wf (fst bw) \<Longrightarrow> pub_wf (fst (pub_reader env p es bw))"
proof (induction env p es bw rule: pub_reader.induct)
  case (3 env pid m es bw)
  then show ?case by (simp add: pub_wf_def)
qed (auto intro: pub.disconnected_invar)

section \<open>Fan-out\<close>

lemma send_to_subscriber_accepted:
  assumes "env_ok env accepted written"
  shows "accepted (send_to_subscriber env q m w) \<in>
    {accepted w, (accepted w)(q := accepted w q @ [Message_Message m])}"
proof -
  obtain r w' where t: "try_send env q (Message_Message m) w = (r, w')" by fastforce
  with env_try_send [OF assms t] show ?thesis
    by (cases r) (auto simp: send_to_subscriber_def)
qed

text \<open>The subscribers that get a copy of a message.\<close>

definition matching :: "pub_backend \<Rightarrow> bytes \<Rightarrow> peer_identity \<Rightarrow> nat option" where
  "matching b first_frame k = (case subscribers b k of
     Some s \<Rightarrow> if subscription_matches (subscriptions s) first_frame then Some (sub_queue s) else None
   | None \<Rightarrow> None)"

definition own_queues :: "pub_backend \<Rightarrow> bool" where
  "own_queues b \<longleftrightarrow> (\<forall>k l s t. subscribers b k = Some s \<and> subscribers b l = Some t
     \<and> sub_queue s = sub_queue t \<longrightarrow> k = l)"

definition send_matching :: "'w env \<Rightarrow> pub_backend \<Rightarrow> bytes \<Rightarrow> zmq_message \<Rightarrow> peer_identity \<Rightarrow> 'w \<Rightarrow> 'w" where
  "send_matching env b frame m k w =
     (case matching b frame k of None \<Rightarrow> w | Some q \<Rightarrow> send_to_subscriber env q m w)"

lemma pub_fanout_eq:
  assumes "msg_get m 0 = Some frame"
  shows "pub_fanout_message env m b w
    = fold (send_matching env b frame m) (keys_of env w (dom (subscribers b))) w"
proof -
  have "(\<lambda>k w. case subscribers b k of None \<Rightarrow> w | Some s \<Rightarrow>
      if subscription_matches (subscriptions s) frame then send_to_subscriber env (sub_queue s) m w else w)
    = send_matching env b frame m"
    by (auto simp: matching_def send_matching_def fun_eq_iff split: option.splits)
  with assms show ?thesis by (simp add: pub_fanout_message_def)
qed

lemma fanout_fold:
  assumes "env_ok env accepted written" and "own_queues b" and "distinct ks"
  shows "(\<forall>h. h \<notin> {q. \<exists>k \<in> set ks. matching b frame k = Some q}
        \<longrightarrow> accepted (fold (send_matching env b frame m) ks w) h = accepted w h)
    \<and> (\<forall>k \<in> set ks. \<forall>q. matching b frame k = Some q
        \<longrightarrow> accepted (fold (send_matching env b frame m) ks w) q \<in> {accepted w q, accepted w q @ [Message_Message m]}
          \<and> ((\<forall>h m w. fst (try_send env h m w) = TrySent)
              \<longrightarrow> accepted (fold (send_matching env b frame m) ks w) q = accepted w q @ [Message_Message m]))"
  using assms(3)
proof (induction ks arbitrary: w)
  case (Cons k ks)
  show ?case
  proof (cases "matching b frame k")
    case None
    with Cons show ?thesis by (auto simp: send_matching_def)
  next
    case (Some q)
    let ?w1 = "send_to_subscriber env q m w"
    obtain r w' where t: "try_send env q (Message_Message m) w = (r, w')" by fastforce
    have acc: "accepted ?w1 \<in> {accepted w, (accepted w)(q := accepted w q @ [Message_Message m])}"
      using send_to_subscriber_accepted [OF assms(1)] .
    have sent: "fst (try_send env q (Message_Message m) w) = TrySent
        \<longrightarrow> accepted ?w1 = (accepted w)(q := accepted w q @ [Message_Message m])"
      using env_try_send(1) [OF assms(1) t] t by (auto simp: send_to_subscriber_def)
    have other: "q' \<noteq> q" if "l \<in> set ks" "matching b frame l = Some q'" for l q'
      using that Some assms(2) Cons.prems
      by (auto simp: matching_def own_queues_def split: option.splits if_splits)
    have run: "fold (send_matching env b frame m) (k # ks) w = fold (send_matching env b frame m) ks ?w1" using Some by (simp add: send_matching_def)
    from Cons have "distinct ks" by simp
    note IH = Cons.IH [OF this, of ?w1]
    have "q \<notin> {q'. \<exists>l \<in> set ks. matching b frame l = Some q'}" using other by auto
    with IH have qk: "accepted (fold (send_matching env b frame m) ks ?w1) q = accepted ?w1 q" by blast
    show ?thesis unfolding run
      using IH qk acc sent other Some by (auto split: if_splits)
  qed
qed simp

section \<open>The fan-out queue loses nothing\<close>

inductive_cases publisher_stepE: "publisher_step f f'"
inductive_cases worker_stepE: "worker_step f f'"

inductive reachable :: "nat \<Rightarrow> fanout \<Rightarrow> bool" for capacity where
  start: "reachable capacity (fanout_new capacity)"
| step: "reachable capacity f \<Longrightarrow> fan_step f f' \<Longrightarrow> reachable capacity f'"

text \<open>A raised flag is backed by a wake-up that the sleeping worker has not taken yet, and a message that the
  sleeping worker has not seen is backed by a wake-up or by the publisher, who is about to check the flag.\<close>

definition fan_inv :: "fanout \<Rightarrow> bool" where
  "fan_inv f \<longleftrightarrow>
     (wake_pending f \<and> worker f \<in> {WaitWake, CheckEmpty, StoreTrue} \<longrightarrow> wakes f > 0 \<or> publisher f = PubSend)
     \<and> (fan_queue f \<noteq> [] \<and> worker f = WaitWake \<longrightarrow> wakes f > 0 \<or> publisher f \<noteq> PubIdle)
     \<and> published f = fanned_out f @ fan_queue f
     \<and> length (fan_queue f) \<le> fan_capacity f"

lemma publisher_step_inv: "publisher_step f f' \<Longrightarrow> fan_inv f \<Longrightarrow> fan_inv f'"
  by (erule publisher_stepE) (auto simp: fan_inv_def)

lemma worker_step_inv: "worker_step f f' \<Longrightarrow> fan_inv f \<Longrightarrow> fan_inv f'"
  by (erule worker_stepE) (auto simp: fan_inv_def)

lemma reachable_inv: "reachable capacity f \<Longrightarrow> fan_inv f"
proof (induction rule: reachable.induct)
  case start
  then show ?case by (simp add: fan_inv_def fanout_new_def)
next
  case (step f f')
  then show ?case by (auto simp: fan_step_def intro: publisher_step_inv worker_step_inv)
qed

text \<open>From any of its states the worker, left alone, empties the queue and goes to sleep.\<close>

lemma drain_all:
  "worker f = Drain \<Longrightarrow>
    worker_step\<^sup>*\<^sup>* f (f \<lparr> fan_queue := [], fanned_out := fanned_out f @ fan_queue f \<rparr>)"
proof (induction "fan_queue f" arbitrary: f)
  case Nil
  have "f \<lparr> fan_queue := [], fanned_out := fanned_out f @ [] \<rparr> = f" using Nil(1) by (cases f) simp
  then show ?case unfolding Nil(1) [symmetric] by (metis rtranclp.rtrancl_refl)
next
  case (Cons m ms)
  let ?f = "f \<lparr> fan_queue := ms, fanned_out := fanned_out f @ [m] \<rparr>"
  have "worker_step f ?f" by (rule worker_step.pop [OF Cons.prems Cons(2) [symmetric]])
  moreover have "worker_step\<^sup>*\<^sup>* ?f (?f \<lparr> fan_queue := [], fanned_out := fanned_out ?f @ fan_queue ?f \<rparr>)"
    by (rule Cons(1)) (simp_all add: Cons.prems)
  ultimately show ?case by (simp add: Cons(2) [symmetric] converse_rtranclp_into_rtranclp)
qed

lemma drain_to_sleep:
  assumes "worker f = Drain"
  shows "\<exists>f'. worker_step\<^sup>*\<^sup>* f f' \<and> worker f' = WaitWake \<and> fan_queue f' = []
    \<and> fanned_out f' = fanned_out f @ fan_queue f"
proof -
  let ?f1 = "f \<lparr> fan_queue := [], fanned_out := fanned_out f @ fan_queue f \<rparr>"
  let ?f2 = "?f1 \<lparr> worker := StoreFalse \<rparr>"
  let ?f3 = "?f2 \<lparr> wake_pending := False, worker := CheckEmpty \<rparr>"
  have "worker_step\<^sup>*\<^sup>* f ?f1" by (rule drain_all [OF assms])
  moreover have "worker_step ?f1 ?f2" by (rule worker_step.drained) (simp_all add: assms)
  moreover have "worker_step ?f2 ?f3" by (rule worker_step.clear) simp
  moreover have "worker_step ?f3 (?f3 \<lparr> worker := WaitWake \<rparr>)" by (rule worker_step.sleep) simp_all
  ultimately have "worker_step\<^sup>*\<^sup>* f (?f3 \<lparr> worker := WaitWake \<rparr>)" by (meson rtranclp.rtrancl_into_rtrancl)
  then show ?thesis by (intro exI [of _ "?f3 \<lparr> worker := WaitWake \<rparr>"]) simp
qed

lemma drain_after:
  assumes "worker_step\<^sup>*\<^sup>* f g" and "worker g = Drain" and "fan_queue g = fan_queue f"
    and "fanned_out g = fanned_out f"
  shows "\<exists>f'. worker_step\<^sup>*\<^sup>* f f' \<and> worker f' = WaitWake \<and> fan_queue f' = []
    \<and> fanned_out f' = fanned_out f @ fan_queue f"
  using drain_to_sleep [OF assms(2)] assms by (metis rtranclp_trans)

lemma worker_finishes:
  assumes "fan_inv f" and "publisher f = PubIdle"
  shows "\<exists>f'. worker_step\<^sup>*\<^sup>* f f' \<and> worker f' = WaitWake \<and> fan_queue f' = []
    \<and> fanned_out f' = fanned_out f @ fan_queue f"
proof -
  have store_true: ?thesis if "worker g = StoreTrue" "worker_step\<^sup>*\<^sup>* f g" "fan_queue g = fan_queue f"
      "fanned_out g = fanned_out f" for g
  proof (rule drain_after)
    show "worker_step\<^sup>*\<^sup>* f (g \<lparr> wake_pending := True, worker := Drain \<rparr>)"
      using worker_step.keep [OF that(1)] that(2) by (rule rtranclp.rtrancl_into_rtrancl [rotated])
  qed (simp_all add: that)
  have check: ?thesis if "worker g = CheckEmpty" "worker_step\<^sup>*\<^sup>* f g" "fan_queue g = fan_queue f"
      "fanned_out g = fanned_out f" for g
  proof (cases "fan_queue g = []")
    case True
    from worker_step.sleep [OF that(1) True] that True show ?thesis
      by (intro exI [of _ "g \<lparr> worker := WaitWake \<rparr>"]) (auto intro: rtranclp.rtrancl_into_rtrancl)
  next
    case False
    from worker_step.again [OF that(1) False] that show ?thesis
      by (intro store_true [of "g \<lparr> worker := StoreTrue \<rparr>"]) (auto intro: rtranclp.rtrancl_into_rtrancl)
  qed
  show ?thesis
  proof (cases "worker f")
    case WaitWake
    show ?thesis
    proof (cases "wakes f > 0")
      case True
      from worker_step.receive [OF WaitWake True] show ?thesis
        by (intro drain_after [of f "f \<lparr> wakes := wakes f - 1, worker := Drain \<rparr>"]) auto
    next
      case False
      with assms WaitWake have "fan_queue f = []" by (auto simp: fan_inv_def)
      with WaitWake show ?thesis by (intro exI [of _ f]) simp
    qed
  next
    case Drain
    then show ?thesis by (rule drain_to_sleep)
  next
    case StoreFalse
    from worker_step.clear [OF StoreFalse] show ?thesis
      by (intro check [of "f \<lparr> wake_pending := False, worker := CheckEmpty \<rparr>"]) auto
  next
    case CheckEmpty
    then show ?thesis by (intro check [of f]) auto
  next
    case StoreTrue
    then show ?thesis by (intro store_true [of f]) auto
  qed
qed

text \<open>\<open>publish\<close> is a run of the publisher.\<close>

lemma publish_steps:
  assumes "publisher f = PubIdle"
  shows "publisher_step\<^sup>*\<^sup>* f (snd (publish m f))"
proof (cases "length (fan_queue f) < fan_capacity f")
  case True
  let ?f1 = "f \<lparr> fan_queue := fan_queue f @ [m], published := published f @ [m], publisher := PubLoad \<rparr>"
  have 1: "publisher_step f ?f1" by (rule publisher_step.push [OF assms True])
  show ?thesis
  proof (cases "wake_pending f")
    case True
    have "publisher_step ?f1 (?f1 \<lparr> publisher := PubIdle \<rparr>)"
      by (rule publisher_step.load_true) (simp_all add: True)
    then have "publisher_step\<^sup>*\<^sup>* f (?f1 \<lparr> publisher := PubIdle \<rparr>)"
      by (rule rtranclp.rtrancl_into_rtrancl [OF r_into_rtranclp [of publisher_step, OF 1]])
    moreover have "?f1 \<lparr> publisher := PubIdle \<rparr> = snd (publish m f)"
      using True \<open>length (fan_queue f) < fan_capacity f\<close> assms by (cases f) (simp add: publish_def Let_def)
    ultimately show ?thesis by simp
  next
    case False
    let ?f2 = "?f1 \<lparr> publisher := PubSwap \<rparr>"
    let ?f3 = "?f2 \<lparr> wake_pending := True, publisher := PubSend \<rparr>"
    let ?f4 = "?f3 \<lparr> wakes := wakes ?f3 + 1, publisher := PubIdle \<rparr>"
    have 2: "publisher_step ?f1 ?f2" by (rule publisher_step.load_false) (simp_all add: False)
    have 3: "publisher_step ?f2 ?f3" by (rule publisher_step.swap_false) (simp_all add: False)
    have 4: "publisher_step ?f3 ?f4" by (rule publisher_step.send_wake) simp
    note run = converse_rtranclp_into_rtranclp [of publisher_step]
    have "publisher_step\<^sup>*\<^sup>* f ?f4" by (rule run [OF 1 run [OF 2 run [OF 3 r_into_rtranclp [of publisher_step, OF 4]]]])
    moreover have "?f4 = snd (publish m f)"
      using False \<open>length (fan_queue f) < fan_capacity f\<close> assms by (cases f) (simp add: publish_def Let_def)
    ultimately show ?thesis by simp
  qed
qed (simp add: publish_def)

section \<open>Properties\<close>

text \<open>The matching of subscriptions, with its shortcut for a single subscription and its first-byte test for
  several, is prefix matching: a message matches when some subscription is a prefix of its first frame.\<close>

theorem subscription_matches_is_prefix:
  "subscription_matches subs first_frame = list_ex (\<lambda>s. prefix s first_frame) subs"
  by (simp add: subscription_matches_iff list_ex_iff)

text \<open>Publishing a message touches the queues of no other than the subscribers with a subscription that is
  a prefix of its first frame; each of those gets at most one copy, and exactly one when its queue has
  room. No subscriber's queue can prevent the delivery to another.\<close>

theorem pub_fanout_selective:
  assumes "env_ok env accepted written" and "pub_wf b" and "own_queues b"
    and "msg_get m 0 = Some first_frame"
  shows "(\<forall>h. (\<nexists>k s. subscribers b k = Some s \<and> sub_queue s = h
          \<and> (\<exists>t \<in> set (subscriptions s). prefix t first_frame))
        \<longrightarrow> accepted (pub_fanout_message env m b w) h = accepted w h)
    \<and> (\<forall>k s. subscribers b k = Some s \<and> (\<exists>t \<in> set (subscriptions s). prefix t first_frame)
        \<longrightarrow> accepted (pub_fanout_message env m b w) (sub_queue s)
            \<in> {accepted w (sub_queue s), accepted w (sub_queue s) @ [Message_Message m]}
          \<and> ((\<forall>h m w. fst (try_send env h m w) = TrySent)
            \<longrightarrow> accepted (pub_fanout_message env m b w) (sub_queue s)
              = accepted w (sub_queue s) @ [Message_Message m]))"
proof -
  let ?ks = "keys_of env w (dom (subscribers b))"
  have fin: "finite (dom (subscribers b))" using assms(2) by (simp add: pub_wf_def)
  note ks = env_keys [OF assms(1) fin, of w]
  have match: "matching b first_frame k = Some q \<longleftrightarrow>
      (\<exists>s. subscribers b k = Some s \<and> sub_queue s = q \<and> (\<exists>t \<in> set (subscriptions s). prefix t first_frame))"
    for k q by (auto simp: matching_def subscription_matches_iff split: option.splits)
  have dom: "k \<in> set ?ks" if "subscribers b k = Some s" for k s using that ks(2) by auto
  note fold = fanout_fold [OF assms(1,3) ks(1), of first_frame m w]
  have "\<forall>k s. subscribers b k = Some s \<and> (\<exists>t \<in> set (subscriptions s). prefix t first_frame)
      \<longrightarrow> k \<in> set ?ks \<and> matching b first_frame k = Some (sub_queue s)"
    using match dom by blast
  moreover have "\<forall>h. (\<nexists>k s. subscribers b k = Some s \<and> sub_queue s = h
      \<and> (\<exists>t \<in> set (subscriptions s). prefix t first_frame))
      \<longrightarrow> h \<notin> {q. \<exists>k \<in> set ?ks. matching b first_frame k = Some q}"
    using match by blast
  ultimately show ?thesis
    unfolding pub_fanout_eq [OF assms(4)] using fold by blast
qed

theorem pub_fanout_selective_witness:
  "let b = pub_new options_default \<lparr>
             subscribers := [[1] \<mapsto> \<lparr> subscriptions = [[7]], sub_queue = 0 \<rparr>,
                             [2] \<mapsto> \<lparr> subscriptions = [[8]], sub_queue = 1 \<rparr>], subscriber_count := 2 \<rparr>;
       m = \<lparr> frames = [[7, 7]] \<rparr>; w' = pub_fanout_message (sample_env [] []) m b (\<lambda>_. [], \<lambda>_. [], 2)
   in fst w' 0 = [Message_Message m] \<and> fst w' 1 = []"
proof -
  define b where "b = pub_new options_default \<lparr>
    subscribers := [[1] \<mapsto> \<lparr> subscriptions = [[7]], sub_queue = 0 \<rparr>,
                    [2] \<mapsto> \<lparr> subscriptions = [[8]], sub_queue = 1 \<rparr>], subscriber_count := 2 \<rparr>"
  have wf: "pub_wf b" and own: "own_queues b"
    by (auto simp: b_def pub_wf_def own_queues_def split: if_splits)
  have get: "msg_get \<lparr> frames = [[7, 7]] \<rparr> 0 = Some [7, 7]" by (simp add: msg_get_def)
  note sel = pub_fanout_selective [OF sample_env_ok [of "[]" "[]"] wf own get, of "(\<lambda>_. [], \<lambda>_. [], 2)"]
  have "\<forall>h m w. fst (try_send (sample_env [] []) h m w) = TrySent" by (simp add: sample_env_def split: prod.splits)
  with sel [THEN conjunct2, rule_format, of "[1]" "\<lparr> subscriptions = [[7]], sub_queue = 0 \<rparr>"]
  have "fst (pub_fanout_message (sample_env [] []) \<lparr> frames = [[7, 7]] \<rparr> b (\<lambda>_. [], \<lambda>_. [], 2)) 0
      = [Message_Message \<lparr> frames = [[7, 7]] \<rparr>]" by (simp add: b_def)
  moreover have "fst (pub_fanout_message (sample_env [] []) \<lparr> frames = [[7, 7]] \<rparr> b (\<lambda>_. [], \<lambda>_. [], 2)) 1 = []"
    using sel [THEN conjunct1, rule_format, of 1] by (auto simp: b_def split: if_splits)
  ultimately show ?thesis by (simp add: Let_def b_def)
qed

text \<open>A publisher counts subscriptions: after a subscriber has subscribed to a topic and unsubscribed from
  it again its subscriptions are, as a multiset, those it had before; other subscribers are not affected,
  and unsubscribing from a topic that was never subscribed changes nothing.\<close>

theorem pub_subscriptions_balanced:
  assumes "subscribers b p = Some s"
  shows "\<exists>s'. subscribers (pub_message_received p (sub_message 0 topic)
        (pub_message_received p (sub_message 1 topic) b)) = (subscribers b)(p \<mapsto> s')
      \<and> mset (subscriptions s') = mset (subscriptions s) \<and> sub_queue s' = sub_queue s
      \<and> (topic \<notin> set (subscriptions s) \<longrightarrow> pub_message_received p (sub_message 0 topic) b = b)"
proof -
  have "b \<lparr> subscribers := (subscribers b)(p \<mapsto> s) \<rparr> = b" using assms by (simp add: fun_upd_idem)
  with assms show ?thesis by (auto simp: pub_message_received_def remove1_idem intro!: exI)
qed

theorem pub_subscriptions_balanced_witness:
  "let b = pub_new options_default \<lparr> subscribers := [[1] \<mapsto> \<lparr> subscriptions = [[7]], sub_queue = 0 \<rparr>] \<rparr>
   in pub_message_received [1] (sub_message 0 [9]) b = b"
  using pub_subscriptions_balanced [of "pub_new options_default \<lparr> subscribers :=
      [[1] \<mapsto> \<lparr> subscriptions = [[7]], sub_queue = 0 \<rparr>] \<rparr>" "[1]" "\<lparr> subscriptions = [[7]], sub_queue = 0 \<rparr>" "[9]"]
  unfolding Let_def by auto




end
