(* ===== verification/Sub_Backend.thy ===== *)
theory Sub_Backend
  imports Multi_Peer Queue_Backend
begin

text \<open>
  \<open>src/sub_backend.rs\<close>, \<open>src/sub.rs\<close> and \<open>src/xsub.rs\<close>: the backend that SUB and XSUB share and the two
  sockets. The backend keeps the sinks of the connected publishers, the set of subscriptions, which it sends to
  every new publisher, and the notifiers of the reconnection tasks. \<open>connect_with_reconnect\<close> is in
  \<open>Reconnect\<close>.

  \<open>peer_connected\<close> takes its list of subscriptions, sends them, and registers the peer; other tasks may run in
  between. \<open>sub_peer_connected\<close> is the whole without interruption, \<open>sub_connect_with\<close> the part after the list has
  been taken.
\<close>

section \<open>Definitions\<close>

datatype subscription_message_type = Unsubscribe | Subscribe

record 's sub_backend =
  sb_peers :: "peer_identity \<rightharpoonup> nat"
  sb_fair_queue :: "('s, peer_identity) queue_inner option"
  sb_socket_type :: socket_type
  sb_options :: socket_options
  sb_monitor :: "nat option"
  subs :: "bytes set"
  sb_notifiers :: "peer_identity \<rightharpoonup> nat"

definition sub_backend_with_options ::
    "('s, peer_identity) queue_inner option \<Rightarrow> socket_type \<Rightarrow> socket_options \<Rightarrow> 's sub_backend" where
  "sub_backend_with_options fq socket_type options =
     \<lparr> sb_peers = Map.empty, sb_fair_queue = fq, sb_socket_type = socket_type, sb_options = options,
       sb_monitor = None, subs = {}, sb_notifiers = Map.empty \<rparr>"

definition create_subs_message :: "bytes \<Rightarrow> subscription_message_type \<Rightarrow> zmq_message" where
  "create_subs_message subscription msg_type =
     message_from ((case msg_type of Unsubscribe \<Rightarrow> 0 | Subscribe \<Rightarrow> 1) # subscription)"

definition remember_subscription :: "bytes \<Rightarrow> 's sub_backend \<Rightarrow> 's sub_backend" where
  "remember_subscription subscription b = b \<lparr> subs := insert subscription (subs b) \<rparr>"

definition forget_subscription :: "bytes \<Rightarrow> 's sub_backend \<Rightarrow> 's sub_backend" where
  "forget_subscription subscription b = b \<lparr> subs := subs b - {subscription} \<rparr>"

definition apply_subscription_message :: "zmq_message \<Rightarrow> 's sub_backend \<Rightarrow> bool \<times> 's sub_backend" where
  "apply_subscription_message message b =
     (case msg_get message 0 of
        None \<Rightarrow> (False, b)
      | Some frame \<Rightarrow>
          if msg_len message \<noteq> 1 \<or> frame = [] then (False, b)
          else if hd frame = 1 then (True, remember_subscription (tl frame) b)
          else if hd frame = 0 then (True, forget_subscription (tl frame) b)
          else (False, b))"

definition sub_register_disconnect_notifier :: "peer_identity \<Rightarrow> nat \<Rightarrow> 's sub_backend \<Rightarrow> 's sub_backend" where
  "sub_register_disconnect_notifier pid notifier b =
     b \<lparr> sb_notifiers := (sb_notifiers b)(pid \<mapsto> notifier) \<rparr>"

definition sub_peer_disconnected ::
    "'w env \<Rightarrow> peer_identity \<Rightarrow> 's sub_backend \<times> 'w \<Rightarrow> 's sub_backend \<times> 'w" where
  "sub_peer_disconnected env pid bw = (case bw of (b, w) \<Rightarrow>
     let w1 = monitor_event env (sb_monitor b) (Disconnected pid) w;
         b1 = b \<lparr> sb_peers := (sb_peers b)(pid := None),
                  sb_fair_queue := map_option (queue_remove pid) (sb_fair_queue b) \<rparr>
     in case sb_notifiers b1 pid of
          None \<Rightarrow> (b1, w1)
        | Some notifier \<Rightarrow>
            (b1 \<lparr> sb_notifiers := (sb_notifiers b1)(pid := None) \<rparr>, notify env notifier pid w1))"

definition sub_shutdown :: "'s sub_backend \<times> 'w \<Rightarrow> 's sub_backend \<times> 'w" where
  "sub_shutdown bw = (case bw of (b, w) \<Rightarrow>
     (b \<lparr> sb_peers := Map.empty, sb_fair_queue := map_option queue_clear (sb_fair_queue b) \<rparr>, w))"

text \<open>The peers and their sinks in the order of the map's iteration.\<close>

definition targets_of :: "'w env \<Rightarrow> 'w \<Rightarrow> (peer_identity \<rightharpoonup> nat) \<Rightarrow> (peer_identity \<times> nat) list" where
  "targets_of env w m = map (\<lambda>k. (k, the (m k))) (keys_of env w (dom m))"

text \<open>The sending loop that \<open>fanout_message\<close> and the XPUB socket's \<open>send\<close> have in common: a broken pipe is
  remembered, another I/O error is only logged, any other error ends the loop at once. The result is the list
  of dead peers or the error.\<close>

fun send_targets ::
    "'w env \<Rightarrow> message \<Rightarrow> (peer_identity \<times> nat) list \<Rightarrow> peer_identity list \<Rightarrow> 'w
      \<Rightarrow> (zmq_error + peer_identity list) \<times> 'w" where
  "send_targets env message [] dead_peers w = (Ok dead_peers, w)"
| "send_targets env message ((pid, send_queue) # targets) dead_peers w =
     (case sink_send env send_queue message w of
        (Inr _, w') \<Rightarrow> send_targets env message targets dead_peers w'
      | (Inl (CodecIo e), w') \<Rightarrow>
          if e = BrokenPipe then send_targets env message targets (dead_peers @ [pid]) w'
          else send_targets env message targets dead_peers w'
      | (Inl e, w') \<Rightarrow> (Err (ErrCodec e), w'))"

definition sub_fanout_message ::
    "'w env \<Rightarrow> zmq_message \<Rightarrow> 's sub_backend \<times> 'w \<Rightarrow> unit zmq_result \<times> 's sub_backend \<times> 'w" where
  "sub_fanout_message env message bw = (case bw of (b, w) \<Rightarrow>
     if msg_is_empty message then (Ok (), b, w)
     else case send_targets env (Message_Message message) (targets_of env w (sb_peers b)) [] w of
       (Inl e, w') \<Rightarrow> (Err e, b, w')
     | (Inr dead_peers, w') \<Rightarrow> (Ok (), fold (sub_peer_disconnected env) dead_peers (b, w')))"

definition subscription_messages :: "'w env \<Rightarrow> 'w \<Rightarrow> 's sub_backend \<Rightarrow> zmq_message list" where
  "subscription_messages env w b =
     map (\<lambda>subscription. create_subs_message subscription Subscribe) (keys_of env w (subs b))"

text \<open>The loop of \<open>broadcast_control_message\<close>: every peer is tried, the first error is kept.\<close>

fun send_control ::
    "'w env \<Rightarrow> message \<Rightarrow> (peer_identity \<times> nat) list \<Rightarrow> peer_identity list \<Rightarrow> zmq_error option \<Rightarrow> 'w
      \<Rightarrow> peer_identity list \<times> zmq_error option \<times> 'w" where
  "send_control env message [] dead_peers first_error w = (dead_peers, first_error, w)"
| "send_control env message ((pid, send_queue) # targets) dead_peers first_error w =
     (case sink_send env send_queue message w of
        (Inr _, w') \<Rightarrow> send_control env message targets dead_peers first_error w'
      | (Inl e, w') \<Rightarrow>
          send_control env message targets
            (if e = CodecIo BrokenPipe then dead_peers @ [pid] else dead_peers)
            (case first_error of None \<Rightarrow> Some (ErrCodec e) | Some _ \<Rightarrow> first_error) w')"

definition broadcast_control_message ::
    "'w env \<Rightarrow> zmq_message \<Rightarrow> 's sub_backend \<times> 'w \<Rightarrow> unit zmq_result \<times> 's sub_backend \<times> 'w" where
  "broadcast_control_message env message bw = (case bw of (b, w) \<Rightarrow>
     case send_control env (Message_Message message) (targets_of env w (sb_peers b)) [] None w of
       (dead_peers, first_error, w') \<Rightarrow>
         (case first_error of None \<Rightarrow> Ok () | Some e \<Rightarrow> Err e,
          fold (sub_peer_disconnected env) dead_peers (b, w')))"

definition broadcast_message_reliably ::
    "'w env \<Rightarrow> zmq_message \<Rightarrow> 's sub_backend \<times> 'w \<Rightarrow> unit zmq_result \<times> 's sub_backend \<times> 'w" where
  "broadcast_message_reliably env message bw = broadcast_control_message env message bw"

definition broadcast_subscription ::
    "'w env \<Rightarrow> bytes \<Rightarrow> subscription_message_type \<Rightarrow> 's sub_backend \<times> 'w
      \<Rightarrow> unit zmq_result \<times> 's sub_backend \<times> 'w" where
  "broadcast_subscription env subscription msg_type bw =
     broadcast_message_reliably env (create_subs_message subscription msg_type) bw"

text \<open>Sending the subscriptions to a new peer; the boolean is false when a send failed.\<close>

fun send_subscriptions :: "'w env \<Rightarrow> nat \<Rightarrow> zmq_message list \<Rightarrow> 'w \<Rightarrow> bool \<times> 'w" where
  "send_subscriptions env send_queue [] w = (True, w)"
| "send_subscriptions env send_queue (message # messages) w =
     (case sink_send env send_queue (Message_Message message) w of
        (Inr _, w') \<Rightarrow> send_subscriptions env send_queue messages w'
      | (Inl e, w') \<Rightarrow> (False, w'))"

definition sub_connect_with ::
    "'w env \<Rightarrow> zmq_message list \<Rightarrow> peer_identity \<Rightarrow> 's framed_io \<Rightarrow> 's sub_backend \<times> 'w \<Rightarrow> 's sub_backend \<times> 'w" where
  "sub_connect_with env messages pid io bw = (case bw of (b, w) \<Rightarrow>
     case send_subscriptions env (write_half io) messages w of
       (False, w') \<Rightarrow> (b, w')
     | (True, w') \<Rightarrow>
         (b \<lparr> sb_peers := (sb_peers b)(pid \<mapsto> write_half io),
              sb_fair_queue := map_option (queue_insert pid (read_half io)) (sb_fair_queue b) \<rparr>, w'))"

definition sub_peer_connected ::
    "'w env \<Rightarrow> peer_identity \<Rightarrow> 's framed_io \<Rightarrow> 's sub_backend \<times> 'w \<Rightarrow> 's sub_backend \<times> 'w" where
  "sub_peer_connected env pid io bw =
     sub_connect_with env (subscription_messages env (snd bw) (fst bw)) pid io bw"

section \<open>The SUB and XSUB sockets\<close>

definition sub_with_options :: "socket_options \<Rightarrow> 's sub_backend" where
  "sub_with_options options = sub_backend_with_options (Some queue_new) SUB options"

definition xsub_with_options :: "socket_options \<Rightarrow> 's sub_backend" where
  "xsub_with_options options = sub_backend_with_options (Some queue_new) XSUB options"

definition sub_subscribe ::
    "'w env \<Rightarrow> bytes \<Rightarrow> 's sub_backend \<times> 'w \<Rightarrow> unit zmq_result \<times> 's sub_backend \<times> 'w" where
  "sub_subscribe env subscription bw =
     broadcast_subscription env subscription Subscribe (remember_subscription subscription (fst bw), snd bw)"

definition sub_unsubscribe ::
    "'w env \<Rightarrow> bytes \<Rightarrow> 's sub_backend \<times> 'w \<Rightarrow> unit zmq_result \<times> 's sub_backend \<times> 'w" where
  "sub_unsubscribe env subscription bw =
     broadcast_subscription env subscription Unsubscribe (forget_subscription subscription (fst bw), snd bw)"

definition xsub_subscribe where "xsub_subscribe = sub_subscribe"
definition xsub_unsubscribe where "xsub_unsubscribe = sub_unsubscribe"

definition sub_poll_item :: "'w env \<Rightarrow> ('s, item) poll_stream \<Rightarrow> nat \<Rightarrow> ('s sub_backend \<times> 'w) poll_item" where
  "sub_poll_item env poll_stream cx =
     backend_poll_item sb_fair_queue (\<lambda>q b. b \<lparr> sb_fair_queue := Some q \<rparr>) (sub_peer_disconnected env) poll_stream cx"

definition sub_recv ::
    "nat \<Rightarrow> 'w env \<Rightarrow> ('s, item) poll_stream \<Rightarrow> nat \<Rightarrow> 's sub_backend \<times> 'w
      \<Rightarrow> (zmq_message zmq_result poll \<times> 's sub_backend \<times> 'w) option" where
  "sub_recv fuel env poll_stream cx bw =
     recv_loop fuel (sub_poll_item env poll_stream cx)
       (\<lambda>pid message bw. (Return (Ok message), bw))
       (\<lambda>pid e bw. (Return (Err (ErrCodec e)), sub_peer_disconnected env pid bw)) bw"

definition xsub_recv where "xsub_recv = sub_recv"

text \<open>XSUB's \<open>send\<close>: a subscription frame updates the set and goes to the publishers reliably, anything else is
  an application message.\<close>

definition xsub_send ::
    "'w env \<Rightarrow> zmq_message \<Rightarrow> 's sub_backend \<times> 'w \<Rightarrow> unit zmq_result \<times> 's sub_backend \<times> 'w" where
  "xsub_send env message bw =
     (case apply_subscription_message message (fst bw) of
        (True, b') \<Rightarrow> broadcast_message_reliably env message (b', snd bw)
      | (False, b') \<Rightarrow> sub_fanout_message env message (b', snd bw))"

section \<open>Contracts\<close>

lemma sub_disconnected_fields [simp]:
  "sb_peers (fst (sub_peer_disconnected env p (b, w))) = (sb_peers b)(p := None)"
  "sb_fair_queue (fst (sub_peer_disconnected env p (b, w))) = map_option (queue_remove p) (sb_fair_queue b)"
  "subs (fst (sub_peer_disconnected env p (b, w))) = subs b"
  "sb_notifiers (fst (sub_peer_disconnected env p (b, w))) = (sb_notifiers b)(p := None)"
  by (auto simp: sub_peer_disconnected_def Let_def split: option.splits)

lemma sub_disconnected_written:
  assumes "env_ok env accepted written"
  shows "written (snd (sub_peer_disconnected env p (b, w))) = written w"
  using env_monitor_event(2) [OF assms] env_notify(2) [OF assms]
  by (auto simp: sub_peer_disconnected_def Let_def split: option.splits)

text \<open>What connecting does to the backend: nothing when a subscription could not be sent.\<close>

lemma sub_connected_cases:
  "fst (sub_peer_connected env p io (b, w)) = b
   \<or> fst (sub_peer_connected env p io (b, w)) = b \<lparr> sb_peers := (sb_peers b)(p \<mapsto> write_half io),
        sb_fair_queue := map_option (queue_insert p (read_half io)) (sb_fair_queue b) \<rparr>"
  by (auto simp: sub_peer_connected_def sub_connect_with_def split: prod.splits bool.splits)

text \<open>When no sink fails, connecting registers the peer.\<close>

definition sinks_work :: "'w env \<Rightarrow> bool" where
  "sinks_work env \<longleftrightarrow> (\<forall>h m w. \<exists>u. fst (sink_send env h m w) = Ok u)"

lemma sinks_work_subscriptions:
  assumes "sinks_work env"
  shows "fst (send_subscriptions env q ms w)"
proof (induction ms arbitrary: w)
  case (Cons m ms)
  obtain r w' where r: "sink_send env q (Message_Message m) w = (r, w')" by fastforce
  obtain u where "fst (sink_send env q (Message_Message m) w) = Ok u" using assms unfolding sinks_work_def by blast
  with r Cons show ?case by simp
qed simp

lemma sub_connected_peers:
  assumes "sinks_work env"
  shows "dom (sb_peers (fst (sub_peer_connected env p io (b, w)))) = insert p (dom (sb_peers b))"
    and "sb_notifiers (fst (sub_peer_connected env p io (b, w))) = sb_notifiers b"
  using sinks_work_subscriptions [OF assms, of "write_half io" "subscription_messages env w b" w]
  by (auto simp: sub_peer_connected_def sub_connect_with_def split: prod.splits bool.splits)

definition sub_wf :: "'s sub_backend \<Rightarrow> bool" where
  "sub_wf b \<longleftrightarrow> (\<forall>q. sb_fair_queue b = Some q \<longrightarrow> dom (streams q) \<subseteq> dom (sb_peers b))"

interpretation sub: multi_peer_backend "sub_peer_connected env" "sub_peer_disconnected env" sub_shutdown
  "\<lambda>bw. dom (sb_peers (fst bw))" "\<lambda>bw. sub_wf (fst bw)" for env :: "'w env"
proof
  fix st :: "'s sub_backend \<times> 'w" and p and io :: "'s framed_io"
  obtain b w where st: "st = (b, w)" by fastforce
  note cases = sub_connected_cases [of env p io b w]
  show "dom (sb_peers (fst (sub_peer_connected env p io st))) \<subseteq> insert p (dom (sb_peers (fst st)))"
    "dom (sb_peers (fst st)) \<subseteq> dom (sb_peers (fst (sub_peer_connected env p io st)))"
    using cases by (auto simp: st)
  show "dom (sb_peers (fst (sub_peer_disconnected env p st))) = dom (sb_peers (fst st)) - {p}"
    "dom (sb_peers (fst (sub_shutdown st))) = {}"
    by (simp_all add: st sub_shutdown_def)
  assume wf: "sub_wf (fst st)"
  then show "sub_wf (fst (sub_peer_connected env p io st))"
    using cases by (force simp: st sub_wf_def subset_iff domIff split: if_splits)
  from wf show "sub_wf (fst (sub_peer_disconnected env p st))"
    by (force simp: st sub_wf_def subset_iff domIff split: if_splits)
  from wf show "sub_wf (fst (sub_shutdown st))" by (auto simp: st sub_wf_def sub_shutdown_def)
qed

interpretation sq: owning_backend sb_fair_queue "\<lambda>q b. b \<lparr> sb_fair_queue := Some q \<rparr>"
  "sub_peer_disconnected env" "\<lambda>b. dom (sb_peers b)" "\<lambda>b. True" for env :: "'w env"
  by unfold_locales simp_all

lemma sub_recv_wf:
  assumes "sub_recv n env poll_stream cx bw = Some (r, bw')" and "sub_wf (fst bw)"
    and "sb_fair_queue (fst bw) \<noteq> None"
  shows "sub_wf (fst bw')"
proof -
  have "owns_streams sb_fair_queue (\<lambda>b. dom (sb_peers b)) (\<lambda>b. True) (fst bw)"
    using assms(2) by (simp add: owns_streams_def sub_wf_def)
  note sq.recv_loop_wf [where env = env and poll_stream = poll_stream and cx = cx,
      OF assms(1) [unfolded sub_recv_def sub_poll_item_def] this assms(3)]
  then have "owns_streams sb_fair_queue (\<lambda>b. dom (sb_peers b)) (\<lambda>b. True) (fst bw')" by force
  then show ?thesis by (simp add: owns_streams_def sub_wf_def)
qed

end
