(* ===== verification/Xpub.thy ===== *)
theory Xpub
  imports Pub Sub_Backend
begin

text \<open>
  \<open>src/xpub.rs\<close>: the XPUB socket. Like PUB it keeps the subscriptions of its subscribers, but it writes to
  their sinks directly, and it hands the subscription messages to the application.
\<close>

section \<open>Definitions\<close>

record 's xpub_backend =
  xp_subscribers :: "peer_identity \<rightharpoonup> subscriber"
  xp_fair_queue :: "('s, peer_identity) queue_inner"
  xp_monitor :: "nat option"
  xp_options :: socket_options

definition xpub_with_options :: "socket_options \<Rightarrow> 's xpub_backend" where
  "xpub_with_options options =
     \<lparr> xp_subscribers = Map.empty, xp_fair_queue = queue_new, xp_monitor = None, xp_options = options \<rparr>"

text \<open>A single non-empty frame from a subscriber: 1 subscribes, 0 removes the first equal subscription.\<close>

definition xpub_message_received :: "peer_identity \<Rightarrow> message \<Rightarrow> 's xpub_backend \<Rightarrow> 's xpub_backend" where
  "xpub_message_received pid message b =
     (case message of
        Message_Message m \<Rightarrow>
          if msg_len m \<noteq> 1 then b
          else (case last (into_vec m) of
                  [] \<Rightarrow> b
                | x # topic \<Rightarrow>
                    (case xp_subscribers b pid of
                       None \<Rightarrow> b
                     | Some s \<Rightarrow>
                         if x = 1 then
                           b \<lparr> xp_subscribers := (xp_subscribers b)(pid \<mapsto>
                                 s \<lparr> subscriptions := subscriptions s @ [topic] \<rparr>) \<rparr>
                         else if x = 0 then
                           b \<lparr> xp_subscribers := (xp_subscribers b)(pid \<mapsto>
                                 s \<lparr> subscriptions := remove1 topic (subscriptions s) \<rparr>) \<rparr>
                         else b))
      | _ \<Rightarrow> b)"

definition xpub_shutdown :: "'s xpub_backend \<times> 'w \<Rightarrow> 's xpub_backend \<times> 'w" where
  "xpub_shutdown bw = (case bw of (b, w) \<Rightarrow> (b \<lparr> xp_subscribers := Map.empty \<rparr>, w))"

definition xpub_peer_connected :: "peer_identity \<Rightarrow> 's framed_io \<Rightarrow> 's xpub_backend \<times> 'w \<Rightarrow> 's xpub_backend \<times> 'w" where
  "xpub_peer_connected pid io bw = (case bw of (b, w) \<Rightarrow>
     (b \<lparr> xp_subscribers := (xp_subscribers b)(pid \<mapsto> \<lparr> subscriptions = [], sub_queue = write_half io \<rparr>),
          xp_fair_queue := queue_insert pid (read_half io) (xp_fair_queue b) \<rparr>, w))"

text \<open>No monitor event here.\<close>

definition xpub_peer_disconnected :: "peer_identity \<Rightarrow> 's xpub_backend \<times> 'w \<Rightarrow> 's xpub_backend \<times> 'w" where
  "xpub_peer_disconnected pid bw = (case bw of (b, w) \<Rightarrow>
     (b \<lparr> xp_subscribers := (xp_subscribers b)(pid := None),
          xp_fair_queue := queue_remove pid (xp_fair_queue b) \<rparr>, w))"

text \<open>The targets are collected first, in the order of the map's iteration; an early error leaves dead peers
  connected.\<close>

definition xpub_targets :: "'w env \<Rightarrow> 'w \<Rightarrow> bytes \<Rightarrow> 's xpub_backend \<Rightarrow> (peer_identity \<times> nat) list" where
  "xpub_targets env w first_frame b =
     List.map_filter (\<lambda>k. case xp_subscribers b k of
         None \<Rightarrow> None
       | Some s \<Rightarrow>
           if list_ex (\<lambda>sub_filter. length sub_filter \<le> length first_frame
                \<and> sub_filter = take (length sub_filter) first_frame) (subscriptions s)
           then Some (k, sub_queue s) else None)
       (keys_of env w (dom (xp_subscribers b)))"

definition xpub_send ::
    "'w env \<Rightarrow> zmq_message \<Rightarrow> 's xpub_backend \<times> 'w \<Rightarrow> unit zmq_result \<times> 's xpub_backend \<times> 'w" where
  "xpub_send env message bw = (case bw of (b, w) \<Rightarrow>
     case msg_get message 0 of
       None \<Rightarrow> (Ok (), b, w)
     | Some first_frame \<Rightarrow>
         (case send_targets env (Message_Message message) (xpub_targets env w first_frame b) [] w of
            (Inl e, w') \<Rightarrow> (Err e, b, w')
          | (Inr dead_peers, w') \<Rightarrow> (Ok (), fold xpub_peer_disconnected dead_peers (b, w'))))"

definition xpub_poll_item :: "('s, item) poll_stream \<Rightarrow> nat \<Rightarrow> ('s xpub_backend \<times> 'w) poll_item" where
  "xpub_poll_item poll_stream cx =
     backend_poll_item (\<lambda>b. Some (xp_fair_queue b)) (\<lambda>q b. b \<lparr> xp_fair_queue := q \<rparr>) xpub_peer_disconnected poll_stream cx"

definition xpub_recv ::
    "nat \<Rightarrow> ('s, item) poll_stream \<Rightarrow> nat \<Rightarrow> 's xpub_backend \<times> 'w
      \<Rightarrow> (zmq_message zmq_result poll \<times> 's xpub_backend \<times> 'w) option" where
  "xpub_recv fuel poll_stream cx bw =
     recv_loop fuel (xpub_poll_item poll_stream cx)
       (\<lambda>pid message bw. (Return (Ok message), xpub_message_received pid (Message_Message message) (fst bw), snd bw))
       (\<lambda>pid e bw. (Return (Err (ErrCodec e)), xpub_peer_disconnected pid bw)) bw"

section \<open>Contracts\<close>

text \<open>XPUB and PUB treat a subscriber's message alike.\<close>

lemma xpub_message_received_eq:
  "xpub_message_received p m b = (case xp_subscribers b p of
     None \<Rightarrow> b
   | Some s \<Rightarrow> b \<lparr> xp_subscribers := (xp_subscribers b)(p \<mapsto>
       s \<lparr> subscriptions := update_subscriptions m (subscriptions s) \<rparr>) \<rparr>)"
proof -
  have same: "b \<lparr> xp_subscribers := (xp_subscribers b)(p \<mapsto> s) \<rparr> = b" if "xp_subscribers b p = Some s" for s
    using that by (cases b) (simp add: fun_upd_idem)
  show ?thesis
    using same by (auto simp: xpub_message_received_def update_subscriptions_def fun_upd_idem
        split: message.splits option.splits list.splits)
qed

lemma xpub_message_received_fields [simp]:
  "dom (xp_subscribers (xpub_message_received p m b)) = dom (xp_subscribers b)"
  "xp_fair_queue (xpub_message_received p m b) = xp_fair_queue b"
  by (auto simp: xpub_message_received_eq split: option.splits)

lemma xpub_disconnected_fields [simp]:
  "xp_subscribers (fst (xpub_peer_disconnected p (b, w))) = (xp_subscribers b)(p := None)"
  "xp_fair_queue (fst (xpub_peer_disconnected p (b, w))) = queue_remove p (xp_fair_queue b)"
  "snd (xpub_peer_disconnected p (b, w)) = w"
  by (simp_all add: xpub_peer_disconnected_def)

text \<open>The streams of the queue belong to connected subscribers, until \<open>shutdown\<close>, which leaves the queue as
  it is.\<close>

interpretation xpub: reliable_backend xpub_peer_connected xpub_peer_disconnected xpub_shutdown
  "\<lambda>bw. dom (xp_subscribers (fst bw))" "\<lambda>bw. finite (dom (xp_subscribers (fst bw)))"
  by unfold_locales (auto simp: xpub_peer_connected_def xpub_peer_disconnected_def xpub_shutdown_def
      split: prod.splits)

interpretation xq: owning_backend "\<lambda>b. Some (xp_fair_queue b)" "\<lambda>q b. b \<lparr> xp_fair_queue := q \<rparr>"
  xpub_peer_disconnected "\<lambda>b. dom (xp_subscribers b)" "\<lambda>b. True"
  by unfold_locales simp_all

lemma xpub_targets_eq:
  "xpub_targets env w frame b = List.map_filter (\<lambda>k. case xp_subscribers b k of
       None \<Rightarrow> None
     | Some s \<Rightarrow> if subscription_matches (subscriptions s) frame then Some (k, sub_queue s) else None)
     (keys_of env w (dom (xp_subscribers b)))"
proof -
  have "list_ex (\<lambda>f. length f \<le> length frame \<and> f = take (length f) frame) fs
      \<longleftrightarrow> subscription_matches fs frame" for fs
    using filter_matches_prefix [of _ frame]
    by (simp add: subscription_matches_iff list_ex_iff filter_matches_def)
  then show ?thesis unfolding xpub_targets_def by (simp only:)
qed

section \<open>Sending to many sinks\<close>

lemma send_targets_dead:
  "send_targets env m ts dead w = (case send_targets env m ts [] w of
     (Inl e, w') \<Rightarrow> (Inl e, w') | (Inr d, w') \<Rightarrow> (Inr (dead @ d), w'))"
proof (induction ts arbitrary: dead w)
  case (Cons t ts)
  obtain p q where t: "t = (p, q)" by fastforce
  obtain r w' where r: "sink_send env q m w = (r, w')" by fastforce
  show ?case
    using Cons.IH [of dead w'] Cons.IH [of "dead @ [p]" w'] Cons.IH [of "[p]" w']
    by (auto simp: t r split: sum.splits codec_error.splits prod.splits)
qed simp

text \<open>The sinks of the targets that did not fail get the message once, the others nothing.\<close>

lemma send_targets_written:
  assumes "env_ok env accepted written" and "distinct (map snd ts)"
    and "send_targets env m ts dead w = (Ok d, w')"
  shows "(\<forall>h. h \<notin> snd ` set ts \<longrightarrow> written w' h = written w h)
    \<and> (\<forall>(p, h) \<in> set ts. written w' h \<in> {written w h, written w h @ [m]})
    \<and> ((\<forall>h m w. \<exists>u. fst (sink_send env h m w) = Ok u)
        \<longrightarrow> d = dead \<and> (\<forall>(p, h) \<in> set ts. written w' h = written w h @ [m]))"
  using assms(2,3)
proof (induction ts arbitrary: dead w)
  case (Cons t ts)
  obtain p q where t: "t = (p, q)" by fastforce
  obtain r w1 where r: "sink_send env q m w = (r, w1)" by fastforce
  note wr = env_sink_send [OF assms(1) r]
  have fresh: "q \<notin> snd ` set ts" "distinct (map snd ts)" using Cons.prems(1) by (auto simp: t)
  obtain dead1 where rec: "send_targets env m ts dead1 w1 = (Ok d, w')"
    and same: "(\<exists>u. r = Ok u) \<Longrightarrow> dead1 = dead"
    using Cons.prems(2) r by (auto simp: t split: sum.splits codec_error.splits if_splits)
  note IH = Cons.IH [OF fresh(2) rec]
  have q: "written w' q = written w1 q" using IH fresh(1) by blast
  have other: "written w1 h = written w h" if "h \<noteq> q" for h using wr that by (cases r) auto
  have q1: "written w1 q \<in> {written w q, written w q @ [m]}" using wr by (cases r) auto
  have ne: "h \<noteq> q" if "(p', h) \<in> set ts" for p' h using that fresh(1) by force
  show ?case
  proof (intro conjI impI)
    show "\<forall>h. h \<notin> snd ` set (t # ts) \<longrightarrow> written w' h = written w h" using IH other by (auto simp: t)
    show "\<forall>(p, h) \<in> set (t # ts). written w' h \<in> {written w h, written w h @ [m]}"
      using IH other ne q q1 by (fastforce simp: t)
  next
    assume ok: "\<forall>h m w. \<exists>u. fst (sink_send env h m w) = Ok u"
    then obtain u where "r = Ok u" using r by (metis fst_conv)
    with wr same have "written w1 q = written w q @ [m]" "dead1 = dead" by auto
    then show "d = dead" "\<forall>(p, h) \<in> set (t # ts). written w' h = written w h @ [m]"
      using IH ok other ne q by (auto simp: t)
  qed
qed simp

end
