(* ===== verification/Pub_Sub.thy ===== *)
theory Pub_Sub
  imports Xpub
begin

text \<open>
  The publish-subscribe pattern across components: the subscriptions that a SUB or XSUB socket keeps against those
  that a PUB or XPUB socket derives from the messages it gets, and the delivery of XPUB.
\<close>

section \<open>What a publisher makes of a subscriber's messages\<close>

text \<open>The subscriptions that a PUB or XPUB backend holds after receiving these messages over a connection.\<close>

definition replay :: "message list \<Rightarrow> bytes list" where
  "replay ms = fold update_subscriptions ms []"

lemma replay_snoc: "replay (ms @ [m]) = update_subscriptions m (replay ms)"
  by (simp add: replay_def)

lemma create_subs_message_simps [simp]:
  "Message_Message (create_subs_message t Subscribe) = sub_message 1 t"
  "Message_Message (create_subs_message t Unsubscribe) = sub_message 0 t"
  by (simp_all add: create_subs_message_def message_from_def)

lemma replay_subscriptions:
  "replay (map (\<lambda>t. Message_Message (create_subs_message t Subscribe)) ts) = ts"
proof -
  have "fold update_subscriptions (map (\<lambda>t. sub_message 1 t) ts) ss = ss @ ts" for ss
    by (induction ts arbitrary: ss) simp_all
  then show ?thesis by (simp add: replay_def)
qed

section \<open>Sending to all publishers\<close>

lemma targets_of_ran:
  assumes "env_ok env accepted written" and "finite (dom m)"
  shows "snd ` set (targets_of env w m) = ran m"
    and "inj_on m (dom m) \<Longrightarrow> distinct (map snd (targets_of env w m))"
proof -
  note ks = env_keys [OF assms, of w]
  show "snd ` set (targets_of env w m) = ran m"
    using ks(2) by (force simp: targets_of_def image_image ran_def domIff)
  assume inj: "inj_on m (dom m)"
  have "inj_on (\<lambda>k. the (m k)) (dom m)"
  proof (rule inj_onI)
    fix x y
    assume "x \<in> dom m" "y \<in> dom m" "the (m x) = the (m y)"
    then have "m x = m y" by force
    with inj \<open>x \<in> dom m\<close> \<open>y \<in> dom m\<close> show "x = y" by (auto dest: inj_onD)
  qed
  with ks show "distinct (map snd (targets_of env w m))"
    by (simp add: targets_of_def distinct_map comp_def)
qed

lemma send_control_error: "\<exists>d e' w'. send_control env m ts dead (Some e) w = (d, Some e', w')"
proof (induction ts arbitrary: dead w)
  case (Cons t ts)
  then show ?case by (cases t) (auto split: prod.splits sum.splits)
qed simp

lemma send_control_ok:
  assumes "env_ok env accepted written" and "distinct (map snd ts)"
    and "send_control env m ts dead None w = (d, None, w')"
  shows "d = dead \<and> (\<forall>h. written w' h = written w h @ (if h \<in> snd ` set ts then [m] else []))"
  using assms(2,3)
proof (induction ts arbitrary: w)
  case (Cons t ts)
  obtain p q where t: "t = (p, q)" by fastforce
  obtain r w1 where r: "sink_send env q m w = (r, w1)" by fastforce
  have "\<exists>u. r = Ok u"
  proof (cases r)
    case (Inl e)
    let ?dead = "if e = CodecIo BrokenPipe then dead @ [p] else dead"
    obtain d' e' w'' where "send_control env m ts ?dead (Some (ErrCodec e)) w1 = (d', Some e', w'')"
      using send_control_error [of env m ts ?dead "ErrCodec e" w1] by blast
    with Cons.prems(2) r Inl show ?thesis by (simp add: t)
  qed blast
  then obtain u where u: "r = Ok u" ..
  with Cons.prems r have "send_control env m ts dead None w1 = (d, None, w')" by (simp add: t)
  from Cons.IH [OF _ this] Cons.prems(1) env_sink_send [OF assms(1) r] u show ?case by (auto simp: t)
qed simp

lemma send_subscriptions_written:
  assumes "env_ok env accepted written" and "send_subscriptions env q ms w = (r, w')"
  shows "(\<forall>h. h \<noteq> q \<longrightarrow> written w' h = written w h)
    \<and> (r \<longrightarrow> written w' q = written w q @ map Message_Message ms)"
  using assms(2)
proof (induction ms arbitrary: w)
  case (Cons m ms)
  obtain x w1 where x: "sink_send env q (Message_Message m) w = (x, w1)" by fastforce
  note wr = env_sink_send [OF assms(1) x]
  show ?case
  proof (cases x)
    case (Inl e)
    with x Cons.prems wr show ?thesis by auto
  next
    case (Inr u)
    with x Cons.prems have "send_subscriptions env q ms w1 = (r, w')" by simp
    from Cons.IH [OF this] wr Inr show ?thesis by simp
  qed
qed simp

section \<open>Agreement on the subscriptions\<close>

definition in_sync :: "('w \<Rightarrow> nat \<Rightarrow> message list) \<Rightarrow> 's sub_backend \<times> 'w \<Rightarrow> bool" where
  "in_sync written bw = (case bw of (b, w) \<Rightarrow>
     finite (subs b) \<and> finite (dom (sb_peers b)) \<and> inj_on (sb_peers b) (dom (sb_peers b))
     \<and> (\<forall>h \<in> ran (sb_peers b). distinct (replay (written w h)) \<and> set (replay (written w h)) = subs b))"

lemma in_sync_disconnected:
  assumes "env_ok env accepted written" and "in_sync written bw"
  shows "in_sync written (sub_peer_disconnected env p bw)"
proof -
  obtain b w b' w' where bw: "bw = (b, w)" "sub_peer_disconnected env p (b, w) = (b', w')" by (cases bw) fastforce
  have f: "sb_peers b' = (sb_peers b)(p := None)" "subs b' = subs b" "written w' = written w"
    using sub_disconnected_fields [of env p b w] sub_disconnected_written [OF assms(1), of p b w] bw(2) by simp_all
  have "ran ((sb_peers b)(p := None)) \<subseteq> ran (sb_peers b)" by (auto simp: ran_def split: if_splits)
  moreover have "inj_on ((sb_peers b)(p := None)) (dom (sb_peers b) - {p})" if "inj_on (sb_peers b) (dom (sb_peers b))"
    using that by (auto simp: inj_on_def)
  ultimately show ?thesis using assms(2) f by (auto simp: bw in_sync_def)
qed

lemma in_sync_broadcast:
  assumes "env_ok env accepted written" and "in_sync written (b, w)"
    and "broadcast_subscription env t ty (b \<lparr> subs := S \<rparr>, w) = (Ok (), b', w')"
    and "finite S" and upd: "\<And>ss. distinct ss \<Longrightarrow> set ss = subs b \<Longrightarrow>
      distinct (update_subscriptions (Message_Message (create_subs_message t ty)) ss)
      \<and> set (update_subscriptions (Message_Message (create_subs_message t ty)) ss) = S"
  shows "in_sync written (b', w')"
proof -
  let ?m = "Message_Message (create_subs_message t ty)"
  let ?ts = "targets_of env w (sb_peers b)"
  have fin: "finite (dom (sb_peers b))" "inj_on (sb_peers b) (dom (sb_peers b))"
    using assms(2) by (simp_all add: in_sync_def)
  obtain d e w1 where c: "send_control env ?m ?ts [] None w = (d, e, w1)"
    by (cases "send_control env ?m ?ts [] None w")
  have e: "e = None" using assms(3) c
    by (auto simp: broadcast_subscription_def broadcast_message_reliably_def broadcast_control_message_def
        split: option.splits)
  from send_control_ok [OF assms(1) targets_of_ran(2) [OF assms(1) fin] c [unfolded e]] targets_of_ran(1) [OF assms(1) fin(1)]
  have w: "d = []" "\<forall>h. written w1 h = written w h @ (if h \<in> ran (sb_peers b) then [?m] else [])" by auto
  then have "b' = b \<lparr> subs := S \<rparr>" "w' = w1"
    using assms(3) c e by (auto simp: broadcast_subscription_def broadcast_message_reliably_def broadcast_control_message_def)
  with w assms(2,4) upd show ?thesis by (auto simp: in_sync_def replay_snoc)
qed

lemma in_sync_connected:
  assumes "env_ok env accepted written" and "in_sync written bw"
    and "written (snd bw) (write_half io) = []" and "write_half io \<notin> ran (sb_peers (fst bw))"
  shows "in_sync written (sub_peer_connected env p io bw)"
proof -
  obtain b w where bw: "bw = (b, w)" by fastforce
  let ?ms = "subscription_messages env w b"
  obtain r w1 where s: "send_subscriptions env (write_half io) ?ms w = (r, w1)" by fastforce
  show ?thesis
  proof (cases r)
    case True
    have ks: "distinct (keys_of env w (subs b))" "set (keys_of env w (subs b)) = subs b"
      using env_keys [OF assms(1)] assms(2) by (simp_all add: bw in_sync_def)
    have written: "written w1 (write_half io) = map Message_Message ?ms"
      "\<forall>h. h \<noteq> write_half io \<longrightarrow> written w1 h = written w h"
      using send_subscriptions_written [OF assms(1) s] True assms(3) by (simp_all add: bw)
    have replay: "replay (map Message_Message ?ms) = keys_of env w (subs b)"
      using replay_subscriptions by (simp add: subscription_messages_def comp_def)
    have ran: "h \<in> ran ((sb_peers b)(p \<mapsto> write_half io)) \<Longrightarrow> h = write_half io \<or> h \<in> ran (sb_peers b)" for h
      by (auto simp: ran_def split: if_splits)
    have inj: "inj_on ((sb_peers b)(p \<mapsto> write_half io)) (insert p (dom (sb_peers b)))"
      using assms(2,4) by (auto simp: bw in_sync_def inj_on_def ran_def)
    have "sub_peer_connected env p io bw = (b \<lparr> sb_peers := (sb_peers b)(p \<mapsto> write_half io),
        sb_fair_queue := map_option (queue_insert p (read_half io)) (sb_fair_queue b) \<rparr>, w1)"
      using s True by (simp add: bw sub_peer_connected_def sub_connect_with_def)
    moreover have "distinct (replay (written w1 h)) \<and> set (replay (written w1 h)) = subs b"
      if "h \<in> ran ((sb_peers b)(p \<mapsto> write_half io))" for h
    proof (cases "h = write_half io")
      case True
      then show ?thesis using written(1) replay ks by simp
    next
      case False
      with ran [OF that] assms(2) written(2) show ?thesis by (simp add: bw in_sync_def)
    qed
    ultimately show ?thesis using assms(2) inj by (simp add: bw in_sync_def)
  next
    case False
    then have "sub_peer_connected env p io bw = (b, w1)"
      using s by (simp add: bw sub_peer_connected_def sub_connect_with_def)
    moreover have "\<forall>h \<in> ran (sb_peers b). written w1 h = written w h"
      using send_subscriptions_written [OF assms(1) s] assms(4) unfolding bw fst_conv by metis
    ultimately show ?thesis using assms(2) by (simp add: bw in_sync_def)
  qed
qed

lemma in_sync_recv:
  assumes "env_ok env accepted written" and "in_sync written bw"
    and "sub_recv n env poll_stream cx bw = Some (r, bw')"
  shows "in_sync written bw'"
proof (rule recv_loop_invariant [where I = "in_sync written", OF assms(3) [unfolded sub_recv_def] assms(2)])
  fix st :: "'b sub_backend \<times> 'a" and p st'
  assume I: "in_sync written st" and p: "sub_poll_item env poll_stream cx st = (p, st')"
  show "in_sync written st'"
    by (rule sq.poll_item_invariant [where env = env and I = "in_sync written" and poll_stream = poll_stream,
          OF p [unfolded sub_poll_item_def] I])
      (simp add: in_sync_def, rule in_sync_disconnected [OF assms(1)])
qed (auto intro: in_sync_disconnected [OF assms(1)])

text \<open>The states of a SUB socket whose subscriptions are made one at a time: a topic is subscribed when it is not
  subscribed already, and the call succeeds; peers connect over fresh connections and disconnect at any time.\<close>

inductive sub_reachable :: "'w env \<Rightarrow> ('w \<Rightarrow> nat \<Rightarrow> message list) \<Rightarrow> 's sub_backend \<times> 'w \<Rightarrow> bool" for env written where
  start: "sub_reachable env written (sub_with_options opts, w)"
| subscribe: "sub_reachable env written bw \<Longrightarrow> t \<notin> subs (fst bw) \<Longrightarrow> sub_subscribe env t bw = (Ok (), bw')
    \<Longrightarrow> sub_reachable env written bw'"
| unsubscribe: "sub_reachable env written bw \<Longrightarrow> sub_unsubscribe env t bw = (Ok (), bw')
    \<Longrightarrow> sub_reachable env written bw'"
| connect: "sub_reachable env written bw \<Longrightarrow> written (snd bw) (write_half io) = []
    \<Longrightarrow> write_half io \<notin> ran (sb_peers (fst bw)) \<Longrightarrow> sub_reachable env written (sub_peer_connected env p io bw)"
| disconnect: "sub_reachable env written bw \<Longrightarrow> sub_reachable env written (sub_peer_disconnected env p bw)"
| recv: "sub_reachable env written bw \<Longrightarrow> sub_recv n env poll_stream cx bw = Some (r, bw')
    \<Longrightarrow> sub_reachable env written bw'"

lemma sub_reachable_in_sync:
  assumes "sub_reachable env written bw" and "env_ok env accepted written"
  shows "in_sync written bw"
  using assms(1)
proof (induction rule: sub_reachable.induct)
  case (start opts w)
  then show ?case by (simp add: in_sync_def sub_with_options_def sub_backend_with_options_def)
next
  case (subscribe bw t bw')
  obtain b w b' w' where bw: "bw = (b, w)" "bw' = (b', w')" by (cases bw; cases bw')
  have "finite (insert t (subs b))" using subscribe.IH by (simp add: bw in_sync_def)
  from in_sync_broadcast [OF assms(2) subscribe.IH [unfolded bw] _ this, of t Subscribe b' w'] subscribe.hyps(2,3)
  show ?case by (simp add: bw sub_subscribe_def remember_subscription_def)
next
  case (unsubscribe bw t bw')
  obtain b w b' w' where bw: "bw = (b, w)" "bw' = (b', w')" by (cases bw; cases bw')
  have "finite (subs b - {t})" using unsubscribe.IH by (simp add: bw in_sync_def)
  from in_sync_broadcast [OF assms(2) unsubscribe.IH [unfolded bw] _ this, of t Unsubscribe b' w'] unsubscribe.hyps(2)
  show ?case by (simp add: bw sub_unsubscribe_def forget_subscription_def)
next
  case (connect bw io p)
  then show ?case using in_sync_connected [OF assms(2)] by blast
next
  case (disconnect bw p)
  then show ?case using in_sync_disconnected [OF assms(2)] by blast
next
  case (recv bw n poll_stream cx r bw')
  then show ?case using in_sync_recv [OF assms(2)] by blast
qed

section \<open>Properties\<close>



text \<open>C35: A subscription made while a publisher is being connected can be lost: when \<open>subscribe\<close> runs after
  \<open>peer_connected\<close> has taken its list of subscriptions and before it has registered the peer, the publisher ends
  up connected without having been sent the new topic, although both calls succeed.\<close>

theorem subscribe_during_connect_is_lost:
  assumes "env_ok env accepted written" and "sub_reachable env written (b, w)"
    and "written w (write_half io) = []" and "write_half io \<notin> ran (sb_peers b)" and "t \<notin> subs b"
    and "sub_subscribe env t (b, w) = (Ok (), b1, w1)"
    and "sub_connect_with env (subscription_messages env w b) p io (b1, w1) = (b2, w2)"
    and "sb_peers b2 p = Some (write_half io)"
  shows "t \<in> subs b2 \<and> t \<notin> set (replay (written w2 (write_half io)))"
proof -
  let ?h = "write_half io"
  have sync: "in_sync written (b, w)" using sub_reachable_in_sync [OF assms(2,1)] .
  have r1: "sub_reachable env written (b1, w1)" by (rule sub_reachable.subscribe [OF assms(2) _ assms(6)]) (simp add: assms(5))
  have fin: "finite (dom (sb_peers b))" "inj_on (sb_peers b) (dom (sb_peers b))" "finite (subs b)"
    using sync by (simp_all add: in_sync_def)
  let ?m = "Message_Message (create_subs_message t Subscribe)"
  obtain d e w' where c: "send_control env ?m (targets_of env w (sb_peers b)) [] None w = (d, e, w')"
    by (cases "send_control env ?m (targets_of env w (sb_peers b)) [] None w")
  have w1: "w1 = w'" "b1 = remember_subscription t b" if "d = []"
    using assms(6) c that by (auto simp: sub_subscribe_def broadcast_subscription_def broadcast_message_reliably_def
        broadcast_control_message_def remember_subscription_def split: option.splits)
  have e: "e = None"
    using assms(6) c by (auto simp: sub_subscribe_def broadcast_subscription_def broadcast_message_reliably_def
        broadcast_control_message_def remember_subscription_def split: option.splits)
  from send_control_ok [OF assms(1) targets_of_ran(2) [OF assms(1) fin(1,2)] c [unfolded e]]
    targets_of_ran(1) [OF assms(1) fin(1)] assms(3,4) w1
  have b1: "written w1 ?h = []" "b1 = remember_subscription t b" by auto
  obtain x w3 where s: "send_subscriptions env ?h (subscription_messages env w b) w1 = (x, w3)" by fastforce
  have x: "x" using assms(4,7,8) s b1(2)
    by (auto simp: sub_connect_with_def remember_subscription_def ran_def split: bool.splits)
  have "written w2 ?h = map Message_Message (subscription_messages env w b)" "subs b2 = insert t (subs b)"
    using send_subscriptions_written [OF assms(1) s] x assms(7) s b1
    by (auto simp: sub_connect_with_def remember_subscription_def)
  moreover have "replay (map Message_Message (subscription_messages env w b)) = keys_of env w (subs b)"
    using replay_subscriptions by (simp add: subscription_messages_def comp_def)
  ultimately show ?thesis using env_keys(2) [OF assms(1) fin(3)] assms(5) by simp
qed

theorem subscribe_during_connect_is_lost_witness:
  "let e = sample_env [] []; w0 = (\<lambda>_. [], \<lambda>_. [], 0); io = \<lparr> read_half = 5, write_half = 3 \<rparr>;
       b0 = sub_with_options options_default :: byte sub_backend;
       (r, b1, w1) = sub_subscribe e [7] (b0, w0);
       (b2, w2) = sub_connect_with e (subscription_messages e w0 b0) [1] io (b1, w1)
   in r = Ok () \<and> sb_peers b2 [1] = Some 3 \<and> [7] \<in> subs b2 \<and> [7] \<notin> set (replay (fst (snd w2) 3))"
proof -
  let ?e = "sample_env [] []" and ?w0 = "(\<lambda>_. [], \<lambda>_. [], 0) :: (nat \<Rightarrow> message list) \<times> (nat \<Rightarrow> message list) \<times> nat"
  let ?io = "\<lparr> read_half = 5, write_half = 3 \<rparr> :: byte framed_io"
  let ?wr = "\<lambda>w :: (nat \<Rightarrow> message list) \<times> (nat \<Rightarrow> message list) \<times> nat. fst (snd w)"
  let ?b0 = "sub_with_options options_default :: byte sub_backend"
  define b1 where "b1 = remember_subscription [7] ?b0"
  have b0: "sb_peers ?b0 = Map.empty" "subs ?b0 = {}" by (simp_all add: sub_with_options_def sub_backend_with_options_def)
  have s: "sub_subscribe ?e [7] (?b0, ?w0) = (Ok (), b1, ?w0)"
    by (simp add: sub_subscribe_def broadcast_subscription_def broadcast_message_reliably_def
        broadcast_control_message_def targets_of_def b1_def remember_subscription_def b0)
  obtain b2 w2 where c: "sub_connect_with ?e (subscription_messages ?e ?w0 ?b0) [1] ?io (b1, ?w0) = (b2, w2)"
    by (rule prod.exhaust)
  then have b2: "sb_peers b2 [1] = Some (write_half ?io)"
    by (auto simp: sub_connect_with_def subscription_messages_def b0)
  have "[7] \<in> subs b2 \<and> [7] \<notin> set (replay (?wr w2 (write_half ?io)))"
    by (rule subscribe_during_connect_is_lost [OF sample_env_ok sub_reachable.start _ _ _ s c b2]) (simp_all add: b0)
  then show ?thesis using b2 by (simp add: Let_def s c)
qed

text \<open>A topic that is subscribed twice and unsubscribed once: a publisher still holds it, the subscriber's own
  set does not, so that a publisher that reconnects is not told about it any more.\<close>

theorem duplicate_subscription_diverges:
  "replay [sub_message 1 t, sub_message 1 t, sub_message 0 t] = [t]
   \<and> subs (forget_subscription t (remember_subscription t (remember_subscription t b))) = subs b - {t}"
  by (auto simp: replay_def forget_subscription_def remember_subscription_def)

section \<open>XPUB\<close>

definition own_sinks :: "'s xpub_backend \<Rightarrow> bool" where
  "own_sinks b \<longleftrightarrow> (\<forall>k l s t. xp_subscribers b k = Some s \<and> xp_subscribers b l = Some t
     \<and> sub_queue s = sub_queue t \<longrightarrow> k = l)"

definition xpub_wants :: "'s xpub_backend \<Rightarrow> bytes \<Rightarrow> nat \<Rightarrow> bool" where
  "xpub_wants b first_frame h \<longleftrightarrow> (\<exists>k s. xp_subscribers b k = Some s \<and> sub_queue s = h
     \<and> (\<exists>t \<in> set (subscriptions s). prefix t first_frame))"

lemma xpub_targets_set:
  assumes "env_ok env accepted written" and "finite (dom (xp_subscribers b))"
  shows "snd ` set (xpub_targets env w frame b) = Collect (xpub_wants b frame)"
    and "own_sinks b \<Longrightarrow> distinct (map snd (xpub_targets env w frame b))"
proof -
  define g where "g = (\<lambda>k. case xp_subscribers b k of None \<Rightarrow> None
    | Some s \<Rightarrow> if subscription_matches (subscriptions s) frame then Some (k, sub_queue s) else None)"
  note ks = env_keys [OF assms, of w]
  have f: "g k = Some (l, h) \<longleftrightarrow> l = k \<and> (\<exists>s. xp_subscribers b k = Some s \<and> sub_queue s = h
      \<and> (\<exists>t \<in> set (subscriptions s). prefix t frame))" for k l h
    by (auto simp: g_def subscription_matches_iff split: option.splits)
  have key: "y = (k, snd y)" if "g k = Some y" for k y using that f by (cases y) simp
  have targets: "xpub_targets env w frame b = List.map_filter g (keys_of env w (dom (xp_subscribers b)))"
    unfolding g_def by (rule xpub_targets_eq)
  have set_filter: "set (List.map_filter g xs) = {y. \<exists>k \<in> set xs. g k = Some y}" for xs
    by (force simp: List.map_filter_def)
  show "snd ` set (xpub_targets env w frame b) = Collect (xpub_wants b frame)"
  proof (rule set_eqI)
    fix h
    have "h \<in> snd ` set (xpub_targets env w frame b) \<longleftrightarrow> (\<exists>k \<in> dom (xp_subscribers b). g k = Some (k, h))"
      unfolding targets set_filter ks(2)
    proof
      assume "h \<in> snd ` {y. \<exists>k \<in> dom (xp_subscribers b). g k = Some y}"
      then obtain y k where "k \<in> dom (xp_subscribers b)" "g k = Some y" "h = snd y" by blast
      with key show "\<exists>k \<in> dom (xp_subscribers b). g k = Some (k, h)" by metis
    next
      assume "\<exists>k \<in> dom (xp_subscribers b). g k = Some (k, h)"
      then show "h \<in> snd ` {y. \<exists>k \<in> dom (xp_subscribers b). g k = Some y}"
        by (metis (mono_tags, lifting) image_eqI mem_Collect_eq snd_conv)
    qed
    then show "h \<in> snd ` set (xpub_targets env w frame b) \<longleftrightarrow> h \<in> Collect (xpub_wants b frame)"
      unfolding f xpub_wants_def by blast
  qed
  assume own: "own_sinks b"
  have "distinct (map snd (List.map_filter g xs))" if "distinct xs" for xs
    using that
  proof (induction xs)
    case (Cons k xs)
    then show ?case
    proof (cases "g k")
      case (Some y)
      then obtain h where y: "y = (k, h)" and h: "g k = Some (k, h)" using key by metis
      have "h \<notin> snd ` set (List.map_filter g xs)"
      proof
        assume "h \<in> snd ` set (List.map_filter g xs)"
        then obtain z l where z: "l \<in> set xs" "g l = Some z" "h = snd z" unfolding set_filter by blast
        then have "g l = Some (l, h)" using key by metis
        with own h have "l = k" unfolding own_sinks_def f by blast
        with z(1) Cons.prems show False by simp
      qed
      with Cons Some y show ?thesis by (simp add: List.map_filter_simps)
    qed (simp add: List.map_filter_simps)
  qed (simp add: List.map_filter_simps)
  from this [OF ks(1)] show "distinct (map snd (xpub_targets env w frame b))" unfolding targets .
qed

text \<open>C34: XPUB delivers selectively: when \<open>send\<close> succeeds, every sink but those of the subscribers with a
  subscription that is a prefix of the first frame is untouched, each of these gets the message at most once, and
  exactly once with nobody disconnected when no sink fails.\<close>

theorem xpub_send_selective:
  assumes "env_ok env accepted written" and "finite (dom (xp_subscribers b))" and "own_sinks b"
    and "frames m = f # fs" and "xpub_send env m (b, w) = (Ok (), b', w')"
  shows "(\<forall>h. \<not> xpub_wants b f h \<longrightarrow> written w' h = written w h)
    \<and> (\<forall>h. xpub_wants b f h \<longrightarrow> written w' h \<in> {written w h, written w h @ [Message_Message m]})
    \<and> ((\<forall>h m w. \<exists>u. fst (sink_send env h m w) = Ok u)
        \<longrightarrow> b' = b \<and> (\<forall>h. xpub_wants b f h \<longrightarrow> written w' h = written w h @ [Message_Message m]))"
proof -
  let ?ts = "xpub_targets env w f b"
  obtain d w1 where s: "send_targets env (Message_Message m) ?ts [] w = (Ok d, w1)"
    and r: "fold xpub_peer_disconnected d (b, w1) = (b', w')"
    using assms(4,5) by (auto simp: xpub_send_def split: prod.splits sum.splits)
  have "snd (fold xpub_peer_disconnected d (b, w1)) = w1"
    by (induction d arbitrary: b) (simp_all add: xpub_peer_disconnected_def)
  then have w': "w' = w1" using r by simp
  have ts: "xpub_wants b f h \<longleftrightarrow> (\<exists>p. (p, h) \<in> set ?ts)" for h
    using xpub_targets_set(1) [OF assms(1,2), of w f] by force
  note sent = send_targets_written [OF assms(1) xpub_targets_set(2) [OF assms(1-3)] s]
  show ?thesis unfolding w'
  proof (intro conjI impI allI)
    fix h
    show "\<not> xpub_wants b f h \<Longrightarrow> written w1 h = written w h" using sent ts by force
    show "xpub_wants b f h \<Longrightarrow> written w1 h \<in> {written w h, written w h @ [Message_Message m]}" using sent ts by blast
  next
    assume ok: "\<forall>h m w. \<exists>u. fst (sink_send env h m w) = Ok u"
    with sent have "d = []" by blast
    with r show "b' = b" by simp
    fix h
    show "xpub_wants b f h \<Longrightarrow> written w1 h = written w h @ [Message_Message m]" using sent ok ts by blast
  qed
qed

theorem xpub_send_selective_witness:
  "let b = xpub_message_received [1] (sub_message 1 [7]) (fst (xpub_peer_connected [1] \<lparr> read_half = 5, write_half = 3 \<rparr>
         (xpub_with_options options_default :: byte xpub_backend, ())));
       m = \<lparr> frames = [[7, 8]] \<rparr>;
       (r, b', w') = xpub_send (sample_env [] []) m (b, (\<lambda>_. [], \<lambda>_. [], 0))
   in fst (snd w') 3 = [Message_Message m] \<and> fst (snd w') 4 = []"
proof -
  define b where "b = xpub_message_received [1] (sub_message 1 [7]) (fst (xpub_peer_connected [1] \<lparr> read_half = 5, write_half = 3 \<rparr>
         (xpub_with_options options_default :: byte xpub_backend, ())))"
  have subs: "xp_subscribers b = [[1] \<mapsto> \<lparr> subscriptions = [[7]], sub_queue = 3 \<rparr>]"
    by (simp add: b_def xpub_message_received_eq xpub_peer_connected_def xpub_with_options_def)
  let ?m = "\<lparr> frames = [[7, 8]] \<rparr> :: zmq_message" and ?e = "sample_env [] []"
  let ?w = "(\<lambda>_. [], \<lambda>_. [], 0) :: (nat \<Rightarrow> message list) \<times> (nat \<Rightarrow> message list) \<times> nat"
  obtain r b' w' where x: "xpub_send ?e ?m (b, ?w) = (r, b', w')" by (rule prod_cases3)
  then have "r = Ok ()"
    by (simp add: xpub_send_def xpub_targets_def subs List.map_filter_simps split: prod.splits)
  moreover have "own_sinks b" by (auto simp: own_sinks_def subs split: if_splits)
  moreover have "xpub_wants b [7, 8] 3" "\<not> xpub_wants b [7, 8] 4" by (auto simp: xpub_wants_def subs)
  moreover have "\<forall>h m w. \<exists>u. fst (sink_send ?e h m w) = Ok u" by (simp add: sample_env_def split: prod.splits)
  ultimately have "fst (snd w') 3 = [Message_Message ?m]" "fst (snd w') 4 = []"
    using xpub_send_selective [OF sample_env_ok, of b ?m "[7, 8]" "[]" "[]" "[]" ?w b' w'] x by (simp_all add: subs)
  then show ?thesis by (simp add: b_def [symmetric] x)
qed

end
