(* ===== verification/Broadcast.thy ===== *)
theory Broadcast
  imports Pub_Sub Pipeline
begin

text \<open>
  Publish and subscribe from end to end: a SUB socket with its subscriptions joins any number of publishers, each
  publisher learns the subscriptions from what the SUB socket sends when it connects, filters what it publishes, and
  the copies travel through queue, writer, transport, reader and fair queue to the application.
\<close>

section \<open>The subscribing side\<close>

interpretation sc: complete_backend sb_fair_queue "\<lambda>q b. b \<lparr> sb_fair_queue := Some q \<rparr>" "sub_peer_disconnected env"
  "\<lambda>b. dom (sb_peers b)" "\<lambda>b. True" "reader_poll poll_read stream wakes" "reader_complete poll_read stream"
  "reader_content stream" for env :: "'w env" and poll_read :: "'r poll_read" and stream wakes
  by unfold_locales (use reader_complete_prompt in blast)+

text \<open>A publisher is admitted when the subscriptions could be sent to it.\<close>

definition sub_admits :: "'w env \<Rightarrow> 's framed_io \<Rightarrow> 's sub_backend \<times> 'w \<Rightarrow> bool" where
  "sub_admits env io bw \<longleftrightarrow> fst (send_subscriptions env (write_half io) (subscription_messages env (snd bw) (fst bw)) (snd bw))"

lemma sub_connected_admitted:
  assumes "sub_admits env io (b, w)"
  shows "fst (sub_peer_connected env k io (b, w)) = b \<lparr> sb_peers := (sb_peers b)(k \<mapsto> write_half io),
    sb_fair_queue := map_option (queue_insert k (read_half io)) (sb_fair_queue b) \<rparr>"
  using assms by (auto simp: sub_admits_def sub_peer_connected_def sub_connect_with_def split: prod.splits bool.splits)

interpretation sj: complete_joining sb_fair_queue "\<lambda>q b. b \<lparr> sb_fair_queue := Some q \<rparr>" "sub_peer_disconnected env"
  "\<lambda>b. dom (sb_peers b)" "\<lambda>b. True" "reader_poll poll_read stream wakes" "reader_complete poll_read stream"
  "reader_content stream" "sub_peer_connected env" "sub_admits env"
  for env :: "'w env" and poll_read :: "'r poll_read" and stream wakes
  by unfold_locales (simp_all add: sub_connected_admitted)

text \<open>Publishers that join one after the other, over connections of their own: each of them has been sent all the
  subscriptions.\<close>

lemma sub_join_all:
  assumes "env_ok env accepted written" and "sinks_work env"
    and "in_sync written (b0, w0)" and "distinct (map fst ios)" and "distinct (map (write_half \<circ> snd) ios)"
    and "\<forall>(k, io) \<in> set ios. write_half io \<notin> ran (sb_peers b0) \<and> written w0 (write_half io) = []"
    and "fold (\<lambda>(k, io). sub_peer_connected env k io) ios (b0, w0) = (b, w)"
  shows "in_sync written (b, w) \<and> subs b = subs b0 \<and> (\<forall>k. k \<notin> fst ` set ios \<longrightarrow> sb_peers b k = sb_peers b0 k)
    \<and> (\<forall>(k, io) \<in> set ios. sb_peers b k = Some (write_half io))"
  using assms(3-)
proof (induction ios arbitrary: b0 w0)
  case (Cons x ios)
  obtain k io where x: "x = (k, io)" by fastforce
  obtain b1 w1 where c: "sub_peer_connected env k io (b0, w0) = (b1, w1)" by fastforce
  have fresh: "written w0 (write_half io) = []" "write_half io \<notin> ran (sb_peers b0)" using Cons.prems(4) x by auto
  have sync: "in_sync written (b1, w1)"
    using in_sync_connected [OF assms(1) Cons.prems(1), of io k] fresh c by simp
  have ad: "sub_admits env io (b0, w0)" using sinks_work_subscriptions [OF assms(2)] by (simp add: sub_admits_def)
  then have b1: "sb_peers b1 = (sb_peers b0)(k \<mapsto> write_half io)" "subs b1 = subs b0"
    using sub_connected_admitted [OF ad, of k] c by simp_all
  have w1: "written w1 h = written w0 h" if "h \<noteq> write_half io" for h
  proof -
    obtain r w' where "send_subscriptions env (write_half io) (subscription_messages env w0 b0) w0 = (r, w')" by fastforce
    with send_subscriptions_written [OF assms(1) this] c that show ?thesis
      by (auto simp: sub_peer_connected_def sub_connect_with_def split: bool.splits)
  qed
  have "write_half io' \<notin> ran (sb_peers b1) \<and> written w1 (write_half io') = []" if "(l, io') \<in> set ios" for l io'
  proof -
    have "write_half io' \<noteq> write_half io" using that Cons.prems(3) x by force
    with that Cons.prems(4) w1 show ?thesis by (auto simp: b1 ran_def split: if_splits)
  qed
  then have "\<forall>(l, io') \<in> set ios. write_half io' \<notin> ran (sb_peers b1) \<and> written w1 (write_half io') = []" by fast
  from Cons.IH [OF sync _ _ this] Cons.prems(2,3,5) c x b1 show ?case by auto
qed simp

section \<open>The publishing side\<close>

definition topic_match :: "bytes set \<Rightarrow> zmq_message \<Rightarrow> bool" where
  "topic_match T m = (case msg_get m 0 of None \<Rightarrow> False | Some first_frame \<Rightarrow> \<exists>t \<in> T. prefix t first_frame)"

abbreviation has_room :: "'w env \<Rightarrow> bool" where
  "has_room env \<equiv> \<forall>h m w. fst (try_send env h m w) = TrySent"

lemma pub_fanout_one:
  assumes "env_ok env accepted written" and "pub_wf b" and "own_queues b" and "subscribers b p = Some s"
  shows "\<exists>xs. accepted (pub_fanout_message env m b w) (sub_queue s) = accepted w (sub_queue s) @ map Message_Message xs
    \<and> subseq xs (filter (topic_match (set (subscriptions s))) [m])
    \<and> (has_room env \<longrightarrow> xs = filter (topic_match (set (subscriptions s))) [m])"
proof (cases "msg_get m 0")
  case None
  then show ?thesis by (intro exI [of _ "[]"]) (simp add: pub_fanout_message_def topic_match_def)
next
  case (Some frame)
  let ?ks = "keys_of env w (dom (subscribers b))"
  have "finite (dom (subscribers b))" using assms(2) by (simp add: pub_wf_def)
  note ks = env_keys [OF assms(1) this, of w]
  note fold = fanout_fold [OF assms(1,3) ks(1), of frame m w]
  have p: "p \<in> set ?ks" using assms(4) ks(2) by auto
  have sel: "matching b frame p = (if topic_match (set (subscriptions s)) m then Some (sub_queue s) else None)"
    using assms(4) Some by (simp add: matching_def topic_match_def subscription_matches_iff)
  show ?thesis
  proof (cases "topic_match (set (subscriptions s)) m")
    case True
    let ?acc = "accepted (pub_fanout_message env m b w) (sub_queue s)"
    have "matching b frame p = Some (sub_queue s)" using True sel by simp
    from fold [THEN conjunct2, THEN bspec, OF p, THEN spec, THEN mp, OF this]
    have "?acc \<in> {accepted w (sub_queue s), accepted w (sub_queue s) @ [Message_Message m]}"
      "has_room env \<longrightarrow> ?acc = accepted w (sub_queue s) @ [Message_Message m]" unfolding pub_fanout_eq [OF Some] by blast+
    with True show ?thesis
      by (cases "?acc = accepted w (sub_queue s) @ [Message_Message m]") (auto intro: exI [of _ "[m]"] exI [of _ "[]"])
  next
    case False
    have "sub_queue s \<notin> {q. \<exists>k \<in> set ?ks. matching b frame k = Some q}"
    proof
      assume "sub_queue s \<in> {q. \<exists>k \<in> set ?ks. matching b frame k = Some q}"
      then obtain k where k: "matching b frame k = Some (sub_queue s)" by blast
      then have "k = p" using assms(3,4) by (auto simp: matching_def own_queues_def split: option.splits if_splits)
      with k sel False show False by simp
    qed
    with fold False show ?thesis unfolding pub_fanout_eq [OF Some] by (intro exI [of _ "[]"]) simp
  qed
qed

lemma pub_fanout_all:
  assumes "env_ok env accepted written" and "pub_wf b" and "own_queues b" and "subscribers b p = Some s"
  shows "\<exists>xs. accepted (fold (\<lambda>m. pub_fanout_message env m b) ms w) (sub_queue s) = accepted w (sub_queue s) @ map Message_Message xs
    \<and> subseq xs (filter (topic_match (set (subscriptions s))) ms)
    \<and> (has_room env \<longrightarrow> xs = filter (topic_match (set (subscriptions s))) ms)"
proof (induction ms arbitrary: w)
  case (Cons m ms)
  let ?sel = "filter (topic_match (set (subscriptions s)))" and ?w1 = "pub_fanout_message env m b w"
  from pub_fanout_one [OF assms, of m w] obtain xs where
    xs: "accepted ?w1 (sub_queue s) = accepted w (sub_queue s) @ map Message_Message xs"
      "subseq xs (?sel [m])" "has_room env \<longrightarrow> xs = ?sel [m]" by blast
  from Cons [of ?w1] obtain ys where
    ys: "accepted (fold (\<lambda>m. pub_fanout_message env m b) ms ?w1) (sub_queue s) = accepted ?w1 (sub_queue s) @ map Message_Message ys"
      "subseq ys (?sel ms)" "has_room env \<longrightarrow> ys = ?sel ms" by blast
  have app: "?sel (m # ms) = ?sel [m] @ ?sel ms" by simp
  have "subseq (xs @ ys) (?sel (m # ms))" unfolding app by (rule list_emb_append_mono [OF xs(2) ys(2)])
  with xs ys show ?case by (intro exI [of _ "xs @ ys"]) (simp del: filter.simps add: app)
qed simp

text \<open>What a PUB socket has put into the queue of one subscriber: it holds the subscriptions \<open>topics\<close> of the
  subscriber, the messages \<open>ms\<close> have gone through its fan-out queue, and \<open>copies\<close> is what the subscriber's queue has
  accepted.\<close>

definition publisher_run ::
    "'w env \<Rightarrow> ('w \<Rightarrow> nat \<Rightarrow> message list) \<Rightarrow> bytes list \<Rightarrow> zmq_message list \<Rightarrow> message list \<Rightarrow> bool" where
  "publisher_run env accepted topics ms copies \<longleftrightarrow>
     (\<exists>b p s w capacity f. pub_wf b \<and> own_queues b \<and> subscribers b p = Some s \<and> subscriptions s = topics
        \<and> accepted w (sub_queue s) = [] \<and> reachable capacity f \<and> published f = ms \<and> fan_queue f = []
        \<and> copies = accepted (fold (\<lambda>m. pub_fanout_message env m b) (fanned_out f) w) (sub_queue s))"

lemma publisher_copies:
  assumes "env_ok env accepted written" and "publisher_run env accepted topics ms copies"
  shows "\<exists>xs. copies = map Message_Message xs \<and> subseq xs (filter (topic_match (set topics)) ms)
    \<and> (has_room env \<longrightarrow> xs = filter (topic_match (set topics)) ms)"
proof -
  from assms(2) obtain b p s w capacity f where
    b: "pub_wf b" "own_queues b" "subscribers b p = Some s" "subscriptions s = topics" "accepted w (sub_queue s) = []"
    and f: "reachable capacity f" "published f = ms" "fan_queue f = []"
    and copies: "copies = accepted (fold (\<lambda>m. pub_fanout_message env m b) (fanned_out f) w) (sub_queue s)"
    unfolding publisher_run_def by blast
  have "fanned_out f = ms" using reachable_inv [OF f(1)] f(2,3) by (simp add: fan_inv_def)
  with pub_fanout_all [OF assms(1) b(1-3), of "fanned_out f" w] b(4,5) copies show ?thesis by simp
qed

text \<open>Any messages can be published and drained.\<close>

lemma worker_keeps_publisher:
  "worker_step\<^sup>*\<^sup>* f f' \<Longrightarrow> publisher f' = publisher f \<and> published f' = published f \<and> fan_capacity f' = fan_capacity f"
proof (induction rule: rtranclp_induct)
  case (step g h)
  from step.hyps(2) step.IH show ?case by (cases rule: worker_step.cases) simp_all
qed simp

lemma fan_steps_reachable: "fan_step\<^sup>*\<^sup>* f f' \<Longrightarrow> reachable capacity f \<Longrightarrow> reachable capacity f'"
  by (induction rule: rtranclp_induct) (auto intro: reachable.step)

lemma publish_and_drain:
  assumes "0 < capacity"
  shows "\<exists>f. reachable capacity f \<and> published f = ms \<and> fan_queue f = [] \<and> publisher f = PubIdle \<and> fan_capacity f = capacity"
proof (induction ms rule: rev_induct)
  case Nil
  have "published (fanout_new capacity) = []" "fan_queue (fanout_new capacity) = []"
    "publisher (fanout_new capacity) = PubIdle" "fan_capacity (fanout_new capacity) = capacity"
    by (simp_all add: fanout_new_def)
  with reachable.start show ?case by blast
next
  case (snoc m ms)
  then obtain f where f: "reachable capacity f" "published f = ms" "fan_queue f = []" "publisher f = PubIdle"
    "fan_capacity f = capacity" by blast
  let ?g = "snd (publish m f)"
  have sub: "publisher_step \<le> fan_step" "worker_step \<le> fan_step" by (auto simp: fan_step_def)
  have "fan_step\<^sup>*\<^sup>* f ?g" using publish_steps [OF f(4), of m] rtranclp_mono [OF sub(1)] by blast
  then have g: "reachable capacity ?g" using f(1) by (rule fan_steps_reachable)
  have pg: "publisher ?g = PubIdle" "published ?g = ms @ [m]" "fan_capacity ?g = capacity"
    using f assms by (simp_all add: publish_def Let_def)
  from worker_finishes [OF reachable_inv [OF g] pg(1)] obtain h where
    h: "worker_step\<^sup>*\<^sup>* ?g h" "fan_queue h = []" by blast
  have "fan_step\<^sup>*\<^sup>* ?g h" using h(1) rtranclp_mono [OF sub(2)] by blast
  then have "reachable capacity h" using g by (rule fan_steps_reachable)
  with h(2) worker_keeps_publisher [OF h(1)] pg show ?case by (intro exI [of _ h]) simp
qed

section \<open>Properties\<close>

text \<open>C3: Publish and subscribe, from end to end. A SUB socket with its subscriptions connects to any number of
  publishers. When every publisher has processed what the socket sent it on connecting, and the connections are whole,
  then as many calls of \<open>recv\<close> as there are copies return, from each publisher, only messages that it published and
  whose first frame begins with one of the subscriptions, in the order in which they were published; and when no
  queue was full, all of these.\<close>

theorem publish_subscribe_delivery:
  assumes "env_ok senv saccepted swritten" and "sinks_work senv" and "sub_reachable senv swritten (b0, w0)"
    and "sb_peers b0 = Map.empty" and "sb_fair_queue b0 = Some queue_new"
    and "distinct (map fst ios)" and "distinct (map (write_half \<circ> snd) ios)"
    and "\<forall>(k, io) \<in> set ios. swritten w0 (write_half io) = []"
    and "fold (\<lambda>(k, io). sub_peer_connected senv k io) ios (b0, w0) = (b, w)"
    and "env_ok env accepted written"
    and "\<forall>(k, io) \<in> set ios. publisher_run env accepted (replay (swritten w (write_half io))) (ms k) (copies k)"
    and "receiver recv_next try_recv pending" and "sink feed flush iter out unflushed"
    and "transport poll_read stream" and "prompt poll_read" and "options_wf opts"
    and "\<forall>(k, io) \<in> set ios. connection True recv_next try_recv pending feed flush iter out unflushed
        poll_read stream opts (data_of (copies k)) (read_half io)"
    and "n = (\<Sum>k \<in> fst ` set ios. length (copies k))" and "n \<le> fuel" and "length ios * Suc n < 2 ^ 64"
  shows "\<exists>ds bw. recv_times n (sub_recv fuel senv (reader_poll poll_read stream wk) cx) (b, w)
        = Some (map (\<lambda>(k, m). Ready (Ok m)) ds, bw)
    \<and> fst ` set ds \<subseteq> fst ` set ios
    \<and> (\<forall>k \<in> fst ` set ios. subseq (from_peer k ds) (filter (topic_match (subs b0)) (ms k))
        \<and> (has_room env \<longrightarrow> from_peer k ds = filter (topic_match (subs b0)) (ms k)))"
proof -
  have fresh: "\<forall>(k, io) \<in> set ios. write_half io \<notin> ran (sb_peers b0) \<and> swritten w0 (write_half io) = []"
    using assms(4,8) by simp
  note j = sub_join_all [OF assms(1,2) sub_reachable_in_sync [OF assms(3,1)] assms(6,7) fresh assms(9)]
  have held: "\<exists>xs. copies k = map Message_Message xs \<and> subseq xs (filter (topic_match (subs b0)) (ms k))
      \<and> (has_room env \<longrightarrow> xs = filter (topic_match (subs b0)) (ms k))" if k: "k \<in> fst ` set ios" for k
  proof -
    from k obtain io where io: "(k, io) \<in> set ios" by auto
    with j have "write_half io \<in> ran (sb_peers b)" by (auto intro: ranI)
    with j have "set (replay (swritten w (write_half io))) = subs b0" by (simp add: in_sync_def)
    with publisher_copies [OF assms(10), of "replay (swritten w (write_half io))" "ms k" "copies k"] assms(11) io
    show ?thesis by auto
  qed
  then have data: "copies k = map Message_Message (data_of (copies k))" if "k \<in> fst ` set ios" for k using that by force
  have n: "n = (\<Sum>k \<in> fst ` set ios. length (data_of (copies k)))"
    unfolding assms(18) by (rule sum.cong) (simp_all add: data [symmetric], metis data length_map)
  have "\<forall>(k, io) \<in> set ios. reader_complete poll_read stream (read_half io) \<and> (\<forall>bw. sub_admits senv io bw)
      \<and> reader_content stream (read_half io) = map Message_Message (data_of (copies k))"
    using assms(15,17) connection_content(3) [OF assms(12-14,16)] sinks_work_subscriptions [OF assms(2)]
    by (fastforce simp: sub_admits_def)
  moreover have "sound_streams sb_fair_queue (\<lambda>b. dom (sb_peers b)) (\<lambda>b. True) (reader_complete poll_read stream) b0"
    using assms(5) by (simp add: sound_streams_def owns_streams_def peer_stream_def queue_new_def)
  ultimately have "\<exists>ds bw. recv_times n (sub_recv fuel senv (reader_poll poll_read stream wk) cx) (b, w)
        = Some (map (\<lambda>(k, m). Ready (Ok m)) ds, bw)
      \<and> (\<forall>k. from_peer k ds = (if k \<in> fst ` set ios then data_of (copies k) else []))"
    unfolding assms(9) [symmetric] sub_recv_def [abs_def] sub_poll_item_def
    by (intro sj.recv_joined [OF _ assms(5,6) _ assms(20) n assms(19)])
  then obtain ds bw where ds: "recv_times n (sub_recv fuel senv (reader_poll poll_read stream wk) cx) (b, w)
        = Some (map (\<lambda>(k, m). Ready (Ok m)) ds, bw)"
    "\<And>k. from_peer k ds = (if k \<in> fst ` set ios then data_of (copies k) else [])" by blast
  have "k \<in> fst ` set ios" if "k \<in> fst ` set ds" for k
  proof (rule ccontr)
    assume "k \<notin> fst ` set ios"
    with ds(2) [of k] that show False by (auto simp: from_peer_def filter_empty_conv)
  qed
  moreover have "subseq (from_peer k ds) (filter (topic_match (subs b0)) (ms k))
      \<and> (has_room env \<longrightarrow> from_peer k ds = filter (topic_match (subs b0)) (ms k))" if "k \<in> fst ` set ios" for k
    using held [OF that] ds(2) [of k] that by (metis data_of_messages)
  ultimately show ?thesis using ds(1) by blast
qed

text \<open>A subscription to 7, and a publisher of a message with and one without it.\<close>

theorem publish_subscribe_delivery_witness:
  "\<exists>s b w ds bw. fold (\<lambda>(k, io). sub_peer_connected (sample_env [] []) k io) [([1], \<lparr> read_half = s, write_half = 3 \<rparr>)]
        (remember_subscription [7] (sub_with_options options_default), (\<lambda>_. [], \<lambda>_. [], 0)) = (b, w)
    \<and> recv_times 1 (sub_recv 1 (sample_env [] []) (reader_poll eager_poll_read (\<lambda>r. r) (\<lambda>_. False)) 0) (b, w)
        = Some (map (\<lambda>(k, m). Ready (Ok m)) ds, bw)
    \<and> from_peer [1] ds = [\<lparr> frames = [[7]] \<rparr>]"
proof -
  let ?env = "sample_env [] []" and ?w = "(\<lambda>_. [], \<lambda>_. [], 0) :: (nat \<Rightarrow> message list) \<times> (nat \<Rightarrow> message list) \<times> nat"
  let ?m7 = "\<lparr> frames = [[7]] \<rparr> :: zmq_message" and ?m9 = "\<lparr> frames = [[9]] \<rparr> :: zmq_message"
  let ?wr = "\<lambda>w :: (nat \<Rightarrow> message list) \<times> (nat \<Rightarrow> message list) \<times> nat. fst (snd w)"
  let ?b0 = "remember_subscription [7] (sub_with_options options_default)"
  let ?conn = "connection True sample_recv sample_recv (\<lambda>q. q) (sample_feed (\<lambda>_. [])) sample_flush (\<lambda>_. []) fst snd
      eager_poll_read (\<lambda>r. r) options_default"
  obtain s where s: "?conn [?m7] s" using sample_connection by blast
  define b0 where "b0 = (?b0 :: bytes framed_read sub_backend)"
  have b0: "sb_peers b0 = Map.empty" "subs b0 = {[7]}" "sb_fair_queue b0 = Some queue_new"
    by (simp_all add: b0_def remember_subscription_def sub_with_options_def sub_backend_with_options_def)
  have "sub_subscribe ?env [7] (sub_with_options options_default, ?w) = (Ok (), b0, ?w)"
    by (simp add: sub_subscribe_def broadcast_subscription_def broadcast_message_reliably_def broadcast_control_message_def
        targets_of_def b0_def [symmetric] b0)
  then have r: "sub_reachable ?env ?wr (b0, ?w)"
    by (rule sub_reachable.subscribe [OF sub_reachable.start, rotated])
      (simp add: sub_with_options_def sub_backend_with_options_def)
  let ?ios = "[([1 :: byte], \<lparr> read_half = s, write_half = 3 \<rparr>)]"
  define w where "w = snd (sub_peer_connected ?env [1] \<lparr> read_half = s, write_half = 3 \<rparr> (b0, ?w))"
  define b where "b = fst (sub_peer_connected ?env [1] \<lparr> read_half = s, write_half = 3 \<rparr> (b0, ?w))"
  have join: "fold (\<lambda>(k, io). sub_peer_connected ?env k io) ?ios (b0, ?w) = (b, w)" by (simp add: w_def b_def)
  have sent: "?wr w 3 = [sub_message 1 [7]]"
    by (simp add: w_def sub_peer_connected_def sub_connect_with_def subscription_messages_def b0)
  obtain f where f: "reachable 1 f" "published f = [?m7, ?m9]" "fan_queue f = []" using publish_and_drain [of 1] by auto
  then have fo: "fanned_out f = [?m7, ?m9]" using reachable_inv [OF f(1)] by (simp add: fan_inv_def)
  define pb where "pb = pub_new options_default \<lparr> subscribers := [[4] \<mapsto> \<lparr> subscriptions = [[7]], sub_queue = 0 \<rparr>], subscriber_count := 1 \<rparr>"
  have pb: "pub_wf pb" "own_queues pb" "subscribers pb [4] = Some \<lparr> subscriptions = [[7]], sub_queue = 0 \<rparr>"
    by (auto simp: pb_def pub_wf_def own_queues_def split: if_splits)
  have "fst (fold (\<lambda>m. pub_fanout_message ?env m pb) (fanned_out f) ?w) 0 = [Message_Message ?m7]"
    by (simp add: fo pub_fanout_message_def msg_get_def pb_def subscription_matches_def filter_matches_def send_to_subscriber_def)
  with pb f have run: "publisher_run ?env fst (replay (?wr w 3)) [?m7, ?m9] [Message_Message ?m7]"
    unfolding publisher_run_def sent replay_def
    by (intro exI [of _ pb] exI [of _ "[4]"] exI [of _ "\<lparr> subscriptions = [[7]], sub_queue = 0 \<rparr>"] exI [of _ ?w] exI [of _ 1] exI [of _ f]) simp
  have "sinks_work ?env" by (auto simp: sinks_work_def sample_env_def split: prod.splits)
  note t = publish_subscribe_delivery [where ios = ?ios and ms = "\<lambda>_. [?m7, ?m9]" and copies = "\<lambda>_. [Message_Message ?m7]"
      and n = 1 and fuel = 1 and wk = "\<lambda>_. False" and cx = 0, OF sample_env_ok this r b0(1,3)]
  have side: "distinct (map fst ?ios)" "distinct (map (write_half \<circ> snd) ?ios)" "\<forall>(k, io) \<in> set ?ios. ?wr ?w (write_half io) = []"
    "\<forall>(k, io) \<in> set ?ios. publisher_run ?env fst (replay (?wr w (write_half io))) [?m7, ?m9] [Message_Message ?m7]"
    "\<forall>(k, io) \<in> set ?ios. ?conn (data_of [Message_Message ?m7]) (read_half io)"
    "1 = (\<Sum>k \<in> fst ` set ?ios. length [Message_Message ?m7])" "(1 :: nat) \<le> 1" "length ?ios * Suc 1 < 2 ^ 64"
    using run s by simp_all
  note t = t [OF side(1-3) join sample_env_ok side(4) sample_writer(1) sample_writer(2) eager_transport eager_prompt
      options_default_wf side(5-8)]
  have "\<forall>h m w. fst (try_send ?env h m w) = TrySent" by (simp add: sample_env_def split: prod.splits)
  with t have "\<exists>ds bw. recv_times 1 (sub_recv 1 ?env (reader_poll eager_poll_read (\<lambda>r. r) (\<lambda>_. False)) 0) (b, w)
        = Some (map (\<lambda>(k, m). Ready (Ok m)) ds, bw) \<and> from_peer [1] ds = filter (topic_match {[7]}) [?m7, ?m9]"
    unfolding b0(2) by (elim exE conjE) (intro exI conjI, assumption, simp only: list.set image_insert fst_conv insert_iff ball_simps simp_thms)
  moreover have "filter (topic_match {[7]}) [?m7, ?m9] = [?m7]" by (simp add: topic_match_def msg_get_def)
  ultimately show ?thesis using join unfolding b0_def by metis
qed

end
