(* ===== verification/Peer_Cache.thy ===== *)
theory Peer_Cache
  imports Generic_Backend
begin

text \<open>
  \<open>refresh_single_peer_cache\<close> of \<open>src/backend.rs\<close> under concurrency. Connections are accepted and lost by different
  tasks, and each of them changes the peer map and then refreshes the cache of the only peer in several steps: it
  reads the number of peers, stores it, takes the lock of the cache, reads an entry of the map, writes the cache and
  gives the lock back. \<open>Generic_Backend\<close> has the refresh as one step; here its steps interleave.
\<close>

section \<open>The steps\<close>

text \<open>What a task does to the peer map: \<open>upsert_async\<close> in \<open>peer_connected\<close>, \<open>remove_sync\<close> in
  \<open>peer_disconnected\<close>.\<close>

datatype peer_change = Upsert peer_identity nat | Remove peer_identity

fun apply_change :: "peer_change \<Rightarrow> (peer_identity \<rightharpoonup> nat) \<Rightarrow> peer_identity \<rightharpoonup> nat" where
  "apply_change (Upsert p q) m = m(p \<mapsto> q)"
| "apply_change (Remove p) m = m(p := None)"

text \<open>Where a task is: before its change of the map, before \<open>peers.len()\<close>, before the store of the count, before the
  lock, before the write to the cache (holding the lock), done.\<close>

datatype refresh_pc =
    Changing peer_change | Counting | Storing nat | Locking nat | Writing "(peer_identity \<times> nat) option" | Finished

record 's cache_system =
  sys_backend :: "'s generic_backend"
  cache_lock :: "nat option"
  task_pc :: "nat \<Rightarrow> refresh_pc"

text \<open>A step of task \<open>t\<close>. \<open>begin_sync\<close> yields some entry of the map, if there is one.\<close>

inductive cache_step :: "nat \<Rightarrow> 's cache_system \<Rightarrow> 's cache_system \<Rightarrow> bool" for t where
  change: "task_pc s t = Changing c
    \<Longrightarrow> cache_step t s (s \<lparr> sys_backend := (sys_backend s) \<lparr> peers := apply_change c (peers (sys_backend s)) \<rparr>,
          task_pc := (task_pc s)(t := Counting) \<rparr>)"
| count: "task_pc s t = Counting
    \<Longrightarrow> cache_step t s (s \<lparr> task_pc := (task_pc s)(t := Storing (card (dom (peers (sys_backend s))))) \<rparr>)"
| store: "task_pc s t = Storing n
    \<Longrightarrow> cache_step t s (s \<lparr> sys_backend := (sys_backend s) \<lparr> peer_count := n \<rparr>,
          task_pc := (task_pc s)(t := Locking n) \<rparr>)"
| lock_entry: "task_pc s t = Locking n \<Longrightarrow> cache_lock s = None \<Longrightarrow> n = 1 \<Longrightarrow> peers (sys_backend s) k = Some q
    \<Longrightarrow> cache_step t s (s \<lparr> cache_lock := Some t, task_pc := (task_pc s)(t := Writing (Some (k, q))) \<rparr>)"
| lock_none: "task_pc s t = Locking n \<Longrightarrow> cache_lock s = None \<Longrightarrow> n \<noteq> 1 \<or> peers (sys_backend s) = Map.empty
    \<Longrightarrow> cache_step t s (s \<lparr> cache_lock := Some t, task_pc := (task_pc s)(t := Writing None) \<rparr>)"
| write_cache: "task_pc s t = Writing v \<Longrightarrow> cache_lock s = Some t
    \<Longrightarrow> cache_step t s (s \<lparr> sys_backend := (sys_backend s) \<lparr> single_peer := v \<rparr>, cache_lock := None,
          task_pc := (task_pc s)(t := Finished) \<rparr>)"

text \<open>A run, with the tasks that made its steps.\<close>

inductive cache_run :: "'s cache_system \<Rightarrow> nat list \<Rightarrow> 's cache_system \<Rightarrow> bool" where
  nil: "cache_run s [] s"
| cons: "cache_step t s s1 \<Longrightarrow> cache_run s1 ts s2 \<Longrightarrow> cache_run s (t # ts) s2"

inductive_cases cache_run_NilE [elim!]: "cache_run s [] s'"
inductive_cases cache_run_ConsE [elim!]: "cache_run s (t # ts) s'"

section \<open>A task that runs alone\<close>

text \<open>The value of the cache that belongs to a map.\<close>

definition cache_for :: "(peer_identity \<rightharpoonup> nat) \<Rightarrow> (peer_identity \<times> nat) option \<Rightarrow> bool" where
  "cache_for m v \<longleftrightarrow> (\<forall>k q. v = Some (k, q) \<longleftrightarrow> m = [k \<mapsto> q])"

lemma cache_ok_for: "cache_ok b \<longleftrightarrow> peer_count b = card (dom (peers b)) \<and> cache_for (peers b) (single_peer b)"
  by (simp add: cache_ok_def cache_for_def)

lemma cache_for_entry:
  assumes "card (dom m) = 1" and "m k = Some q"
  shows "cache_for m (Some (k, q))"
proof -
  from assms(1) obtain l where "dom m = {l}" by (auto simp: card_1_singleton_iff)
  with assms(2) have "dom m = {k}" by auto
  with assms(2) have "m = [k \<mapsto> q]" by (simp add: singleton_map_iff)
  then show ?thesis by (auto simp: cache_for_def singleton_map_iff)
qed

lemma cache_for_none: "card (dom m) \<noteq> 1 \<or> m = Map.empty \<Longrightarrow> cache_for m None"
  by (auto simp: cache_for_def singleton_map_iff)

text \<open>What holds of task \<open>t\<close> while nobody else moves; \<open>m\<close> is the map that its change makes.\<close>

fun on_course :: "(peer_identity \<rightharpoonup> nat) \<Rightarrow> 's generic_backend \<Rightarrow> nat option \<Rightarrow> nat \<Rightarrow> refresh_pc \<Rightarrow> bool" where
  "on_course m b l t (Changing c) \<longleftrightarrow> l = None \<and> apply_change c (peers b) = m"
| "on_course m b l t Counting \<longleftrightarrow> l = None \<and> peers b = m"
| "on_course m b l t (Storing n) \<longleftrightarrow> l = None \<and> peers b = m \<and> n = card (dom m)"
| "on_course m b l t (Locking n) \<longleftrightarrow> l = None \<and> peers b = m \<and> n = card (dom m) \<and> peer_count b = n"
| "on_course m b l t (Writing v) \<longleftrightarrow> l = Some t \<and> peers b = m \<and> peer_count b = card (dom m) \<and> cache_for m v"
| "on_course m b l t Finished \<longleftrightarrow> l = None \<and> peers b = m \<and> cache_ok b"

abbreviation task_on_course :: "(peer_identity \<rightharpoonup> nat) \<Rightarrow> nat \<Rightarrow> 's cache_system \<Rightarrow> bool" where
  "task_on_course m t s \<equiv> on_course m (sys_backend s) (cache_lock s) t (task_pc s t)"

lemma on_course_step:
  assumes "cache_step t s s'" and "task_on_course m t s"
  shows "task_on_course m t s'"
  using assms by cases (auto simp: cache_ok_for cache_for_entry intro: cache_for_none)

lemma on_course_run:
  assumes "cache_run s ts s'" and "set ts \<subseteq> {t}" and "task_on_course m t s"
  shows "task_on_course m t s'"
  using assms by (induction rule: cache_run.induct) (auto dest: on_course_step)

text \<open>Such a task is never stuck, and is done after five steps.\<close>

fun steps_left :: "refresh_pc \<Rightarrow> nat" where
  "steps_left (Changing c) = 5"
| "steps_left Counting = 4"
| "steps_left (Storing n) = 3"
| "steps_left (Locking n) = 2"
| "steps_left (Writing v) = 1"
| "steps_left Finished = 0"

lemma on_course_progress:
  assumes "task_on_course m t s" and "task_pc s t \<noteq> Finished"
  shows "\<exists>s'. cache_step t s s' \<and> Suc (steps_left (task_pc s' t)) = steps_left (task_pc s t)"
proof (cases "task_pc s t")
  case (Locking n)
  then have l: "cache_lock s = None" using assms(1) by simp
  show ?thesis
  proof (cases "n = 1 \<and> peers (sys_backend s) \<noteq> Map.empty")
    case True
    then obtain k q where "peers (sys_backend s) k = Some q" by (meson ext option.exhaust)
    from cache_step.lock_entry [OF Locking l _ this] True Locking show ?thesis by fastforce
  next
    case False
    with cache_step.lock_none [OF Locking l] Locking show ?thesis by fastforce
  qed
qed (use assms in \<open>force intro: cache_step.intros\<close>)+

lemma on_course_finishes:
  assumes "task_on_course m t s"
  shows "\<exists>s'. cache_run s (replicate (steps_left (task_pc s t)) t) s' \<and> task_pc s' t = Finished"
  using assms
proof (induction "steps_left (task_pc s t)" arbitrary: s)
  case 0
  then show ?case by (cases "task_pc s t") (auto intro: cache_run.nil)
next
  case (Suc n)
  then have "task_pc s t \<noteq> Finished" by auto
  from on_course_progress [OF Suc.prems this] obtain s1 where
    s1: "cache_step t s s1" "Suc (steps_left (task_pc s1 t)) = steps_left (task_pc s t)" by blast
  with Suc.hyps(2) have n: "n = steps_left (task_pc s1 t)" by simp
  from Suc.hyps(1) [OF n on_course_step [OF s1(1) Suc.prems]] obtain s' where
    "cache_run s1 (replicate n t) s'" "task_pc s' t = Finished" using n by auto
  with s1 n show ?case by (metis cache_run.cons replicate_Suc)
qed

section \<open>Properties\<close>

text \<open>C22: The cache heals: whatever state earlier interleavings have left the count and the cache in, a task that
  connects or disconnects a peer while nobody else does, with the lock of the cache free, finishes in five steps, and
  then the cache agrees with the peer map, which has changed as that task says.\<close>

theorem peer_cache_heals:
  assumes "task_pc s t = Changing c" and "cache_lock s = None"
  shows "(\<exists>s'. cache_run s (replicate 5 t) s' \<and> task_pc s' t = Finished)
    \<and> (\<forall>ts s'. cache_run s ts s' \<and> set ts \<subseteq> {t} \<and> task_pc s' t = Finished \<longrightarrow>
        cache_ok (sys_backend s') \<and> peers (sys_backend s') = apply_change c (peers (sys_backend s)))"
proof -
  have start: "task_on_course (apply_change c (peers (sys_backend s))) t s" using assms by simp
  show ?thesis
    using on_course_finishes [OF start] assms(1) on_course_run [OF _ _ start]
    by (auto simp: numeral_eq_Suc dest: on_course_run [OF _ _ start])
qed

theorem peer_cache_heals_witness:
  "\<exists>s'. cache_run \<lparr> sys_backend = (generic_with_options None PUSH options_default :: unit generic_backend)
        \<lparr> peers := [[1] \<mapsto> 0], peer_count := 7, single_peer := Some ([9], 3) \<rparr>,
      cache_lock = None, task_pc = (\<lambda>_. Finished)(0 := Changing (Upsert [2] 1)) \<rparr> (replicate 5 0) s'
    \<and> cache_ok (sys_backend s') \<and> peers (sys_backend s') = [[1] \<mapsto> 0, [2] \<mapsto> 1]"
proof -
  define s :: "unit cache_system" where "s = \<lparr> sys_backend = (generic_with_options None PUSH options_default :: unit generic_backend)
        \<lparr> peers := [[1] \<mapsto> 0], peer_count := 7, single_peer := Some ([9], 3) \<rparr>,
      cache_lock = None, task_pc = (\<lambda>_. Finished)(0 := Changing (Upsert [2] 1)) \<rparr>"
  have "task_pc s 0 = Changing (Upsert [2] 1)" "cache_lock s = None" "peers (sys_backend s) = [[1] \<mapsto> 0]"
    by (simp_all add: s_def)
  with peer_cache_heals [of s 0 "Upsert [2] 1"] show ?thesis unfolding s_def [symmetric] by fastforce
qed

text \<open>While an entry is cached, all messages go to it.\<close>

lemma send_all_cached:
  assumes "env_ok env accepted written" and "\<And>h m w. fst (send_to_peer_queue env h m w)"
    and "cached_target None b = Some (k, q)"
  shows "\<exists>w'. send_all env ms (b, w) = (replicate (length ms) (Ok ()), b, w')
    \<and> accepted w' = (accepted w)(q := accepted w q @ ms)"
proof (induction ms arbitrary: w)
  case (Cons m ms)
  obtain w1 where w1: "send_to_peer_queue env q m w = (True, w1)" using assms(2) [of q m w] by (metis prod.collapse)
  then have "send_round_robin env m (b, w) = (Ok (), b, w1)" by (simp add: send_round_robin_eq assms(3))
  with Cons.IH [of w1] send_to_peer_queue_accepted [OF assms(1) w1] show ?case by (auto simp: fun_eq_iff)
qed simp

text \<open>The schedule: the first task changes the map and counts, the second runs to its end, the first goes on.\<close>

lemma race_run:
  assumes "p1 \<noteq> p2" and "t1 \<noteq> t2" and "peers (sys_backend s) = Map.empty" and "cache_lock s = None"
    and "task_pc s t1 = Changing (Upsert p1 q1)" and "task_pc s t2 = Changing (Upsert p2 q2)"
  shows "cache_run s [t1, t1, t2, t2, t2, t2, t2, t1, t1, t1]
    (s \<lparr> sys_backend := (sys_backend s) \<lparr> peers := [p1 \<mapsto> q1, p2 \<mapsto> q2], peer_count := 1, single_peer := Some (p1, q1) \<rparr>,
        cache_lock := None, task_pc := (task_pc s)(t1 := Finished, t2 := Finished) \<rparr>)" (is "cache_run s _ ?s10")
proof -
  let ?b = "sys_backend s" and ?pc = "task_pc s"
  define s1 where "s1 = s \<lparr> sys_backend := ?b \<lparr> peers := [p1 \<mapsto> q1] \<rparr>, task_pc := ?pc(t1 := Counting) \<rparr>"
  define s2 where "s2 = s1 \<lparr> task_pc := ?pc(t1 := Storing 1) \<rparr>"
  define s3 where "s3 = s2 \<lparr> sys_backend := ?b \<lparr> peers := [p1 \<mapsto> q1, p2 \<mapsto> q2] \<rparr>,
    task_pc := ?pc(t1 := Storing 1, t2 := Counting) \<rparr>"
  define s4 where "s4 = s3 \<lparr> task_pc := ?pc(t1 := Storing 1, t2 := Storing 2) \<rparr>"
  define s5 where "s5 = s4 \<lparr> sys_backend := ?b \<lparr> peers := [p1 \<mapsto> q1, p2 \<mapsto> q2], peer_count := 2 \<rparr>,
    task_pc := ?pc(t1 := Storing 1, t2 := Locking 2) \<rparr>"
  define s6 where "s6 = s5 \<lparr> cache_lock := Some t2, task_pc := ?pc(t1 := Storing 1, t2 := Writing None) \<rparr>"
  define s7 where "s7 = s6 \<lparr> sys_backend := ?b \<lparr> peers := [p1 \<mapsto> q1, p2 \<mapsto> q2], peer_count := 2, single_peer := None \<rparr>,
    cache_lock := None, task_pc := ?pc(t1 := Storing 1, t2 := Finished) \<rparr>"
  define s8 where "s8 = s7 \<lparr> sys_backend := ?b \<lparr> peers := [p1 \<mapsto> q1, p2 \<mapsto> q2], single_peer := None, peer_count := 1 \<rparr>,
    task_pc := ?pc(t1 := Locking 1, t2 := Finished) \<rparr>"
  define s9 where "s9 = s8 \<lparr> cache_lock := Some t1, task_pc := ?pc(t1 := Writing (Some (p1, q1)), t2 := Finished) \<rparr>"
  note defs = s1_def s2_def s3_def s4_def s5_def s6_def s7_def s8_def s9_def
  have "cache_step t1 s s1" using cache_step.change [of s t1] assms by (simp add: defs)
  moreover have "cache_step t1 s1 s2" using cache_step.count [of s1 t1] assms by (simp add: defs)
  moreover have "cache_step t2 s2 s3" using cache_step.change [of s2 t2] assms by (simp add: defs fun_upd_twist)
  moreover have "cache_step t2 s3 s4" using cache_step.count [of s3 t2] assms by (simp add: defs numeral_2_eq_2)
  moreover have "cache_step t2 s4 s5" using cache_step.store [of s4 t2] assms by (simp add: defs)
  moreover have "cache_step t2 s5 s6" using cache_step.lock_none [of s5 t2] assms by (simp add: defs)
  moreover have "cache_step t2 s6 s7" using cache_step.write_cache [of s6 t2] assms by (simp add: defs)
  moreover have "cache_step t1 s7 s8" using cache_step.store [of s7 t1] assms by (simp add: defs fun_upd_twist)
  moreover have "cache_step t1 s8 s9" using cache_step.lock_entry [of s8 t1 1 p1 q1] assms by (simp add: defs fun_upd_twist)
  moreover have "cache_step t1 s9 ?s10" using cache_step.write_cache [of s9 t1] assms by (simp add: defs fun_upd_twist)
  ultimately show ?thesis by (meson cache_run.intros)
qed

text \<open>C23: Two connections at the same time can leave the cache wrong: the first task counts one peer, the second adds
  its peer and finishes its refresh, then the first stores its count and caches an entry. Both tasks are done and both
  peers are connected and in the rotation, but the count says one; from then on every message of a PUSH or DEALER
  socket goes to the first peer and none to the second, however many are sent.\<close>

theorem peer_cache_race:
  assumes "p1 \<noteq> p2" and "q1 \<noteq> q2" and "t1 \<noteq> t2" and "env_ok env accepted written"
    and "\<And>h m w. fst (send_to_peer_queue env h m w)"
    and "peers (sys_backend s) = Map.empty" and "cache_lock s = None"
    and "task_pc s t1 = Changing (Upsert p1 q1)" and "task_pc s t2 = Changing (Upsert p2 q2)"
  shows "\<exists>ts s'. cache_run s ts s' \<and> set ts = {t1, t2} \<and> task_pc s' t1 = Finished \<and> task_pc s' t2 = Finished
    \<and> peers (sys_backend s') = [p1 \<mapsto> q1, p2 \<mapsto> q2] \<and> \<not> cache_ok (sys_backend s')
    \<and> (\<forall>ms w. \<exists>w'. send_all env ms (sys_backend s', w) = (replicate (length ms) (Ok ()), sys_backend s', w')
        \<and> accepted w' q1 = accepted w q1 @ ms \<and> accepted w' q2 = accepted w q2)"
proof -
  define b' where "b' = (sys_backend s) \<lparr> peers := [p1 \<mapsto> q1, p2 \<mapsto> q2], peer_count := 1, single_peer := Some (p1, q1) \<rparr>"
  have "cached_target None b' = Some (p1, q1)" by (simp add: b'_def cached_target_def)
  note sends = send_all_cached [OF assms(4,5) this]
  have "\<exists>w'. send_all env ms (b', w) = (replicate (length ms) (Ok ()), b', w')
      \<and> accepted w' q1 = accepted w q1 @ ms \<and> accepted w' q2 = accepted w q2" for ms w
    using sends [of ms w] assms(2) by auto
  moreover have "\<not> cache_ok b'" "peers b' = [p1 \<mapsto> q1, p2 \<mapsto> q2]" using assms(1) by (auto simp: b'_def cache_ok_def)
  ultimately show ?thesis using race_run [OF assms(1,3,6-9), folded b'_def] assms(3)
    by (intro exI [of _ "[t1, t1, t2, t2, t2, t2, t2, t1, t1, t1]"]
        exI [of _ "s \<lparr> sys_backend := b', cache_lock := None, task_pc := (task_pc s)(t1 := Finished, t2 := Finished) \<rparr>"]) auto
qed

theorem peer_cache_race_witness:
  "let s = \<lparr> sys_backend = (generic_with_options None PUSH options_default :: unit generic_backend) \<lparr> round_robin := [[1], [2]] \<rparr>,
         cache_lock = None, task_pc = (\<lambda>_. Finished)(0 := Changing (Upsert [1] 0), 1 := Changing (Upsert [2] 1)) \<rparr>;
       m = Message_Message \<lparr> frames = [[42]] \<rparr>
   in \<exists>ts s' w'. cache_run s ts s' \<and> peers (sys_backend s') = [[1] \<mapsto> 0, [2] \<mapsto> 1] \<and> \<not> cache_ok (sys_backend s')
     \<and> send_all (sample_env [] []) [m, m, m] (sys_backend s', (\<lambda>_. [], \<lambda>_. [], 2)) = ([Ok (), Ok (), Ok ()], sys_backend s', w')
     \<and> fst w' 0 = [m, m, m] \<and> fst w' 1 = []"
proof -
  define s :: "unit cache_system" where "s = \<lparr> sys_backend = (generic_with_options None PUSH options_default :: unit generic_backend)
      \<lparr> round_robin := [[1], [2]] \<rparr>,
    cache_lock = None, task_pc = (\<lambda>_. Finished)(0 := Changing (Upsert [1] 0), 1 := Changing (Upsert [2] 1)) \<rparr>"
  define m where "m = Message_Message \<lparr> frames = [[42]] \<rparr>"
  let ?w = "(\<lambda>_. [], \<lambda>_. [], 2) :: (nat \<Rightarrow> message list) \<times> (nat \<Rightarrow> message list) \<times> nat"
  have ok: "fst (send_to_peer_queue (sample_env [] []) h m w)" for h m w by (cases w) (simp add: send_to_peer_queue_def)
  have "peers (sys_backend s) = Map.empty" "cache_lock s = None"
    "task_pc s 0 = Changing (Upsert [1] 0)" "task_pc s 1 = Changing (Upsert [2] 1)"
    by (simp_all add: s_def generic_with_options_def)
  from peer_cache_race [OF _ _ _ sample_env_ok ok this] obtain ts s' where
    r: "cache_run s ts s'" "peers (sys_backend s') = [[1] \<mapsto> 0, [2] \<mapsto> 1]" "\<not> cache_ok (sys_backend s')"
    and send: "\<forall>ms w. \<exists>w'. send_all (sample_env [] []) ms (sys_backend s', w)
        = (replicate (length ms) (Ok ()), sys_backend s', w') \<and> fst w' 0 = fst w 0 @ ms \<and> fst w' 1 = fst w 1" by auto
  from send [rule_format, of "[m, m, m]" ?w] obtain w' where
    "send_all (sample_env [] []) [m, m, m] (sys_backend s', ?w) = ([Ok (), Ok (), Ok ()], sys_backend s', w')"
    "fst w' 0 = [m, m, m]" "fst w' 1 = []" by (auto simp: eval_nat_numeral)
  with r show ?thesis unfolding Let_def s_def [symmetric] m_def [symmetric] by blast
qed

end
