(* ===== verification/Send_Future.thy ===== *)
theory Send_Future
  imports Generic_Backend
begin

text \<open>
  \<open>send_round_robin\<close> of \<open>src/backend.rs\<close> as the future that it is. It can be suspended where it awaits the entry of a
  peer or room in a peer's queue, and the caller can drop it there, for example when a time-out has elapsed: the
  state then stays as the last step left it. \<open>Generic_Backend\<close> has the function without interruption; the steps here
  implement it (\<open>send_steps_refine\<close>), and show what a dropped send leaves behind.
\<close>

section \<open>The steps\<close>

text \<open>Where the future is: before its first poll, waiting for room in the queue of the cached peer, at the head of the
  loop, waiting for the entry of a peer, waiting for room in the peer's queue, finished.\<close>

datatype send_pc =
    SendStart message
  | CachedWait peer_identity nat message
  | NextPeer message
  | GetPeer peer_identity message
  | QueueWait peer_identity nat message
  | SendDone "unit zmq_result"

inductive send_step ::
    "'w env \<Rightarrow> send_pc \<times> 's generic_backend \<times> 'w \<Rightarrow> send_pc \<times> 's generic_backend \<times> 'w \<Rightarrow> bool" for env where
  cached_sent: "try_send_cached_single_peer env m None (b, w) = (Sent, w')
    \<Longrightarrow> send_step env (SendStart m, b, w) (SendDone (Ok ()), b, w')"
| cached_full: "try_send_cached_single_peer env m None (b, w) = (Full k q m', w')
    \<Longrightarrow> send_step env (SendStart m, b, w) (CachedWait k q m', b, w')"
| cached_closed: "try_send_cached_single_peer env m None (b, w) = (CachedDisconnected k, w')
    \<Longrightarrow> send_step env (SendStart m, b, w) (SendDone (Err send_error), generic_peer_disconnected env k (b, w'))"
| cached_miss: "try_send_cached_single_peer env m None (b, w) = (Miss m', w')
    \<Longrightarrow> send_step env (SendStart m, b, w) (NextPeer m', b, w')"
| cached_room: "send env q m w = (True, w') \<Longrightarrow> send_step env (CachedWait k q m, b, w) (SendDone (Ok ()), b, w')"
| cached_gone: "send env q m w = (False, w')
    \<Longrightarrow> send_step env (CachedWait k q m, b, w) (SendDone (Err send_error), generic_peer_disconnected env k (b, w'))"
| no_peer: "round_robin b = [] \<Longrightarrow> send_step env (NextPeer m, b, w) (SendDone (Err (not_connected m)), b, w)"
| pop: "round_robin b = k # rest \<Longrightarrow> send_step env (NextPeer m, b, w) (GetPeer k m, b \<lparr> round_robin := rest \<rparr>, w)"
| stale: "peers b k = None \<Longrightarrow> send_step env (GetPeer k m, b, w) (NextPeer m, b, w)"
| sent: "peers b k = Some q \<Longrightarrow> try_send env q m w = (TrySent, w')
    \<Longrightarrow> send_step env (GetPeer k m, b, w) (SendDone (Ok ()), b \<lparr> round_robin := round_robin b @ [k] \<rparr>, w')"
| full: "peers b k = Some q \<Longrightarrow> try_send env q m w = (TryFull m', w')
    \<Longrightarrow> send_step env (GetPeer k m, b, w) (QueueWait k q m', b, w')"
| closed: "peers b k = Some q \<Longrightarrow> try_send env q m w = (TryClosed, w')
    \<Longrightarrow> send_step env (GetPeer k m, b, w) (SendDone (Err send_error), generic_peer_disconnected env k (b, w'))"
| room: "send env q m w = (True, w')
    \<Longrightarrow> send_step env (QueueWait k q m, b, w) (SendDone (Ok ()), b \<lparr> round_robin := round_robin b @ [k] \<rparr>, w')"
| gone: "send env q m w = (False, w')
    \<Longrightarrow> send_step env (QueueWait k q m, b, w) (SendDone (Err send_error), generic_peer_disconnected env k (b, w'))"

inductive_cases send_stepE: "send_step env s s'"

section \<open>The steps implement the function\<close>

text \<open>What the future will return and leave when it is run to its end.\<close>

fun resume ::
    "'w env \<Rightarrow> send_pc \<times> 's generic_backend \<times> 'w \<Rightarrow> unit zmq_result \<times> 's generic_backend \<times> 'w" where
  "resume env (SendStart m, b, w) = send_round_robin env m (b, w)"
| "resume env (CachedWait k q m, b, w) =
     (case send env q m w of
        (True, w') \<Rightarrow> (Ok (), b, w')
      | (False, w') \<Rightarrow> (Err send_error, generic_peer_disconnected env k (b, w')))"
| "resume env (NextPeer m, b, w) = round_robin_loop env m (round_robin b) (b, w)"
| "resume env (GetPeer k m, b, w) = round_robin_loop env m (k # round_robin b) (b, w)"
| "resume env (QueueWait k q m, b, w) =
     (case send env q m w of
        (True, w') \<Rightarrow> (Ok (), b \<lparr> round_robin := round_robin b @ [k] \<rparr>, w')
      | (False, w') \<Rightarrow> (Err send_error, generic_peer_disconnected env k (b, w')))"
| "resume env (SendDone r, b, w) = (r, b, w)"

lemma resume_done [simp]: "resume env (SendDone r, bw) = (r, bw)"
  by (cases bw) simp

text \<open>The loop overwrites the rotation, so that it does not matter what it was.\<close>

lemma round_robin_loop_irrelevant:
  "round_robin_loop env m rr (b \<lparr> round_robin := xs \<rparr>, w) = round_robin_loop env m rr (b, w)"
  by (induction rr) (auto split: option.splits prod.splits bool.splits)

lemma step_resume: "send_step env s s' \<Longrightarrow> resume env s' = resume env s"
proof (induction rule: send_step.induct)
  case (no_peer b m w)
  then have "b \<lparr> round_robin := [] \<rparr> = b" by simp
  with no_peer show ?case by simp
next
  case (pop b k rest m w)
  then show ?case using round_robin_loop_irrelevant [where b = b and xs = rest and rr = "k # rest"] by (simp del: round_robin_loop.simps)
next
  case (closed b k q m w w')
  then show ?case by (simp add: send_to_peer_queue_def)
qed (simp_all add: send_round_robin_def finish_cached_send_def send_to_peer_queue_def split: prod.splits bool.splits)

lemma steps_resume: "(send_step env)\<^sup>*\<^sup>* s s' \<Longrightarrow> resume env s' = resume env s"
  by (induction rule: rtranclp_induct) (simp_all add: step_resume)

text \<open>A future that is polled until it is ready gets there.\<close>

definition finishes :: "'w env \<Rightarrow> send_pc \<times> 's generic_backend \<times> 'w \<Rightarrow> bool" where
  "finishes env s \<longleftrightarrow> (\<exists>r bw. (send_step env)\<^sup>*\<^sup>* s (SendDone r, bw))"

lemma finishes_done: "finishes env (SendDone r, bw)"
  unfolding finishes_def by blast

lemma finishes_step: "send_step env s s' \<Longrightarrow> finishes env s' \<Longrightarrow> finishes env s"
  unfolding finishes_def by (meson converse_rtranclp_into_rtranclp)

lemma queue_wait_finishes: "finishes env (QueueWait k q m, b, w)" "finishes env (CachedWait k q m, b, w)"
proof -
  obtain ok w' where s: "send env q m w = (ok, w')" by fastforce
  show "finishes env (QueueWait k q m, b, w)"
  proof (cases ok)
    case True
    with s show ?thesis by (intro finishes_step [OF send_step.room finishes_done]) simp
  next
    case False
    with s show ?thesis by (intro finishes_step [OF send_step.gone finishes_done]) simp
  qed
  show "finishes env (CachedWait k q m, b, w)"
  proof (cases ok)
    case True
    with s show ?thesis by (intro finishes_step [OF send_step.cached_room finishes_done]) simp
  next
    case False
    with s show ?thesis by (intro finishes_step [OF send_step.cached_gone finishes_done]) simp
  qed
qed

lemma next_peer_finishes: "finishes env (NextPeer m, b, w)"
proof (induction "round_robin b" arbitrary: b)
  case Nil
  show ?case by (rule finishes_step [OF send_step.no_peer finishes_done]) (simp add: Nil)
next
  case (Cons k rest)
  let ?b = "b \<lparr> round_robin := rest \<rparr>"
  have "finishes env (GetPeer k m, ?b, w)"
  proof (cases "peers ?b k")
    case None
    then show ?thesis by (rule finishes_step [OF send_step.stale]) (rule Cons.hyps(1), simp)
  next
    case (Some q)
    obtain t w1 where t: "try_send env q m w = (t, w1)" by fastforce
    show ?thesis
      by (cases t) (use t Some in \<open>auto intro: finishes_step [OF send_step.sent finishes_done]
        finishes_step [OF send_step.full queue_wait_finishes(1)] finishes_step [OF send_step.closed finishes_done]\<close>)
  qed
  then show ?case by (rule finishes_step [OF send_step.pop, rotated]) (simp add: Cons.hyps(2) [symmetric])
qed

lemma send_finishes: "finishes env (SendStart m, b, w)"
proof -
  obtain c w1 where c: "try_send_cached_single_peer env m None (b, w) = (c, w1)" by fastforce
  show ?thesis
    by (cases c) (use c in \<open>auto intro: finishes_step [OF send_step.cached_sent finishes_done]
      finishes_step [OF send_step.cached_full queue_wait_finishes(2)] finishes_step [OF send_step.cached_closed finishes_done]
      finishes_step [OF send_step.cached_miss next_peer_finishes]\<close>)
qed

section \<open>A send that is dropped\<close>

text \<open>Nothing is disconnected before the send is done, and the peer that is being waited for is out of the rotation.\<close>

definition waiting_inv :: "'s generic_backend \<Rightarrow> send_pc \<times> 's generic_backend \<times> 'w \<Rightarrow> bool" where
  "waiting_inv b0 s = (case s of (pc, b, w) \<Rightarrow>
     case pc of
       SendDone _ \<Rightarrow> True
     | GetPeer k m \<Rightarrow> (\<exists>done. round_robin b0 = done @ k # round_robin b) \<and> b \<lparr> round_robin := [] \<rparr> = b0 \<lparr> round_robin := [] \<rparr>
     | QueueWait k q m \<Rightarrow> (\<exists>done. round_robin b0 = done @ k # round_robin b) \<and> b \<lparr> round_robin := [] \<rparr> = b0 \<lparr> round_robin := [] \<rparr>
         \<and> peers b k = Some q
     | _ \<Rightarrow> (\<exists>done. round_robin b0 = done @ round_robin b) \<and> b \<lparr> round_robin := [] \<rparr> = b0 \<lparr> round_robin := [] \<rparr>)"

lemma step_waiting_inv: "send_step env s s' \<Longrightarrow> waiting_inv b0 s \<Longrightarrow> waiting_inv b0 s'"
  by (induction rule: send_step.induct) (auto simp: waiting_inv_def)

lemma steps_waiting_inv: "(send_step env)\<^sup>*\<^sup>* s s' \<Longrightarrow> waiting_inv b0 s \<Longrightarrow> waiting_inv b0 s'"
  by (induction rule: rtranclp_induct) (auto intro: step_waiting_inv)

lemma waiting_fields:
  assumes "(send_step env)\<^sup>*\<^sup>* (SendStart m, b, w) (QueueWait k q m', b1, w1)"
  shows "peers b1 k = Some q" and "peers b1 = peers b" and "peer_count b1 = peer_count b"
    and "\<exists>done. round_robin b = done @ k # round_robin b1"
proof -
  have "waiting_inv b (SendStart m, b, w)" by (simp add: waiting_inv_def)
  from steps_waiting_inv [OF assms this] have i: "peers b1 k = Some q" "\<exists>done. round_robin b = done @ k # round_robin b1"
    "b1 \<lparr> round_robin := [] \<rparr> = b \<lparr> round_robin := [] \<rparr>" by (simp_all add: waiting_inv_def)
  show "peers b1 k = Some q" "\<exists>done. round_robin b = done @ k # round_robin b1" by (fact i)+
  show "peers b1 = peers b" "peer_count b1 = peer_count b"
    using arg_cong [OF i(3), of peers] arg_cong [OF i(3), of peer_count] by simp_all
qed

lemma round_robin_loop_Ok:
  "round_robin_loop env m rr (b, w) = (Ok u, b', w') \<Longrightarrow> \<exists>rr'. b' = b \<lparr> round_robin := rr' \<rparr> \<and> set rr' \<subseteq> set rr"
proof (induction rr)
  case (Cons k rr)
  then show ?case by (auto split: option.splits prod.splits bool.splits)
qed simp

text \<open>A peer that is connected and not in the rotation gets nothing, as long as the other peers stay.\<close>

lemma send_all_starves:
  assumes "env_ok env accepted written" and "send_all env ms (b, w) = (rs, b', w')" and "set rs \<subseteq> {Ok ()}"
    and "peer_count b \<noteq> 1" and "k \<notin> set (round_robin b)" and "peers b k = Some q" and "inj_on (peers b) (dom (peers b))"
  shows "accepted w' q = accepted w q"
  using assms(2-)
proof (induction ms arbitrary: b w rs)
  case (Cons m ms)
  obtain r b1 w1 where s: "send_round_robin env m (b, w) = (r, b1, w1)" by (metis surj_pair)
  with Cons.prems(1) obtain rs' where rs: "rs = r # rs'" "send_all env ms (b1, w1) = (rs', b', w')"
    by (auto split: prod.splits)
  have "cached_target None b = None" using Cons.prems(3) by (auto simp: cached_target_def split: option.splits)
  with s have loop: "round_robin_loop env m (round_robin b) (b, w) = (r, b1, w1)" by (simp add: send_round_robin_eq)
  have r: "r = Ok ()" using Cons.prems(2) rs(1) by simp
  from round_robin_loop_Ok [OF loop [unfolded r]] obtain rr' where
    b1: "b1 = b \<lparr> round_robin := rr' \<rparr>" "set rr' \<subseteq> set (round_robin b)" by blast
  from round_robin_loop_spec [OF assms(1) loop] r obtain l ql where
    l: "l \<in> set (round_robin b)" "peers b l = Some ql" "accepted w1 = (accepted w)(ql := accepted w ql @ [m])" by auto
  have "ql \<noteq> q"
  proof
    assume "ql = q"
    then have "l = k" using inj_onD [OF Cons.prems(6), of l k] l(2) Cons.prems(5) by auto
    with l(1) Cons.prems(4) show False by simp
  qed
  then have "accepted w1 q = accepted w q" using l(3) by simp
  with Cons.IH [OF rs(2)] Cons.prems rs(1) b1 show ?case by auto
qed simp

section \<open>Properties\<close>


text \<open>C20: A send that is dropped while it waits for room takes its peer out of the rotation. The peer stays connected,
  but it is not in the round robin any more: as long as the other peers stay, no later send reaches it; and when it was
  the last entry of the rotation, the next send is refused as if no peer were connected.\<close>

theorem dropped_send_starves_peer:
  assumes "env_ok env accepted written" and "distinct (round_robin b)" and "peer_count b \<noteq> 1"
    and "inj_on (peers b) (dom (peers b))"
    and "(send_step env)\<^sup>*\<^sup>* (SendStart m, b, w) (QueueWait k q m', b1, w1)"
  shows "peers b1 k = Some q \<and> k \<notin> set (round_robin b1)
    \<and> (\<forall>ms rs b2 w2. send_all env ms (b1, w1) = (rs, b2, w2) \<and> set rs \<subseteq> {Ok ()} \<longrightarrow> accepted w2 q = accepted w1 q)
    \<and> (round_robin b1 = [] \<longrightarrow> fst (send_round_robin env m2 (b1, w1)) = Err (not_connected m2))"
proof -
  note f = waiting_fields [OF assms(5)]
  have k: "k \<notin> set (round_robin b1)" using f(4) assms(2) by auto
  have "cached_target None b1 = None" using assms(3) f(3) by (auto simp: cached_target_def split: option.splits)
  then have "round_robin b1 = [] \<longrightarrow> fst (send_round_robin env m2 (b1, w1)) = Err (not_connected m2)"
    by (simp add: send_round_robin_eq)
  moreover have "accepted w2 q = accepted w1 q" if "send_all env ms (b1, w1) = (rs, b2, w2)" "set rs \<subseteq> {Ok ()}" for ms rs b2 w2
    by (rule send_all_starves [OF assms(1) that]) (use assms(3,4) f k in auto)
  ultimately show ?thesis using f(1) k by blast
qed

text \<open>An environment whose queues are full at first sight and then have room.\<close>

definition slow_env :: "((nat \<Rightarrow> message list) \<times> (nat \<Rightarrow> message list) \<times> nat) env" where
  "slow_env = (sample_env [] []) \<lparr> try_send := (\<lambda>h m w. (TryFull m, w)) \<rparr>"

lemma slow_env_ok: "env_ok slow_env fst (\<lambda>w. fst (snd w))"
  by (auto simp: env_ok_def slow_env_def sample_env_def split: if_splits)

theorem dropped_send_starves_peer_witness:
  "let b = (generic_with_options None PUSH options_default :: unit generic_backend) \<lparr>
             peers := [[1] \<mapsto> 0, [2] \<mapsto> 1], round_robin := [[2], [1]], peer_count := 2 \<rparr>;
       m = Message_Message \<lparr> frames = [[41]] \<rparr>
   in \<exists>b1 w1. (send_step slow_env)\<^sup>*\<^sup>* (SendStart m, b, (\<lambda>_. [], \<lambda>_. [], 2)) (QueueWait [2] 1 m, b1, w1)
        \<and> peers b1 [2] = Some 1 \<and> [2] \<notin> set (round_robin b1)"
proof -
  define b where "b = (generic_with_options None PUSH options_default :: unit generic_backend) \<lparr>
    peers := [[1] \<mapsto> 0, [2] \<mapsto> 1], round_robin := [[2], [1]], peer_count := 2 \<rparr>"
  define m where "m = Message_Message \<lparr> frames = [[41]] \<rparr>"
  let ?w = "(\<lambda>_. [], \<lambda>_. [], 2) :: (nat \<Rightarrow> message list) \<times> (nat \<Rightarrow> message list) \<times> nat"
  let ?b1 = "b \<lparr> round_robin := [[1]] \<rparr>"
  have 1: "send_step slow_env (SendStart m, b, ?w) (NextPeer m, b, ?w)"
    by (rule send_step.cached_miss) (simp add: try_send_cached_single_peer_def b_def)
  have 2: "send_step slow_env (NextPeer m, b, ?w) (GetPeer [2] m, ?b1, ?w)" by (rule send_step.pop) (simp add: b_def)
  have 3: "send_step slow_env (GetPeer [2] m, ?b1, ?w) (QueueWait [2] 1 m, ?b1, ?w)"
    by (rule send_step.full) (simp_all add: b_def slow_env_def)
  from 1 2 3 have run: "(send_step slow_env)\<^sup>*\<^sup>* (SendStart m, b, ?w) (QueueWait [2] 1 m, ?b1, ?w)"
    by (meson converse_rtranclp_into_rtranclp rtranclp.rtrancl_refl)
  have "distinct (round_robin b)" "peer_count b \<noteq> 1" "inj_on (peers b) (dom (peers b))" by (auto simp: b_def inj_on_def)
  from dropped_send_starves_peer [OF slow_env_ok this run] run show ?thesis
    unfolding Let_def b_def [symmetric] m_def [symmetric] by blast
qed

end
