(* ===== verification/Handshake_Protocol.thy ===== *)
theory Handshake_Protocol
  imports Handshake
begin

text \<open>
  The two ends of a connection in the handshake at the same time. Each end runs \<open>peer_handshake\<close>: it sends its
  greeting, awaits the other's, sends READY, awaits the other's READY. The steps of the two ends interleave freely;
  what one end has sent waits in the inbox of the other, in order.
\<close>

section \<open>The two ends\<close>

record hs_config =
  hs_type :: socket_type
  hs_options :: socket_options
  hs_uuid :: bytes

text \<open>Where an end is; \<open>HsDone\<close> carries what \<open>peer_handshake\<close> returns, \<open>None\<close> for a panic.\<close>

datatype hs_pc =
    SendGreeting | AwaitGreeting | SendReady | AwaitReady | HsDone "peer_identity zmq_result option"

record hs_state =
  hs_pc :: "bool \<Rightarrow> hs_pc"
  hs_inbox :: "bool \<Rightarrow> message list"

definition own_ready :: "hs_config \<Rightarrow> message" where
  "own_ready c = Message_Command (ready_command (hs_type c) (identity_props (hs_options c)))"

text \<open>What an end makes of the message it awaits.\<close>

definition on_greeting :: "message \<Rightarrow> hs_pc" where
  "on_greeting m = (case negotiate_version m of Inl e \<Rightarrow> HsDone (Some (Err e)) | Inr _ \<Rightarrow> SendReady)"

definition on_ready :: "hs_config \<Rightarrow> message \<Rightarrow> hs_pc" where
  "on_ready c m = (case m of
     Message_Command command \<Rightarrow>
       (case cmd_name command of READY \<Rightarrow> HsDone (accept_ready (hs_uuid c) (hs_type c) command))
   | _ \<Rightarrow> HsDone (Some (Err (ErrOther ''Failed to confirm ready state''))))"

text \<open>A step of end \<open>x\<close>; the other end is \<open>\<not> x\<close>.\<close>

inductive hs_step :: "(bool \<Rightarrow> hs_config) \<Rightarrow> hs_state \<Rightarrow> hs_state \<Rightarrow> bool" for cfg where
  send_greeting: "hs_pc s x = SendGreeting
    \<Longrightarrow> hs_step cfg s (s \<lparr> hs_pc := (hs_pc s)(x := AwaitGreeting),
          hs_inbox := (hs_inbox s)(\<not> x := hs_inbox s (\<not> x) @ [Message_Greeting greeting_default]) \<rparr>)"
| recv_greeting: "hs_pc s x = AwaitGreeting \<Longrightarrow> hs_inbox s x = m # ms
    \<Longrightarrow> hs_step cfg s (s \<lparr> hs_pc := (hs_pc s)(x := on_greeting m), hs_inbox := (hs_inbox s)(x := ms) \<rparr>)"
| send_ready: "hs_pc s x = SendReady
    \<Longrightarrow> hs_step cfg s (s \<lparr> hs_pc := (hs_pc s)(x := AwaitReady),
          hs_inbox := (hs_inbox s)(\<not> x := hs_inbox s (\<not> x) @ [own_ready (cfg x)]) \<rparr>)"
| recv_ready: "hs_pc s x = AwaitReady \<Longrightarrow> hs_inbox s x = m # ms
    \<Longrightarrow> hs_step cfg s (s \<lparr> hs_pc := (hs_pc s)(x := on_ready (cfg x) m), hs_inbox := (hs_inbox s)(x := ms) \<rparr>)"

definition hs_start :: hs_state where
  "hs_start = \<lparr> hs_pc = (\<lambda>_. SendGreeting), hs_inbox = (\<lambda>_. []) \<rparr>"

inductive hs_run :: "(bool \<Rightarrow> hs_config) \<Rightarrow> nat \<Rightarrow> hs_state \<Rightarrow> bool" for cfg where
  start: "hs_run cfg 0 hs_start"
| step: "hs_run cfg n s \<Longrightarrow> hs_step cfg s s' \<Longrightarrow> hs_run cfg (Suc n) s'"

section \<open>Lemmas\<close>

text \<open>The ends of \<open>peer_handshake\<close> on an inbox that holds a greeting and a command are those of the protocol.\<close>

lemma protocol_implements_handshake:
  assumes "snd_msg io (Message_Greeting greeting_default) = (Ok (), io1)" and "nxt_msg io1 = (Some (Ok g), io2)"
    and "on_greeting g = SendReady" and "snd_msg io2 (own_ready c) = (Ok (), io3)"
    and "nxt_msg io3 = (Some (Ok r), io4)"
  shows "HsDone (map_option fst (peer_handshake (hs_uuid c) snd_msg nxt_msg (hs_type c) (hs_options c) io)) = on_ready c r"
proof -
  obtain v where "negotiate_version g = Ok v" using assms(3) by (auto simp: on_greeting_def split: sum.splits)
  with assms show ?thesis
    by (cases r) (auto simp: peer_handshake_def greet_exchange_def ready_exchange_def own_ready_def on_ready_def
        option.map_comp o_def option.map_ident split: zmq_command_name.splits)
qed

text \<open>What an end has sent and how much it has received, by where it is.\<close>

fun hs_sent :: "hs_config \<Rightarrow> hs_pc \<Rightarrow> message list" where
  "hs_sent c SendGreeting = []"
| "hs_sent c AwaitGreeting = [Message_Greeting greeting_default]"
| "hs_sent c SendReady = [Message_Greeting greeting_default]"
| "hs_sent c _ = [Message_Greeting greeting_default, own_ready c]"

fun hs_taken :: "hs_pc \<Rightarrow> nat" where
  "hs_taken SendGreeting = 0"
| "hs_taken AwaitGreeting = 0"
| "hs_taken SendReady = 1"
| "hs_taken AwaitReady = 1"
| "hs_taken (HsDone r) = 2"

fun hs_count :: "hs_pc \<Rightarrow> nat" where
  "hs_count SendGreeting = 0"
| "hs_count AwaitGreeting = 1"
| "hs_count SendReady = 2"
| "hs_count AwaitReady = 3"
| "hs_count (HsDone r) = 4"

text \<open>The invariant of a pair of ends, seen from the one: its inbox, and the result it may have.\<close>

definition end_inv :: "hs_config \<Rightarrow> hs_config \<Rightarrow> hs_pc \<Rightarrow> hs_pc \<Rightarrow> message list \<Rightarrow> bool" where
  "end_inv c c' pc pc' inbox \<longleftrightarrow> inbox = drop (hs_taken pc) (hs_sent c' pc') \<and> hs_taken pc \<le> length (hs_sent c' pc')
     \<and> (\<forall>r. pc = HsDone r \<longrightarrow> HsDone r = on_ready c (own_ready c'))"

lemma on_own_greeting: "on_greeting (Message_Greeting greeting_default) = SendReady"
  by (simp add: on_greeting_def negotiate_version_def version_ge_def Let_def)

lemma on_own_ready: "\<exists>r. on_ready c (own_ready c') = HsDone r"
  by (simp add: on_ready_def own_ready_def split: zmq_command_name.splits)

lemma end_inv_other_sends:
  assumes "end_inv c c' pc pc' inbox" and "hs_sent c' pc'' = hs_sent c' pc' @ ms"
  shows "end_inv c c' pc pc'' (inbox @ ms)"
  using assms by (simp add: end_inv_def)

lemma end_inv_sends:
  assumes "end_inv c c' pc pc' inbox" and "hs_taken pc'' = hs_taken pc" and "\<And>r. pc'' \<noteq> HsDone r"
  shows "end_inv c c' pc'' pc' inbox"
  using assms by (simp add: end_inv_def)

lemma end_inv_receives:
  assumes "end_inv c c' pc pc' (m # ms)"
  shows "pc = AwaitGreeting \<Longrightarrow> m = Message_Greeting greeting_default \<and> end_inv c c' (on_greeting m) pc' ms"
    and "pc = AwaitReady \<Longrightarrow> m = own_ready c' \<and> end_inv c c' (on_ready c m) pc' ms"
proof -
  have sent: "hs_sent c' pc' \<in> {[], [Message_Greeting greeting_default], [Message_Greeting greeting_default, own_ready c']}"
    by (cases pc') simp_all
  show "m = Message_Greeting greeting_default \<and> end_inv c c' (on_greeting m) pc' ms" if "pc = AwaitGreeting"
    using assms that sent by (auto simp: end_inv_def on_own_greeting)
  show "m = own_ready c' \<and> end_inv c c' (on_ready c m) pc' ms" if "pc = AwaitReady"
    using assms that sent on_own_ready [of c c'] by (auto simp: end_inv_def)
qed

definition hs_inv :: "(bool \<Rightarrow> hs_config) \<Rightarrow> nat \<Rightarrow> hs_state \<Rightarrow> bool" where
  "hs_inv cfg n s \<longleftrightarrow> (\<forall>x. end_inv (cfg x) (cfg (\<not> x)) (hs_pc s x) (hs_pc s (\<not> x)) (hs_inbox s x))
    \<and> n = hs_count (hs_pc s True) + hs_count (hs_pc s False)"

lemma hs_inv_intro:
  assumes "end_inv (cfg x) (cfg (\<not> x)) (hs_pc s x) (hs_pc s (\<not> x)) (hs_inbox s x)"
    and "end_inv (cfg (\<not> x)) (cfg x) (hs_pc s (\<not> x)) (hs_pc s x) (hs_inbox s (\<not> x))"
    and "n = hs_count (hs_pc s x) + hs_count (hs_pc s (\<not> x))"
  shows "hs_inv cfg n s"
  using assms by (cases x) (auto simp: hs_inv_def all_bool_eq)

lemma hs_inv_dest:
  assumes "hs_inv cfg n s"
  shows "end_inv (cfg x) (cfg (\<not> x)) (hs_pc s x) (hs_pc s (\<not> x)) (hs_inbox s x)"
    and "end_inv (cfg (\<not> x)) (cfg x) (hs_pc s (\<not> x)) (hs_pc s x) (hs_inbox s (\<not> x))"
    and "n = hs_count (hs_pc s x) + hs_count (hs_pc s (\<not> x))"
  using assms by (cases x; auto simp: hs_inv_def all_bool_eq)+

lemma hs_inv_step:
  assumes "hs_step cfg s s'" and "hs_inv cfg n s"
  shows "hs_inv cfg (Suc n) s'"
  using assms(1)
proof cases
  case (send_greeting x)
  note i = hs_inv_dest [OF assms(2), of x]
  show ?thesis
    by (rule hs_inv_intro [where x = x])
      (use send_greeting i end_inv_sends [OF i(1)]
        end_inv_other_sends [OF i(2), of AwaitGreeting "[Message_Greeting greeting_default]"] in simp_all)
next
  case (recv_greeting x m ms)
  note i = hs_inv_dest [OF assms(2), of x]
  note e = end_inv_receives(1) [OF i(1) [unfolded recv_greeting(3)] recv_greeting(2)]
  then have "end_inv (cfg x) (cfg (\<not> x)) SendReady (hs_pc s (\<not> x)) ms" "on_greeting m = SendReady"
    by (auto simp: on_own_greeting)
  then show ?thesis using recv_greeting i end_inv_other_sends [OF i(2), of SendReady "[]"]
    by (intro hs_inv_intro [where x = x]) simp_all
next
  case (send_ready x)
  note i = hs_inv_dest [OF assms(2), of x]
  show ?thesis
    by (rule hs_inv_intro [where x = x])
      (use send_ready i end_inv_sends [OF i(1)]
        end_inv_other_sends [OF i(2), of AwaitReady "[own_ready (cfg x)]"] in simp_all)
next
  case (recv_ready x m ms)
  note i = hs_inv_dest [OF assms(2), of x]
  note e = end_inv_receives(2) [OF i(1) [unfolded recv_ready(3)] recv_ready(2)]
  obtain r where r: "on_ready (cfg x) (own_ready (cfg (\<not> x))) = HsDone r" using on_own_ready by blast
  with e have "end_inv (cfg x) (cfg (\<not> x)) (HsDone r) (hs_pc s (\<not> x)) ms" "m = own_ready (cfg (\<not> x))" by auto
  with r show ?thesis using recv_ready i end_inv_other_sends [OF i(2), of "HsDone r" "[]"]
    by (intro hs_inv_intro [where x = x]) simp_all
qed

lemma hs_run_inv: "hs_run cfg n s \<Longrightarrow> hs_inv cfg n s"
proof (induction rule: hs_run.induct)
  case start
  show ?case by (simp add: hs_inv_def hs_start_def end_inv_def)
qed (rule hs_inv_step)

text \<open>An end that cannot move awaits a message that the other has not sent, or is done.\<close>

lemma hs_progress:
  assumes "hs_inv cfg n s" and "\<And>s'. \<not> hs_step cfg s s'"
  shows "\<exists>r. hs_pc s x = HsDone r"
proof (rule ccontr)
  assume no: "\<nexists>r. hs_pc s x = HsDone r"
  have stuck: "hs_pc s y \<noteq> SendGreeting \<and> hs_pc s y \<noteq> SendReady
      \<and> (hs_pc s y \<in> {AwaitGreeting, AwaitReady} \<longrightarrow> hs_inbox s y = [])" for y
    using assms(2) hs_step.intros [of s y] by (metis insertE neq_Nil_conv singletonD)
  note i = hs_inv_dest [OF assms(1), of x]
  show False using no stuck [of x] stuck [of "\<not> x"] i(1,2)
    by (cases "hs_pc s x"; cases "hs_pc s (\<not> x)") (auto simp: end_inv_def)
qed

text \<open>What an end returns: the identity that the other end has configured, or a fresh one.\<close>

definition hs_verdict :: "hs_config \<Rightarrow> hs_config \<Rightarrow> peer_identity zmq_result option" where
  "hs_verdict c c' = (case compatible (hs_type c) (hs_type c') of
     None \<Rightarrow> None
   | Some True \<Rightarrow> Some (Ok (case peer_id (hs_options c') of Some i \<Rightarrow> i | None \<Rightarrow> hs_uuid c))
   | Some False \<Rightarrow> Some (Err (ErrOther ''Provided sockets combination is not compatible'')))"

lemma on_ready_verdict:
  assumes "\<forall>i. peer_id (hs_options c') = Some i \<longrightarrow> i \<noteq> [] \<and> length i \<le> MAX_LENGTH"
  shows "on_ready c (own_ready c') = HsDone (hs_verdict c c')"
  unfolding on_ready_def own_ready_def hs_verdict_def
  by (simp add: cmd_name_ready_command accept_own_ready [OF assms] split: zmq_command_name.splits)

lemma compatible_sym: "t \<noteq> STREAM \<Longrightarrow> t' \<noteq> STREAM \<Longrightarrow> compatible t t' = compatible t' t"
  by (cases t; cases t') (simp_all add: matrix_simps)

lemma compatible_total: "t \<noteq> STREAM \<Longrightarrow> t' \<noteq> STREAM \<Longrightarrow> compatible t t' \<noteq> None"
  by (cases t; cases t') (simp_all add: matrix_simps)

section \<open>Properties\<close>

text \<open>C10: The handshake of two sockets of the library with each other. However the steps of the two ends interleave,
  there is no deadlock: while an end is not done a step is possible, and after eight steps both ends are done. Then
  either the socket types are compatible and each end has the identity that the other has configured (a fresh one if
  it has none), or they are not and both ends have refused the connection: the ends always agree.\<close>

theorem handshake_completes:
  assumes "hs_run cfg n s" and "\<And>x. hs_type (cfg x) \<noteq> STREAM"
    and "\<forall>x i. peer_id (hs_options (cfg x)) = Some i \<longrightarrow> i \<noteq> [] \<and> length i \<le> MAX_LENGTH"
  shows "n \<le> 8 \<and> (n < 8 \<longrightarrow> (\<exists>s'. hs_step cfg s s'))
    \<and> (n = 8 \<longrightarrow>
        (if compatible (hs_type (cfg True)) (hs_type (cfg False)) = Some True
         then \<forall>x. hs_pc s x = HsDone (Some (Ok (case peer_id (hs_options (cfg (\<not> x))) of Some i \<Rightarrow> i | None \<Rightarrow> hs_uuid (cfg x))))
         else \<forall>x. \<exists>e. hs_pc s x = HsDone (Some (Err e))))"
proof -
  have inv: "hs_inv cfg n s" by (rule hs_run_inv [OF assms(1)])
  have count: "hs_count pc \<le> 4" "hs_count pc = 4 \<longleftrightarrow> (\<exists>r. pc = HsDone r)" for pc by (cases pc; simp)+
  have n: "n = hs_count (hs_pc s True) + hs_count (hs_pc s False)" using hs_inv_dest(3) [OF inv, of True] by simp
  have "n \<le> 8" using n count(1) [of "hs_pc s True"] count(1) [of "hs_pc s False"] by simp
  moreover have "\<exists>s'. hs_step cfg s s'" if "n < 8"
  proof (rule ccontr)
    assume "\<nexists>s'. hs_step cfg s s'"
    then have "hs_count (hs_pc s True) = 4" "hs_count (hs_pc s False) = 4" using hs_progress [OF inv] count(2) by blast+
    with n that show False by simp
  qed
  moreover have "hs_pc s x = HsDone (hs_verdict (cfg x) (cfg (\<not> x)))" if "n = 8" for x
  proof -
    have "hs_count (hs_pc s x) = 4"
      using n that count(1) [of "hs_pc s True"] count(1) [of "hs_pc s False"] by (cases x) simp_all
    then obtain r where "hs_pc s x = HsDone r" using count(2) by blast
    with hs_inv_dest(1) [OF inv, of x] on_ready_verdict [of "cfg (\<not> x)" "cfg x"] assms(3)
    show ?thesis by (auto simp: end_inv_def)
  qed
  moreover have "compatible (hs_type (cfg x)) (hs_type (cfg (\<not> x))) = compatible (hs_type (cfg True)) (hs_type (cfg False))" for x
    using compatible_sym [OF assms(2) [of False] assms(2) [of True]] by (cases x) simp_all
  ultimately show ?thesis
    using compatible_total [OF assms(2) [of True] assms(2) [of False]] by (auto simp: hs_verdict_def)
qed

text \<open>A DEALER with an identity and a ROUTER without one, in lockstep.\<close>

theorem handshake_completes_witness:
  "\<exists>s. hs_run (\<lambda>x. if x then \<lparr> hs_type = DEALER, hs_options = set_peer_identity options_default [9], hs_uuid = [1] \<rparr>
        else \<lparr> hs_type = ROUTER, hs_options = options_default, hs_uuid = [2] \<rparr>) 8 s
    \<and> hs_pc s True = HsDone (Some (Ok [1])) \<and> hs_pc s False = HsDone (Some (Ok [9]))"
proof -
  define cfg where "cfg = (\<lambda>x. if x then \<lparr> hs_type = DEALER, hs_options = set_peer_identity options_default [9], hs_uuid = [1] \<rparr>
        else \<lparr> hs_type = ROUTER, hs_options = options_default, hs_uuid = [2] \<rparr>)"
  have a1: "\<And>x. hs_type (cfg x) \<noteq> STREAM"
    and a2: "\<forall>x i. peer_id (hs_options (cfg x)) = Some i \<longrightarrow> i \<noteq> [] \<and> length i \<le> MAX_LENGTH"
    by (auto simp: cfg_def set_peer_identity_def options_default_def MAX_LENGTH_def split: if_splits)
  have "\<exists>s. hs_run cfg n s" if "n \<le> 8" for n
    using that
  proof (induction n)
    case (Suc n)
    then obtain s where s: "hs_run cfg n s" by auto
    from handshake_completes [OF s a1 a2] Suc.prems obtain s' where "hs_step cfg s s'" by auto
    with s show ?case by (blast intro: hs_run.step)
  qed (blast intro: hs_run.start)
  then obtain s where s: "hs_run cfg 8 s" by blast
  have "compatible (hs_type (cfg True)) (hs_type (cfg False)) = Some True" by (simp add: cfg_def matrix_simps)
  with handshake_completes [OF s a1 a2] s show ?thesis
    unfolding cfg_def [symmetric]
    by (intro exI [of _ s]) (simp add: cfg_def set_peer_identity_def options_default_def)
qed

end
