(* ===== verification/Req_Rep.thy ===== *)
theory Req_Rep
  imports Multi_Peer Queue_Backend
begin

text \<open>
  \<open>src/req.rs\<close> and \<open>src/rep.rs\<close>: the request-reply sockets. REQ sends a request to the next peer of its round
  robin, behind an empty delimiter frame, and then receives from that peer only. REP takes requests from a fair
  queue, keeps the frames up to the delimiter as the envelope and puts them in front of its reply.
\<close>

section \<open>REQ\<close>

record 's req_peer =
  rq_sink :: nat
  rq_stream :: 's

record 's req_backend =
  rq_peers :: "peer_identity \<rightharpoonup> 's req_peer"
  rq_round_robin :: "peer_identity list"
  rq_monitor :: "nat option"
  rq_options :: socket_options

record 's req_socket =
  rq_backend :: "'s req_backend"
  rq_current :: "peer_identity option"

definition req_with_options :: "socket_options \<Rightarrow> 's req_socket" where
  "req_with_options options =
     \<lparr> rq_backend = \<lparr> rq_peers = Map.empty, rq_round_robin = [], rq_monitor = None, rq_options = options \<rparr>,
       rq_current = None \<rparr>"

text \<open>The loop of \<open>send\<close>: entries of peers that are gone are dropped from the round robin.\<close>

fun req_send_loop ::
    "'w env \<Rightarrow> zmq_message \<Rightarrow> peer_identity list \<Rightarrow> 's req_backend \<times> 'w
      \<Rightarrow> peer_identity zmq_result \<times> 's req_backend \<times> 'w" where
  "req_send_loop env message [] (b, w) =
     (Err (ReturnToSender ''Not connected to peers. Unable to send messages'' message),
      b \<lparr> rq_round_robin := [] \<rparr>, w)"
| "req_send_loop env message (next_peer_id # rest) (b, w) =
     (case rq_peers b next_peer_id of
        None \<Rightarrow> req_send_loop env message rest (b, w)
      | Some peer \<Rightarrow>
          let b' = b \<lparr> rq_round_robin := rest @ [next_peer_id] \<rparr>
          in case sink_send env (rq_sink peer) (Message_Message (push_front message [])) w of
               (Inl e, w') \<Rightarrow> (Err (ErrCodec e), b', w')
             | (Inr _, w') \<Rightarrow> (Ok next_peer_id, b', w'))"

definition req_send ::
    "'w env \<Rightarrow> zmq_message \<Rightarrow> 's req_socket \<times> 'w \<Rightarrow> unit zmq_result \<times> 's req_socket \<times> 'w" where
  "req_send env message sw = (case sw of (s, w) \<Rightarrow>
     if rq_current s \<noteq> None
     then (Err (ReturnToSender ''Unable to send message. Request already in progress'' message), s, w)
     else case req_send_loop env message (rq_round_robin (rq_backend s)) (rq_backend s, w) of
       (Inl e, b', w') \<Rightarrow> (Err e, s \<lparr> rq_backend := b' \<rparr>, w')
     | (Inr pid, b', w') \<Rightarrow> (Ok (), s \<lparr> rq_backend := b', rq_current := Some pid \<rparr>, w'))"

text \<open>What \<open>recv\<close> makes of the next item of the peer's stream.\<close>

definition req_result :: "item option \<Rightarrow> zmq_message zmq_result" where
  "req_result x =
     (case x of
        Some (Inr (Message_Message m)) \<Rightarrow>
          if msg_len m < 2 then Err (ErrOther ''Invalid message format: too few frames'')
          else (case pop_front m of
                  (Some delimiter, m') \<Rightarrow>
                    if delimiter \<noteq> [] then Err (ErrOther ''Invalid message format: missing delimiter'') else Ok m'
                | (None, m') \<Rightarrow> Err NoMessage)
      | Some (Inr _) \<Rightarrow> Err (ErrOther ''Received non-message frame'')
      | Some (Inl e) \<Rightarrow> Err (ErrCodec e)
      | None \<Rightarrow> Err NoMessage)"

text \<open>One poll of the future of \<open>recv\<close>: the request stays in progress until the peer's stream is ready.\<close>

definition req_recv ::
    "('s, item) poll_stream \<Rightarrow> 's req_socket \<Rightarrow> zmq_message zmq_result poll \<times> 's req_socket" where
  "req_recv poll_stream s =
     (case rq_current s of
        None \<Rightarrow> (Ready (Err (ErrOther ''Unable to recv. No request in progress'')), s)
      | Some pid \<Rightarrow>
          (case rq_peers (rq_backend s) pid of
             None \<Rightarrow> (Ready (Err (ErrOther ''Server disconnected'')), s \<lparr> rq_current := None \<rparr>)
           | Some peer \<Rightarrow>
               (case poll_stream (rq_stream peer) of
                  (r, st, _) \<Rightarrow>
                    let b' = (rq_backend s) \<lparr> rq_peers := (rq_peers (rq_backend s))(pid \<mapsto> peer \<lparr> rq_stream := st \<rparr>) \<rparr>
                    in case r of
                         Pending \<Rightarrow> (Pending, s \<lparr> rq_backend := b' \<rparr>)
                       | Ready x \<Rightarrow> (Ready (req_result x), s \<lparr> rq_backend := b', rq_current := None \<rparr>))))"

definition req_peer_connected :: "peer_identity \<Rightarrow> 's framed_io \<Rightarrow> 's req_backend \<times> 'w \<Rightarrow> 's req_backend \<times> 'w" where
  "req_peer_connected pid io bw = (case bw of (b, w) \<Rightarrow>
     (b \<lparr> rq_peers := (rq_peers b)(pid \<mapsto> \<lparr> rq_sink = write_half io, rq_stream = read_half io \<rparr>),
          rq_round_robin := rq_round_robin b @ [pid] \<rparr>, w))"

definition req_peer_disconnected :: "peer_identity \<Rightarrow> 's req_backend \<times> 'w \<Rightarrow> 's req_backend \<times> 'w" where
  "req_peer_disconnected pid bw = (case bw of (b, w) \<Rightarrow> (b \<lparr> rq_peers := (rq_peers b)(pid := None) \<rparr>, w))"

definition req_shutdown :: "'s req_backend \<times> 'w \<Rightarrow> 's req_backend \<times> 'w" where
  "req_shutdown bw = (case bw of (b, w) \<Rightarrow> (b \<lparr> rq_peers := Map.empty \<rparr>, w))"

section \<open>REP\<close>

record 's rep_backend =
  rp_peers :: "peer_identity \<rightharpoonup> nat"
  rp_fair_queue :: "('s, peer_identity) queue_inner"
  rp_monitor :: "nat option"
  rp_options :: socket_options

record 's rep_socket =
  rp_backend :: "'s rep_backend"
  rp_envelope :: "zmq_message option"
  rp_current :: "peer_identity option"

definition rep_with_options :: "socket_options \<Rightarrow> 's rep_socket" where
  "rep_with_options options =
     \<lparr> rp_backend = \<lparr> rp_peers = Map.empty, rp_fair_queue = queue_new, rp_monitor = None, rp_options = options \<rparr>,
       rp_envelope = None, rp_current = None \<rparr>"

definition rep_peer_connected :: "peer_identity \<Rightarrow> 's framed_io \<Rightarrow> 's rep_backend \<times> 'w \<Rightarrow> 's rep_backend \<times> 'w" where
  "rep_peer_connected pid io bw = (case bw of (b, w) \<Rightarrow>
     (b \<lparr> rp_peers := (rp_peers b)(pid \<mapsto> write_half io),
          rp_fair_queue := queue_insert pid (read_half io) (rp_fair_queue b) \<rparr>, w))"

text \<open>The fair queue keeps the stream.\<close>

definition rep_peer_disconnected ::
    "'w env \<Rightarrow> peer_identity \<Rightarrow> 's rep_backend \<times> 'w \<Rightarrow> 's rep_backend \<times> 'w" where
  "rep_peer_disconnected env pid bw = (case bw of (b, w) \<Rightarrow>
     (b \<lparr> rp_peers := (rp_peers b)(pid := None) \<rparr>, monitor_event env (rp_monitor b) (Disconnected pid) w))"

definition rep_shutdown :: "'s rep_backend \<times> 'w \<Rightarrow> 's rep_backend \<times> 'w" where
  "rep_shutdown bw = (case bw of (b, w) \<Rightarrow> (b \<lparr> rp_peers := Map.empty \<rparr>, w))"

definition rep_send ::
    "'w env \<Rightarrow> zmq_message \<Rightarrow> 's rep_socket \<times> 'w \<Rightarrow> unit zmq_result \<times> 's rep_socket \<times> 'w" where
  "rep_send env message sw = (case sw of (s, w) \<Rightarrow>
     case rp_current s of
       None \<Rightarrow> (Err (ReturnToSender ''Unable to send reply. No request in progress'' message), s, w)
     | Some pid \<Rightarrow>
         let s1 = s \<lparr> rp_current := None \<rparr>
         in case rp_peers (rp_backend s1) pid of
              None \<Rightarrow> (Err (ReturnToSender ''Client disconnected'' message), s1, w)
            | Some send_queue \<Rightarrow>
                let message' = (case rp_envelope s1 of Some envelope \<Rightarrow> prepend message envelope | None \<Rightarrow> message);
                    s2 = s1 \<lparr> rp_envelope := None \<rparr>
                in case sink_send env send_queue (Message_Message message') w of
                     (Inl e, w') \<Rightarrow> (Err (ErrCodec e), s2, w')
                   | (Inr _, w') \<Rightarrow> (Ok (), s2, w'))"

text \<open>The loop that looks for the delimiter: the number of frames of the envelope, delimiter included; 1 when
  there is no delimiter.\<close>

fun envelope_end :: "nat \<Rightarrow> bytes list \<Rightarrow> nat" where
  "envelope_end index [] = 1"
| "envelope_end index (frame # fs) = (if frame = [] then index + 1 else envelope_end (index + 1) fs)"

text \<open>What \<open>recv\<close> does with a message. The second branch of \<open>split_off\<close> is a panic; it is not reached
  (\<open>envelope_end_le\<close>).\<close>

definition rep_on_message ::
    "peer_identity \<Rightarrow> zmq_message \<Rightarrow> 's rep_socket \<times> 'w \<Rightarrow> zmq_message handled \<times> 's rep_socket \<times> 'w" where
  "rep_on_message pid m sw = (case sw of (s, w) \<Rightarrow>
     if msg_len m < 2 then (Return (Err (ErrOther ''Invalid message format'')), s, w)
     else case split_off m (envelope_end 0 (frames m)) of
       Some (envelope, data) \<Rightarrow>
         (Return (Ok data), s \<lparr> rp_envelope := Some envelope, rp_current := Some pid \<rparr>, w)
     | None \<Rightarrow> (Continue, s, w))"

definition rep_disconnect ::
    "'w env \<Rightarrow> peer_identity \<Rightarrow> 's rep_socket \<times> 'w \<Rightarrow> 's rep_socket \<times> 'w" where
  "rep_disconnect env pid sw = (case sw of (s, w) \<Rightarrow>
     case rep_peer_disconnected env pid (rp_backend s, w) of (b', w') \<Rightarrow> (s \<lparr> rp_backend := b' \<rparr>, w'))"

abbreviation set_rep_queue :: "('s, peer_identity) queue_inner \<Rightarrow> 's rep_socket \<Rightarrow> 's rep_socket" where
  "set_rep_queue q s \<equiv> s \<lparr> rp_backend := (rp_backend s) \<lparr> rp_fair_queue := q \<rparr> \<rparr>"

definition rep_poll_item :: "'w env \<Rightarrow> ('s, item) poll_stream \<Rightarrow> nat \<Rightarrow> ('s rep_socket \<times> 'w) poll_item" where
  "rep_poll_item env poll_stream cx =
     backend_poll_item (\<lambda>s. Some (rp_fair_queue (rp_backend s))) set_rep_queue (rep_disconnect env) poll_stream cx"

definition rep_recv ::
    "nat \<Rightarrow> 'w env \<Rightarrow> ('s, item) poll_stream \<Rightarrow> nat \<Rightarrow> 's rep_socket \<times> 'w
      \<Rightarrow> (zmq_message zmq_result poll \<times> 's rep_socket \<times> 'w) option" where
  "rep_recv fuel env poll_stream cx sw =
     recv_loop fuel (rep_poll_item env poll_stream cx) rep_on_message
       (\<lambda>pid e sw. (Return (Err (ErrCodec e)), rep_disconnect env pid sw)) sw"

section \<open>Contracts\<close>

interpretation req: reliable_backend req_peer_connected req_peer_disconnected req_shutdown
  "\<lambda>bw. dom (rq_peers (fst bw))" "\<lambda>bw. dom (rq_peers (fst bw)) \<subseteq> set (rq_round_robin (fst bw))"
  by unfold_locales (fastforce simp: req_peer_connected_def req_peer_disconnected_def req_shutdown_def subset_iff domIff
      split: prod.splits if_splits)+

interpretation rep: reliable_backend rep_peer_connected "rep_peer_disconnected env" rep_shutdown
  "\<lambda>bw. dom (rp_peers (fst bw))" "\<lambda>bw. True" for env :: "'w env"
  by unfold_locales (auto simp: rep_peer_connected_def rep_peer_disconnected_def rep_shutdown_def split: prod.splits)

interpretation pq: queue_backend "\<lambda>s. Some (rp_fair_queue (rp_backend s))" set_rep_queue "rep_disconnect env"
  for env :: "'w env"
  by unfold_locales (auto simp: rep_disconnect_def rep_peer_disconnected_def)

section \<open>Lemmas\<close>

lemma envelope_end_le: "fs \<noteq> [] \<Longrightarrow> envelope_end n fs \<le> n + length fs \<or> envelope_end n fs = 1"
  by (induction fs arbitrary: n) (auto split: if_splits, force)

lemma envelope_end_delimiter:
  "\<forall>f \<in> set ids. f \<noteq> [] \<Longrightarrow> envelope_end n (ids @ [] # data) = n + length ids + 1"
  by (induction ids arbitrary: n) auto

lemma rep_on_message_total:
  assumes "2 \<le> msg_len m"
  shows "\<exists>e d. split_off m (envelope_end 0 (frames m)) = Some (e, d)"
proof -
  have "frames m \<noteq> []" using assms by (auto simp: msg_len_def)
  from envelope_end_le [OF this, of 0] assms show ?thesis by (auto simp: split_off_def msg_len_def)
qed

lemma rep_on_message_envelope:
  assumes "\<forall>f \<in> set ids. f \<noteq> []" and "ids \<noteq> [] \<or> data \<noteq> []"
  shows "rep_on_message pid \<lparr> frames = ids @ [] # data \<rparr> (s, w)
    = (Return (Ok \<lparr> frames = data \<rparr>),
       s \<lparr> rp_envelope := Some \<lparr> frames = ids @ [[]] \<rparr>, rp_current := Some pid \<rparr>, w)"
proof -
  have "2 \<le> length (ids @ [] # data)" using assms(2) by (cases ids; cases data) auto
  then have "\<not> msg_len \<lparr> frames = ids @ [] # data \<rparr> < 2" by (auto simp: msg_len_def)
  then show ?thesis by (simp add: rep_on_message_def envelope_end_delimiter [OF assms(1)] split_off_def)
qed

lemma req_send_loop_Ok:
  assumes "env_ok env accepted written" and "req_send_loop env m rr (b, w) = (Ok p, b', w')"
  shows "\<exists>peer. rq_peers b p = Some peer \<and> rq_peers b' = rq_peers b
    \<and> written w' = (written w)(rq_sink peer := written w (rq_sink peer) @ [Message_Message (push_front m [])])"
  using assms(2)
proof (induction rr)
  case (Cons q rr)
  show ?case
  proof (cases "rq_peers b q")
    case (Some peer)
    obtain r w1 where r: "sink_send env (rq_sink peer) (Message_Message (push_front m [])) w = (r, w1)" by fastforce
    with Cons.prems Some env_sink_send [OF assms(1) r] show ?thesis by (cases r) auto
  qed (use Cons in simp)
qed simp

text \<open>REQ's calls in any order, with the numbers of successful sends and of completed receives. Peers come and
  go.\<close>

inductive req_run :: "'w env \<Rightarrow> 's req_socket \<times> 'w \<Rightarrow> nat \<Rightarrow> nat \<Rightarrow> bool" for env where
  start: "req_run env (req_with_options opts, w) 0 0"
| send_ok: "req_run env (s, w) n k \<Longrightarrow> req_send env m (s, w) = (Ok (), s', w') \<Longrightarrow> req_run env (s', w') (n + 1) k"
| send_err: "req_run env (s, w) n k \<Longrightarrow> req_send env m (s, w) = (Err e, s', w') \<Longrightarrow> req_run env (s', w') n k"
| recv_pending: "req_run env (s, w) n k \<Longrightarrow> req_recv poll_stream s = (Pending, s') \<Longrightarrow> req_run env (s', w) n k"
| recv_ready: "req_run env (s, w) n k \<Longrightarrow> rq_current s \<noteq> None \<Longrightarrow> req_recv poll_stream s = (Ready r, s')
    \<Longrightarrow> req_run env (s', w) n (k + 1)"
| recv_refused: "req_run env (s, w) n k \<Longrightarrow> rq_current s = None \<Longrightarrow> req_recv poll_stream s = (Ready r, s')
    \<Longrightarrow> req_run env (s', w) n k"
| peers: "req_run env (s, w) n k
    \<Longrightarrow> apply_event req_peer_connected req_peer_disconnected req_shutdown e (rq_backend s, w) = (b', w')
    \<Longrightarrow> req_run env (s \<lparr> rq_backend := b' \<rparr>, w') n k"

lemma req_send_current:
  assumes "req_send env m (s, w) = (r, s', w')"
  shows "r = Ok () \<Longrightarrow> rq_current s = None \<and> rq_current s' \<noteq> None"
    and "r \<noteq> Ok () \<Longrightarrow> rq_current s' = rq_current s"
  using assms by (auto simp: req_send_def split: if_splits sum.splits prod.splits)

lemma req_recv_current:
  assumes "req_recv poll_stream s = (r, s')"
  shows "r = Pending \<Longrightarrow> rq_current s' = rq_current s" and "r \<noteq> Pending \<Longrightarrow> rq_current s' = None"
  using assms by (auto simp: req_recv_def Let_def split: option.splits prod.splits poll.splits)

section \<open>Properties\<close>

text \<open>C15: Lock step: whatever calls are made on a REQ socket and whichever peers come and go, the successful sends
  outnumber the completed receives by one exactly while a request is in progress, and never otherwise; so sends
  and receives alternate.\<close>

theorem req_lockstep:
  assumes "req_run env (s, w) n k"
  shows "n = k + (if rq_current s = None then 0 else 1)"
  using assms
proof (induction "(s, w)" n k arbitrary: s w rule: req_run.induct)
  case (start opts w)
  then show ?case by (simp add: req_with_options_def)
next
  case (send_ok s w n k m s' w')
  then show ?case using req_send_current(1) [OF send_ok.hyps(3)] by simp
next
  case (send_err s w n k m e s' w')
  then show ?case using req_send_current(2) [OF send_err.hyps(3)] by simp
next
  case (recv_pending s w n k poll_stream s')
  then show ?case using req_recv_current(1) [OF recv_pending.hyps(3)] by simp
next
  case (recv_ready s w n k poll_stream r s')
  then show ?case using req_recv_current(2) [OF recv_ready.hyps(4)] by simp
next
  case (recv_refused s w n k poll_stream r s')
  then show ?case using req_recv_current(2) [OF recv_refused.hyps(4)] by simp
next
  case (peers s w n k e b' w')
  then show ?case by simp
qed

theorem req_lockstep_witness:
  "\<exists>s :: byte req_socket. \<exists>w. req_run (sample_env [] []) (s, w) (0 + 1) 0
    \<and> (0 :: nat) + 1 = 0 + (if rq_current s = None then 0 else 1)"
proof -
  let ?e = "sample_env [] []" and ?s0 = "req_with_options options_default :: byte req_socket"
  let ?w = "(\<lambda>_. [], \<lambda>_. [], 0) :: (nat \<Rightarrow> message list) \<times> (nat \<Rightarrow> message list) \<times> nat"
  let ?io = "\<lparr> read_half = 5, write_half = 3 \<rparr> :: byte framed_io" and ?m = "\<lparr> frames = [[1]] \<rparr> :: zmq_message"
  obtain b where b: "req_peer_connected [4] ?io (rq_backend ?s0, ?w) = (b, ?w)"
    and peers: "rq_peers b [4] = Some \<lparr> rq_sink = 3, rq_stream = 5 \<rparr>" "rq_round_robin b = [[4]]"
    by (simp add: req_peer_connected_def req_with_options_def)
  let ?s1 = "?s0 \<lparr> rq_backend := b \<rparr>"
  have r0: "req_run ?e (?s1, ?w) 0 0"
    by (rule req_run.peers [OF req_run.start [where w = ?w], where e = "PeerConnected [4] ?io"]) (simp add: b)
  obtain s' w' where s: "req_send ?e ?m (?s1, ?w) = (Ok (), s', w')" and c: "rq_current s' = Some [4]"
    by (simp add: req_send_def peers Let_def) (simp add: req_with_options_def peers)
  have run: "req_run ?e (s', w') (0 + 1) 0" by (rule req_run.send_ok [OF r0 s])
  show ?thesis using req_lockstep [OF run] run by (intro exI [of _ s'] exI [of _ w'] conjI)
qed

text \<open>C16: The request-reply round trip: the request that REQ sends, delivered to a REP socket, comes out of
  \<open>recv\<close> unchanged, and the reply that REP then sends, delivered to the REQ socket over its peer's stream, comes out
  of \<open>recv\<close> unchanged and ends the request: the delimiter and the envelope are added and removed consistently.\<close>

theorem req_rep_roundtrip:
  assumes "env_ok env accepted written" and "req_send env m (c, w) = (Ok (), c1, w1)" and "frames m \<noteq> []"
    and "frames reply \<noteq> []" and "rq_current c1 = Some p" and "rq_peers (rq_backend c1) p = Some peer"
    and "rep_poll_item env poll_stream cx (s, w1)
      = (Ready (Some (pid, Ok (last (written w1 (rq_sink peer))))), (s1, w2))"
    and "rp_peers (rp_backend s1) pid = Some h"
  shows "\<exists>s2. rep_recv (Suc fuel) env poll_stream cx (s, w1) = Some (Ready (Ok m), (s2, w2))
    \<and> (\<forall>s3 w3. rep_send env reply (s2, w2) = (Ok (), s3, w3)
        \<longrightarrow> rp_current s3 = None
          \<and> (\<forall>client st wk. client (rq_stream peer) = (Ready (Some (Ok (last (written w3 h)))), st, wk)
            \<longrightarrow> (\<exists>c2. req_recv client c1 = (Ready (Ok reply), c2) \<and> rq_current c2 = None)))"
proof -
  have wire: "last (written w1 (rq_sink peer)) = Message_Message (push_front m [])"
  proof -
    obtain b' where l: "req_send_loop env m (rq_round_robin (rq_backend c)) (rq_backend c, w) = (Ok p, b', w1)"
      and b': "rq_backend c1 = b'"
      using assms(2,5) by (auto simp: req_send_def split: if_splits sum.splits prod.splits)
    from req_send_loop_Ok [OF assms(1) l] assms(6) b' show ?thesis by auto
  qed
  let ?s2 = "s1 \<lparr> rp_envelope := Some \<lparr> frames = [[]] \<rparr>, rp_current := Some pid \<rparr>"
  have pf: "push_front m [] = \<lparr> frames = [] # frames m \<rparr>" by (simp add: msg_eq_iff)
  have "rep_on_message pid (push_front m []) (s1, w2) = (Return (Ok m), ?s2, w2)"
    using rep_on_message_envelope [of "[]" "frames m" pid s1 w2] assms(3) unfolding pf by simp
  then have recv: "rep_recv (Suc fuel) env poll_stream cx (s, w1) = Some (Ready (Ok m), (?s2, w2))"
    using assms(7) wire by (simp add: rep_recv_def)
  have sent: "rp_current s3 = None \<and> last (written w3 h) = Message_Message (push_front reply [])"
    if "rep_send env reply (?s2, w2) = (Ok (), s3, w3)" for s3 w3
  proof -
    have e: "prepend reply \<lparr> frames = [[]] \<rparr> = push_front reply []" by (simp add: msg_eq_iff)
    obtain r w' where r: "sink_send env h (Message_Message (push_front reply [])) w2 = (r, w')" by fastforce
    from that assms(8) r env_sink_send [OF assms(1) r] show ?thesis
      by (cases r) (auto simp: rep_send_def e)
  qed
  have returned: "\<exists>c2. req_recv client c1 = (Ready (Ok reply), c2) \<and> rq_current c2 = None"
    if "client (rq_stream peer) = (Ready (Some (Ok (Message_Message (push_front reply [])))), st, wk)" for client st wk
  proof -
    have "\<not> msg_len (push_front reply []) < 2" using assms(4) by (cases "frames reply") (simp_all add: msg_len_def)
    then have "req_result (Some (Ok (Message_Message (push_front reply [])))) = Ok reply"
      by (simp add: req_result_def)
    with that assms(5,6) show ?thesis by (simp add: req_recv_def Let_def)
  qed
  show ?thesis using recv sent returned by (intro exI [of _ ?s2]) fastforce
qed

theorem req_rep_roundtrip_witness:
  "let e = sample_env [] []; w0 = (\<lambda>_. [], \<lambda>_. [], 0); m = \<lparr> frames = [[1]] \<rparr>;
       cb = fst (req_peer_connected [4] \<lparr> read_half = 5, write_half = 3 \<rparr>
         (rq_backend (req_with_options options_default :: byte req_socket), w0));
       (r, c1, w1) = req_send e m (req_with_options options_default \<lparr> rq_backend := cb \<rparr>, w0);
       sb = fst (rep_peer_connected [9] \<lparr> read_half = 5, write_half = 6 \<rparr>
         (rp_backend (rep_with_options options_default :: byte rep_socket), w0))
   in \<exists>s2. rep_recv 1 e (\<lambda>s. (Ready (Some (Ok (last (fst (snd w1) 3)))), s, False)) 0
        (rep_with_options options_default \<lparr> rp_backend := sb \<rparr>, w1) = Some (Ready (Ok m), (s2, w1))"
proof -
  let ?e = "sample_env [] []" and ?m = "\<lparr> frames = [[1]] \<rparr> :: zmq_message"
  let ?w0 = "(\<lambda>_. [], \<lambda>_. [], 0) :: (nat \<Rightarrow> message list) \<times> (nat \<Rightarrow> message list) \<times> nat"
  define c where "c = req_with_options options_default \<lparr> rq_backend := fst (req_peer_connected [4] \<lparr> read_half = 5, write_half = 3 \<rparr>
         (rq_backend (req_with_options options_default :: byte req_socket), ?w0)) \<rparr>"
  define s where "s = rep_with_options options_default \<lparr> rp_backend := fst (rep_peer_connected [9] \<lparr> read_half = 5, write_half = 6 \<rparr>
         (rp_backend (rep_with_options options_default :: byte rep_socket), ?w0)) \<rparr>"
  obtain c1 w1 where send: "req_send ?e ?m (c, ?w0) = (Ok (), c1, w1)"
    and c1: "rq_current c1 = Some [4]" "rq_peers (rq_backend c1) [4] = Some \<lparr> rq_sink = 3, rq_stream = 5 \<rparr>"
    by (simp add: c_def req_send_def req_peer_connected_def req_with_options_def Let_def)
  let ?p = "\<lambda>s :: byte. (Ready (Some (Ok (last (fst (snd w1) 3)) :: item)), s, False)"
  have s: "rp_fair_queue (rp_backend s) = queue_insert [9] 5 queue_new" "rp_peers (rp_backend s) [9] = Some 6"
    by (simp_all add: s_def rep_with_options_def rep_peer_connected_def)
  have q: "ready_wf (queue_insert [9] 5 queue_new)" "counter (queue_insert [9] 5 queue_new) + 1 < 2 ^ 64"
    "ready_keys (queue_insert [9] 5 queue_new) = [9 :: byte] # []" "streams (queue_insert [9] 5 queue_new) [9] = Some (5 :: byte)"
    by (simp_all add: queue_eval)
  have "Some (rp_fair_queue (rp_backend s)) = Some (queue_insert [9] 5 queue_new)" using s(1) by simp
  from pq.poll_item_ready [where env = ?e and poll_stream = ?p and cx = 0 and w = w1, OF this q refl]
  obtain q' where "rep_poll_item ?e ?p 0 (s, w1)
      = (Ready (Some ([9], Ok (last (fst (snd w1) (rq_sink \<lparr> rq_sink = 3, rq_stream = 5 :: byte \<rparr>))))), (set_rep_queue q' s, w1))"
    by (auto simp: rep_poll_item_def)
  from req_rep_roundtrip [where fuel = 0 and reply = ?m, OF sample_env_ok send _ _ c1 this, of 6] s(2)
  have "\<exists>s2. rep_recv 1 ?e ?p 0 (s, w1) = Some (Ready (Ok ?m), (s2, w1))" by auto
  then show ?thesis using send by (simp add: Let_def c_def [symmetric] s_def [symmetric])
qed

text \<open>A REP socket that disconnects a peer, after an error on its connection or when it is shut down, keeps the
  peer's stream in its fair queue.\<close>

theorem rep_keeps_stream_of_dead_peer:
  "rp_fair_queue (fst (rep_peer_disconnected env p (b, w))) = rp_fair_queue b
   \<and> rp_fair_queue (fst (rep_shutdown (b, w))) = rp_fair_queue b
   \<and> rp_peers (fst (rep_peer_disconnected env p (b, w))) p = None"
  by (simp add: rep_peer_disconnected_def rep_shutdown_def)

text \<open>A request whose delimiter is its last frame gives the application a message without frames.\<close>

theorem rep_empty_request:
  assumes "frames m = [f, []]" and "f \<noteq> []"
  shows "\<exists>s'. rep_on_message pid m (s, w) = (Return (Ok \<lparr> frames = [] \<rparr>), s', w)"
  using rep_on_message_envelope [of "[f]" "[]" pid s w] assms by (cases m) simp

text \<open>The state that \<open>send\<close> leaves when it is dropped while it flushes: the sink has taken the request, but the request
  is not in progress.\<close>

definition req_send_dropped :: "'w env \<Rightarrow> zmq_message \<Rightarrow> 's req_socket \<times> 'w \<Rightarrow> 's req_socket \<times> 'w" where
  "req_send_dropped env message sw =
     (case req_send env message sw of (r, s', w') \<Rightarrow> (s' \<lparr> rq_current := rq_current (fst sw) \<rparr>, w'))"

text \<open>After a send that was dropped a second request is sent to the same server, behind the first, and \<open>recv\<close> then
  returns the reply to the first request as the reply to the second.\<close>

theorem req_dropped_send_shifts_replies:
  assumes "env_ok env accepted written" and "rq_current s = None" and "rq_round_robin (rq_backend s) = [p]"
    and "rq_peers (rq_backend s) p = Some peer" and "\<And>h m w. \<exists>u. fst (sink_send env h m w) = Ok u"
    and "poll_stream (rq_stream peer) = (Ready (Some reply1), st, wk)"
    and "req_send_dropped env m1 (s, w) = (s1, w1)"
  shows "\<exists>s2 w2 s3. req_send env m2 (s1, w1) = (Ok (), s2, w2)
    \<and> written w2 (rq_sink peer) = written w (rq_sink peer)
        @ [Message_Message (push_front m1 []), Message_Message (push_front m2 [])]
    \<and> req_recv poll_stream s2 = (Ready (req_result (Some reply1)), s3)"
proof -
  let ?q = "rq_sink peer" and ?m = "\<lambda>m. Message_Message (push_front m [])"
  obtain u1 w1' where 1: "sink_send env ?q (?m m1) w = (Ok u1, w1')" using assms(5) [of ?q "?m m1" w] by (metis prod.collapse)
  have s1: "s1 = s" "w1 = w1'"
    using assms(2-4,7) 1 by (auto simp: req_send_dropped_def req_send_def)
  obtain u2 w2 where 2: "sink_send env ?q (?m m2) w1 = (Ok u2, w2)" using assms(5) [of ?q "?m m2" w1] by (metis prod.collapse)
  have "req_send env m2 (s1, w1) = (Ok (), s \<lparr> rq_current := Some p \<rparr>, w2)" using assms(2-4) 2 s1 by (simp add: req_send_def)
  moreover have "written w2 ?q = written w ?q @ [?m m1, ?m m2]"
    using env_sink_send [OF assms(1) 1] env_sink_send [OF assms(1) 2] s1 by simp
  ultimately show ?thesis using assms(4,6) by (simp add: req_recv_def Let_def)
qed

end
