(* ===== verification/Reconnect.thy ===== *)
theory Reconnect
  imports Sub_Backend Handshake Complex_Main
begin

text \<open>
  \<open>src/reconnect.rs\<close>: the background task that reconnects a SUB or XSUB socket to one endpoint.

  The task is a state machine that runs concurrently with the socket: it waits for a notification that its peer
  has disconnected, sleeps, tries to reconnect, and after a success registers for the next notification.
  \<open>task_step\<close> has one rule per step of the task between two points where it can be interrupted, \<open>world_step\<close>
  the steps of the others. The state contains the socket's backend, so that both use the backend's own operations.
  Durations are exact real numbers of seconds; the rounding of the floating-point computation and the transport
  are not modelled here.
\<close>

section \<open>Configuration\<close>

record reconnect_config =
  initial_interval :: real
  max_interval :: real
  backoff_multiplier :: real

definition reconnect_config_default :: reconnect_config where
  "reconnect_config_default = \<lparr> initial_interval = 1 / 10, max_interval = 30, backoff_multiplier = 2 \<rparr>"

text \<open>The next interval after a failed attempt; the jitter is a random number between 0 and 0.1.\<close>

definition next_interval :: "reconnect_config \<Rightarrow> real \<Rightarrow> real \<Rightarrow> real" where
  "next_interval cfg jitter current_interval =
     min (current_interval * backoff_multiplier cfg + jitter) (max_interval cfg)"

section \<open>One attempt\<close>

text \<open>\<open>try_reconnect\<close>: connect, exchange greetings, exchange READY commands, hand the connection to the backend.
  \<open>None\<close> is the panic of an out-of-range socket type.\<close>

definition try_reconnect ::
    "bytes \<Rightarrow> 'io snd_msg \<Rightarrow> 'io nxt_msg \<Rightarrow> socket_type \<Rightarrow> socket_options
      \<Rightarrow> (peer_identity \<Rightarrow> 'io \<Rightarrow> 'st \<Rightarrow> 'st) \<Rightarrow> ('io \<times> endpoint) zmq_result \<Rightarrow> 'st
      \<Rightarrow> ((peer_identity \<times> endpoint) zmq_result \<times> 'st) option" where
  "try_reconnect uuid snd_msg nxt_msg socket_type options backend_connected connection st =
     (case connection of
        Inl e \<Rightarrow> Some (Err e, st)
      | Inr (io, resolved_endpoint) \<Rightarrow>
          (case greet_exchange snd_msg nxt_msg io of
             (Inl e, _) \<Rightarrow> Some (Err e, st)
           | (Inr _, io1) \<Rightarrow>
               (case ready_exchange uuid snd_msg nxt_msg socket_type (identity_props options) io1 of
                  None \<Rightarrow> None
                | Some (Inl e, _) \<Rightarrow> Some (Err e, st)
                | Some (Inr pid, io2) \<Rightarrow> Some (Ok (pid, resolved_endpoint), backend_connected pid io2 st))))"

text \<open>It does what the first connection does.\<close>

lemma try_reconnect_eq:
  "try_reconnect uuid snd_msg nxt_msg t opts conn (Ok (io, ep)) st
    = map_option (\<lambda>(r, st'). (map_sum id (\<lambda>pid. (pid, ep)) r, st'))
        (util_peer_connected uuid snd_msg nxt_msg t opts conn io st)"
  by (auto simp: try_reconnect_def util_peer_connected_def peer_handshake_def
      split: prod.splits sum.splits option.splits)

section \<open>The task\<close>

datatype task_pc = AwaitDisconnect | Sleeping | Attempting | Registering peer_identity | TaskStopped

record ('s, 'w) reconnect_task =
  pc :: task_pc
  current_interval :: real
  attempt :: nat
  inbox :: "peer_identity list"
  stop_requested :: bool
  socket :: "'s sub_backend \<times> 'w"

text \<open>\<open>spawn_reconnect_task\<close> right after the first connection, when the peer is connected and not yet
  registered. \<open>notifier\<close> is the number of the task's channel.\<close>

definition spawn_reconnect_task :: "peer_identity \<Rightarrow> 's sub_backend \<times> 'w \<Rightarrow> ('s, 'w) reconnect_task" where
  "spawn_reconnect_task initial_peer_id bw =
     \<lparr> pc = Registering initial_peer_id, current_interval = 0, attempt = 0, inbox = [], stop_requested = False,
       socket = bw \<rparr>"

inductive task_step ::
    "'w env \<Rightarrow> reconnect_config \<Rightarrow> nat \<Rightarrow> ('s, 'w) reconnect_task \<Rightarrow> ('s, 'w) reconnect_task \<Rightarrow> bool"
  for env cfg notifier where
  register: "pc t = Registering pid \<Longrightarrow> socket t = (b, w) \<Longrightarrow> task_step env cfg notifier t
     (t \<lparr> pc := AwaitDisconnect, socket := (sub_register_disconnect_notifier pid notifier b, w) \<rparr>)"
| notice: "pc t = AwaitDisconnect \<Longrightarrow> inbox t = pid # rest \<Longrightarrow> task_step env cfg notifier t
     (t \<lparr> pc := Sleeping, inbox := rest, current_interval := initial_interval cfg, attempt := 1 \<rparr>)"
| stop_waiting: "pc t = AwaitDisconnect \<Longrightarrow> stop_requested t \<Longrightarrow> task_step env cfg notifier t (t \<lparr> pc := TaskStopped \<rparr>)"
| elapsed: "pc t = Sleeping \<Longrightarrow> task_step env cfg notifier t (t \<lparr> pc := Attempting \<rparr>)"
| stop_sleeping: "pc t = Sleeping \<Longrightarrow> stop_requested t \<Longrightarrow> task_step env cfg notifier t (t \<lparr> pc := TaskStopped \<rparr>)"
| connected: "pc t = Attempting \<Longrightarrow> sub_peer_connected env pid io (socket t) = (b', w') \<Longrightarrow> task_step env cfg notifier t
     (t \<lparr> pc := Registering pid, socket := (b', monitor_event env (sb_monitor b') (Connected ep pid) w') \<rparr>)"
| failed: "pc t = Attempting \<Longrightarrow> 0 \<le> jitter \<Longrightarrow> jitter < 1 / 10 \<Longrightarrow> task_step env cfg notifier t
     (t \<lparr> pc := Sleeping, current_interval := next_interval cfg jitter (current_interval t), attempt := attempt t + 1 \<rparr>)"

text \<open>The others: a peer's connection ends (\<open>lost\<close>), which notifies the task when its channel is registered for
  this peer; a peer connects through a listener; the socket asks the task to stop.\<close>

inductive world_step ::
    "'w env \<Rightarrow> nat \<Rightarrow> ('s, 'w) reconnect_task \<Rightarrow> ('s, 'w) reconnect_task \<Rightarrow> bool" for env notifier where
  lost: "world_step env notifier t
     (t \<lparr> socket := sub_peer_disconnected env pid (socket t),
          inbox := inbox t @ (if sb_notifiers (fst (socket t)) pid = Some notifier then [pid] else []) \<rparr>)"
| accepted: "world_step env notifier t (t \<lparr> socket := sub_peer_connected env pid io (socket t) \<rparr>)"
| stop: "world_step env notifier t (t \<lparr> stop_requested := True \<rparr>)"

text \<open>\<open>ReconnectHandle::shutdown\<close> is the step \<open>stop\<close>.\<close>

definition reconnect_shutdown :: "('s, 'w) reconnect_task \<Rightarrow> ('s, 'w) reconnect_task" where
  "reconnect_shutdown t = t \<lparr> stop_requested := True \<rparr>"

lemma reconnect_shutdown_step: "world_step env notifier t (reconnect_shutdown t)"
  unfolding reconnect_shutdown_def by (rule world_step.stop)

inductive_cases task_stepE: "task_step env cfg notifier t t'"
inductive_cases world_stepE: "world_step env notifier t t'"

text \<open>Runs of the task and the world. A run is quiet when no connection is lost between a connection and its
  registration.\<close>

inductive task_run ::
    "'w env \<Rightarrow> reconnect_config \<Rightarrow> nat \<Rightarrow> bool \<Rightarrow> ('s, 'w) reconnect_task \<Rightarrow> ('s, 'w) reconnect_task \<Rightarrow> bool"
  for env cfg notifier quiet where
  here: "task_run env cfg notifier quiet t t"
| task: "task_run env cfg notifier quiet t t' \<Longrightarrow> task_step env cfg notifier t' t'' \<Longrightarrow> task_run env cfg notifier quiet t t''"
| world: "task_run env cfg notifier quiet t t' \<Longrightarrow> world_step env notifier t' t''
    \<Longrightarrow> quiet \<longrightarrow> (\<forall>pid. pc t' = Registering pid \<longrightarrow> dom (sb_peers (fst (socket t'))) \<subseteq> dom (sb_peers (fst (socket t''))))
    \<Longrightarrow> task_run env cfg notifier quiet t t''"

section \<open>Lemmas\<close>

text \<open>The invariant: a registering task's peer is connected; a waiting task has a notice, or is registered with a
  connected peer.\<close>

definition watching :: "nat \<Rightarrow> ('s, 'w) reconnect_task \<Rightarrow> bool" where
  "watching notifier t = (let b = fst (socket t) in
     case pc t of
       Registering pid \<Rightarrow> pid \<in> dom (sb_peers b)
     | AwaitDisconnect \<Rightarrow> inbox t \<noteq> [] \<or> (\<exists>pid. sb_notifiers b pid = Some notifier \<and> pid \<in> dom (sb_peers b))
     | _ \<Rightarrow> True)"

lemma task_step_watching:
  assumes "task_step env cfg notifier t t'" and "sinks_work env" and "watching notifier t"
  shows "watching notifier t'"
  using assms(1,3)
proof cases
  case (register pid b w)
  with assms(3) show ?thesis by (auto simp: watching_def sub_register_disconnect_notifier_def)
next
  case (connected pid io b' w' ep)
  obtain b w where "socket t = (b, w)" by fastforce
  with connected sub_connected_peers(1) [OF assms(2), of pid io b w] show ?thesis by (simp add: watching_def)
qed (simp_all add: watching_def)

lemma world_step_watching:
  assumes "world_step env notifier t t'" and "sinks_work env" and "watching notifier t"
    and "\<forall>pid. pc t = Registering pid \<longrightarrow> dom (sb_peers (fst (socket t))) \<subseteq> dom (sb_peers (fst (socket t')))"
  shows "watching notifier t'"
  using assms(1)
proof cases
  case (lost pid)
  obtain b w where st: "socket t = (b, w)" by fastforce
  have f: "sb_peers (fst (socket t')) = (sb_peers b)(pid := None)" "sb_notifiers (fst (socket t')) = (sb_notifiers b)(pid := None)"
    unfolding lost by (simp_all add: st)
  show ?thesis
  proof (cases "pc t")
    case AwaitDisconnect
    then have pc': "pc t' = AwaitDisconnect" unfolding lost by simp
    have box: "inbox t' = inbox t @ (if sb_notifiers b pid = Some notifier then [pid] else [])"
      unfolding lost by (simp add: st)
    from assms(3) AwaitDisconnect consider "inbox t \<noteq> []" | q where "sb_notifiers b q = Some notifier" "q \<in> dom (sb_peers b)"
      by (auto simp: watching_def st)
    then show ?thesis
    proof cases
      case 1
      then show ?thesis using pc' box by (simp add: watching_def)
    next
      case (2 q)
      then show ?thesis using pc' box f by (cases "q = pid") (auto simp: watching_def)
    qed
  next
    case (Registering q)
    with assms(3,4) have "q \<in> dom (sb_peers (fst (socket t')))" by (auto simp: watching_def)
    moreover have "pc t' = Registering q" unfolding lost using Registering by simp
    ultimately show ?thesis by (simp add: watching_def)
  qed (simp_all add: lost watching_def)
next
  case (accepted pid io)
  obtain b w where st: "socket t = (b, w)" by fastforce
  with sub_connected_peers [OF assms(2), of pid io b w] assms(3) show ?thesis
    unfolding accepted by (auto simp: watching_def Let_def split: task_pc.splits)
next
  case stop
  with assms(3) show ?thesis by (cases "pc t") (simp_all add: watching_def)
qed

lemma task_run_watching:
  assumes "task_run env cfg notifier quiet t t'" and "quiet" and "sinks_work env" and "watching notifier t"
  shows "watching notifier t'"
  using assms
  by (induction rule: task_run.induct) (auto intro: task_step_watching world_step_watching)

text \<open>The interval.\<close>

definition cfg_ok :: "reconnect_config \<Rightarrow> bool" where
  "cfg_ok cfg \<longleftrightarrow> 0 < initial_interval cfg \<and> initial_interval cfg \<le> max_interval cfg \<and> 1 \<le> backoff_multiplier cfg"

definition interval_ok :: "reconnect_config \<Rightarrow> ('s, 'w) reconnect_task \<Rightarrow> bool" where
  "interval_ok cfg t \<longleftrightarrow> (pc t = Sleeping \<or> pc t = Attempting \<longrightarrow>
     0 < attempt t \<and> initial_interval cfg \<le> current_interval t \<and> current_interval t \<le> max_interval cfg
     \<and> min (max_interval cfg) (initial_interval cfg * backoff_multiplier cfg ^ (attempt t - 1)) \<le> current_interval t)"

lemma next_interval_bounds:
  assumes "cfg_ok cfg" and "0 \<le> jitter" and "initial_interval cfg \<le> x"
    and "min (max_interval cfg) (initial_interval cfg * backoff_multiplier cfg ^ n) \<le> x"
  shows "initial_interval cfg \<le> next_interval cfg jitter x" "next_interval cfg jitter x \<le> max_interval cfg"
    and "min (max_interval cfg) (initial_interval cfg * backoff_multiplier cfg ^ Suc n) \<le> next_interval cfg jitter x"
proof -
  let ?m = "backoff_multiplier cfg"
  have pos: "0 < x" "1 \<le> ?m" using assms(1,3) by (simp_all add: cfg_ok_def)
  then have grow: "x \<le> x * ?m" by simp
  have "initial_interval cfg \<le> x * ?m + jitter" using grow assms(2,3) by linarith
  then show "initial_interval cfg \<le> next_interval cfg jitter x" using assms(1) by (simp add: next_interval_def cfg_ok_def)
  show "next_interval cfg jitter x \<le> max_interval cfg" by (simp add: next_interval_def)
  show "min (max_interval cfg) (initial_interval cfg * ?m ^ Suc n) \<le> next_interval cfg jitter x"
  proof (cases "initial_interval cfg * ?m ^ n \<le> x")
    case True
    then have "initial_interval cfg * ?m ^ n * ?m \<le> x * ?m" using pos by (intro mult_right_mono) simp_all
    then show ?thesis using assms(2) by (simp add: next_interval_def mult_ac min_le_iff_disj)
  next
    case False
    with assms(4) have "max_interval cfg \<le> x" by linarith
    then have "max_interval cfg \<le> x * ?m + jitter" using grow assms(2) by linarith
    then show ?thesis by (simp add: next_interval_def)
  qed
qed

lemma task_step_interval:
  assumes "task_step env cfg notifier t t'" and "cfg_ok cfg" and "interval_ok cfg t"
  shows "interval_ok cfg t'"
  using assms(1)
proof cases
  case (failed jitter)
  have i: "0 < attempt t" "initial_interval cfg \<le> current_interval t"
    "min (max_interval cfg) (initial_interval cfg * backoff_multiplier cfg ^ (attempt t - 1)) \<le> current_interval t"
    using assms(3) failed(2) by (simp_all add: interval_ok_def)
  have "Suc (attempt t - 1) = attempt t" using i(1) by simp
  with next_interval_bounds [OF assms(2) failed(3) i(2,3)] show ?thesis
    unfolding failed by (simp add: interval_ok_def)
qed (use assms(2,3) in \<open>simp_all add: interval_ok_def cfg_ok_def\<close>)

lemma task_run_interval:
  assumes "task_run env cfg notifier quiet t t'" and "cfg_ok cfg" and "interval_ok cfg t"
  shows "interval_ok cfg t'"
  using assms
proof (induction rule: task_run.induct)
  case (task t t' t'')
  then show ?case using task_step_interval by blast
next
  case (world t t' t'')
  from world.hyps(2) world.IH [OF world.prems] show ?case by cases (simp_all add: interval_ok_def)
qed simp

section \<open>Properties\<close>

text \<open>The reconnection back-off: in every reachable state of the task between a disconnection and the next
  connection, the interval is at least the initial and at most the maximal one, and after \<open>n\<close> failed attempts it
  has grown to the initial interval times the \<open>n\<close>-th power of the multiplier, or to the maximum.\<close>

theorem reconnect_backoff:
  assumes "cfg_ok cfg" and "task_run env cfg notifier quiet (spawn_reconnect_task pid bw) t"
    and "pc t = Sleeping \<or> pc t = Attempting"
  shows "initial_interval cfg \<le> current_interval t \<and> current_interval t \<le> max_interval cfg
    \<and> min (max_interval cfg) (initial_interval cfg * backoff_multiplier cfg ^ (attempt t - 1)) \<le> current_interval t"
proof -
  have "interval_ok cfg (spawn_reconnect_task pid bw)" by (simp add: interval_ok_def spawn_reconnect_task_def)
  from task_run_interval [OF assms(2,1) this] assms(3) show ?thesis by (simp add: interval_ok_def)
qed

text \<open>A run for the examples: the peer is registered, lost, and the first attempt fails.\<close>

definition sample_sub :: "byte sub_backend" where
  "sample_sub = (sub_with_options options_default) \<lparr> sb_peers := [[1] \<mapsto> 3] \<rparr>"

lemma sample_task_run:
  fixes w :: "(nat \<Rightarrow> message list) \<times> (nat \<Rightarrow> message list) \<times> nat"
  shows "\<exists>t. task_run (sample_env [] []) reconnect_config_default 0 True
      (spawn_reconnect_task [1] (sample_sub, w)) t \<and> pc t = Sleeping \<and> attempt t = 2"
proof -
  let ?e = "sample_env [] []" and ?c = reconnect_config_default
  let ?t0 = "spawn_reconnect_task [1] (sample_sub, w)"
  let ?t1 = "?t0 \<lparr> pc := AwaitDisconnect, socket := (sub_register_disconnect_notifier [1] 0 sample_sub, w) \<rparr>"
  let ?t2 = "?t1 \<lparr> socket := sub_peer_disconnected ?e [1] (socket ?t1),
          inbox := inbox ?t1 @ (if sb_notifiers (fst (socket ?t1)) [1] = Some 0 then [[1]] else []) \<rparr>"
  have box: "inbox ?t2 = [[1]]" by (simp add: spawn_reconnect_task_def sub_register_disconnect_notifier_def)
  let ?t3 = "?t2 \<lparr> pc := Sleeping, inbox := [], current_interval := initial_interval ?c, attempt := 1 \<rparr>"
  let ?t4 = "?t3 \<lparr> pc := Attempting \<rparr>"
  let ?t5 = "?t4 \<lparr> pc := Sleeping, current_interval := next_interval ?c 0 (current_interval ?t4), attempt := attempt ?t4 + 1 \<rparr>"
  have s1: "task_step ?e ?c 0 ?t0 ?t1" by (rule task_step.register) (simp_all add: spawn_reconnect_task_def)
  have s2: "world_step ?e 0 ?t1 ?t2" by (rule world_step.lost)
  have s3: "task_step ?e ?c 0 ?t2 ?t3" by (rule task_step.notice [OF _ box]) simp
  have s4: "task_step ?e ?c 0 ?t3 ?t4" by (rule task_step.elapsed) simp
  have s5: "task_step ?e ?c 0 ?t4 ?t5" by (rule task_step.failed) simp_all
  have "task_run ?e ?c 0 True ?t0 ?t1" by (rule task_run.task [OF task_run.here s1])
  then have "task_run ?e ?c 0 True ?t0 ?t2" by (rule task_run.world [OF _ s2]) simp
  from task_run.task [OF task_run.task [OF task_run.task [OF this s3] s4] s5]
  show ?thesis by (intro exI [of _ ?t5]) simp
qed

theorem reconnect_backoff_witness:
  "\<exists>t :: (byte, (nat \<Rightarrow> message list) \<times> (nat \<Rightarrow> message list) \<times> nat) reconnect_task.
     task_run (sample_env [] []) reconnect_config_default 0 True
       (spawn_reconnect_task [1] (sample_sub, (\<lambda>_. [], \<lambda>_. [], 0))) t
     \<and> attempt t = 2 \<and> 1 / 5 \<le> current_interval t \<and> current_interval t \<le> 30"
proof -
  obtain t where t: "task_run (sample_env [] []) reconnect_config_default 0 True
      (spawn_reconnect_task [1] (sample_sub, (\<lambda>_. [], \<lambda>_. [], 0))) t" "pc t = Sleeping" "attempt t = 2"
    using sample_task_run by blast
  have "cfg_ok reconnect_config_default" by (simp add: cfg_ok_def reconnect_config_default_def)
  from reconnect_backoff [OF this t(1)] t show ?thesis by (intro exI [of _ t]) (simp add: reconnect_config_default_def)
qed



text \<open>C31: In that window a disconnection is overlooked: when the new connection ends after \<open>peer_connected\<close> and
  before the task registers, the task ends up waiting with an empty inbox for a peer that is not connected, and no
  step of its own is left but stopping.\<close>

theorem reconnect_race_orphans:
  assumes "pc t = Registering pid" and "inbox t = []" and "sb_notifiers (fst (socket t)) pid \<noteq> Some notifier"
  shows "\<exists>t'. task_run env cfg notifier False t t' \<and> pc t' = AwaitDisconnect \<and> inbox t' = []
    \<and> pid \<notin> dom (sb_peers (fst (socket t')))
    \<and> (\<forall>t''. task_step env cfg notifier t' t'' \<longrightarrow> stop_requested t' \<and> pc t'' = TaskStopped)"
proof -
  obtain b w where st: "socket t = (b, w)" by fastforce
  let ?t1 = "t \<lparr> socket := sub_peer_disconnected env pid (socket t),
      inbox := inbox t @ (if sb_notifiers (fst (socket t)) pid = Some notifier then [pid] else []) \<rparr>"
  obtain b1 w1 where d: "sub_peer_disconnected env pid (b, w) = (b1, w1)" by fastforce
  let ?t2 = "?t1 \<lparr> pc := AwaitDisconnect, socket := (sub_register_disconnect_notifier pid notifier b1, w1) \<rparr>"
  have "task_run env cfg notifier False t ?t1" by (rule task_run.world [OF task_run.here world_step.lost]) simp
  moreover have "task_step env cfg notifier ?t1 ?t2" by (rule task_step.register) (simp_all add: assms(1) st d)
  ultimately have "task_run env cfg notifier False t ?t2" by (rule task_run.task)
  moreover have "pid \<notin> dom (sb_peers (fst (socket ?t2)))"
    using sub_disconnected_fields(1) [of env pid b w] d by (simp add: sub_register_disconnect_notifier_def)
  moreover have "stop_requested ?t2 \<and> pc t'' = TaskStopped" if "task_step env cfg notifier ?t2 t''" for t''
    using that by cases (simp_all add: assms)
  ultimately show ?thesis by (intro exI [of _ ?t2]) (simp add: assms)
qed

theorem reconnect_race_orphans_witness:
  "\<exists>t'. task_run (sample_env [] []) reconnect_config_default 0 False
       (spawn_reconnect_task [1] (sample_sub, (\<lambda>_. [], \<lambda>_. [], 0))) t'
     \<and> pc t' = AwaitDisconnect \<and> inbox t' = [] \<and> [1] \<notin> dom (sb_peers (fst (socket t')))"
  using reconnect_race_orphans [of "spawn_reconnect_task [1] (sample_sub, (\<lambda>_. [], \<lambda>_. [], 0))" "[1]" 0
      "sample_env [] []" reconnect_config_default]
  by (auto simp: spawn_reconnect_task_def sample_sub_def sub_with_options_def sub_backend_with_options_def)

end
