(* ===== verification/Transport.thy ===== *)
theory Transport
  imports Errors Environment Framed
begin

text \<open>
  \<open>src/transport/mod.rs\<close>, \<open>tcp.rs\<close> and \<open>ipc.rs\<close>, for a build with both transports on a Unix system. The
  system calls and the runtime's listeners are the fields of the record \<open>os\<close>, functions on the same world as those
  of \<open>env\<close>; what the code does with their results is modelled. An accept task is its loop over what \<open>select!\<close>
  yields.
\<close>

section \<open>Definitions\<close>

type_synonym socket_addr = "ip_addr \<times> port"

record ('c, 'l, 'r, 'w) os =
  os_tcp_connect :: "bytes \<Rightarrow> port \<Rightarrow> 'w \<Rightarrow> (io_error + 'c) \<times> 'w"
  os_set_nodelay :: "'c \<Rightarrow> 'w \<Rightarrow> (io_error + unit) \<times> 'w"
  os_set_recv_buffer_size :: "'c \<Rightarrow> nat \<Rightarrow> 'w \<Rightarrow> (io_error + unit) \<times> 'w"
  os_set_send_buffer_size :: "'c \<Rightarrow> nat \<Rightarrow> 'w \<Rightarrow> (io_error + unit) \<times> 'w"
  os_peer_addr :: "'c \<Rightarrow> 'w \<Rightarrow> (io_error + socket_addr) \<times> 'w"
  os_tcp_bind :: "bytes \<Rightarrow> port \<Rightarrow> 'w \<Rightarrow> (io_error + 'l) \<times> 'w"
  os_local_addr :: "'l \<Rightarrow> 'w \<Rightarrow> (io_error + socket_addr) \<times> 'w"
  os_set_nonblocking :: "'l \<Rightarrow> 'w \<Rightarrow> (io_error + unit) \<times> 'w"
  os_from_std :: "'l \<Rightarrow> 'w \<Rightarrow> (io_error + 'l) \<times> 'w"
  os_unix_connect :: "bytes \<Rightarrow> 'w \<Rightarrow> (io_error + 'c) \<times> 'w"
  os_unix_peer_addr :: "'c \<Rightarrow> 'w \<Rightarrow> (io_error + bytes option) \<times> 'w"
  os_unix_bind :: "bytes \<Rightarrow> 'w \<Rightarrow> (io_error + 'l) \<times> 'w"
  os_unix_local_addr :: "'l \<Rightarrow> 'w \<Rightarrow> (io_error + bytes option) \<times> 'w"
  os_remove_file :: "bytes \<Rightarrow> 'w \<Rightarrow> (io_error + unit) \<times> 'w"
  os_split :: "'c \<Rightarrow> 'r \<times> nat"
  os_spawn :: "'l \<Rightarrow> endpoint \<Rightarrow> 'w \<Rightarrow> nat \<times> 'w"

text \<open>The operator \<open>?\<close> on a system call: its error is returned as \<open>ZmqError::Network\<close>.\<close>

definition io_try :: "(io_error + 'a) \<times> 'w \<Rightarrow> ('a \<Rightarrow> 'w \<Rightarrow> 'b zmq_result \<times> 'w) \<Rightarrow> 'b zmq_result \<times> 'w" where
  "io_try r f = (case r of (Inl e, w) \<Rightarrow> (Err (ErrNetwork e), w) | (Inr x, w) \<Rightarrow> f x w)"

definition endpoint_from_tcp_addr :: "socket_addr \<Rightarrow> endpoint" where
  "endpoint_from_tcp_addr addr = Tcp (host_from (fst addr)) (snd addr)"

text \<open>\<open>FramedIo::new\<close> and \<open>make_framed\<close>.\<close>

definition framed_io_new :: "'r \<Rightarrow> nat \<Rightarrow> socket_options \<Rightarrow> 'r framed_read framed_io" where
  "framed_io_new reader writer options = \<lparr> read_half = framed_read_new reader options, write_half = writer \<rparr>"

definition make_framed :: "('c, 'l, 'r, 'w) os \<Rightarrow> 'c \<Rightarrow> socket_options \<Rightarrow> 'r framed_read framed_io" where
  "make_framed os stream options = (case os_split os stream of (read, write) \<Rightarrow> framed_io_new read write options)"

definition TCP_SOCKET_BUFFER_SIZE :: nat where "TCP_SOCKET_BUFFER_SIZE = 4 * 1024 * 1024"

text \<open>Failures to set a buffer size are only logged.\<close>

definition tune_socket_buffers :: "('c, 'l, 'r, 'w) os \<Rightarrow> 'c \<Rightarrow> 'w \<Rightarrow> 'w" where
  "tune_socket_buffers os raw_socket w =
     (let w1 = snd (os_set_recv_buffer_size os raw_socket TCP_SOCKET_BUFFER_SIZE w)
      in snd (os_set_send_buffer_size os raw_socket TCP_SOCKET_BUFFER_SIZE w1))"

type_synonym 'r connection = "'r framed_read framed_io \<times> endpoint"

definition tcp_connect ::
    "('c, 'l, 'r, 'w) os \<Rightarrow> host \<Rightarrow> port \<Rightarrow> socket_options \<Rightarrow> 'w \<Rightarrow> 'r connection zmq_result \<times> 'w" where
  "tcp_connect os host port options w =
     io_try (os_tcp_connect os (show_host host) port w) (\<lambda>raw_socket w.
       io_try (os_set_nodelay os raw_socket w) (\<lambda>_ w.
         io_try (os_peer_addr os raw_socket (tune_socket_buffers os raw_socket w)) (\<lambda>peer_addr w.
           (Ok (make_framed os raw_socket options, endpoint_from_tcp_addr peer_addr), w))))"

definition ipc_connect ::
    "('c, 'l, 'r, 'w) os \<Rightarrow> bytes \<Rightarrow> socket_options \<Rightarrow> 'w \<Rightarrow> 'r connection zmq_result \<times> 'w" where
  "ipc_connect os path options w =
     io_try (os_unix_connect os path w) (\<lambda>raw_socket w.
       io_try (os_unix_peer_addr os raw_socket w) (\<lambda>peer_addr w.
         (Ok (make_framed os raw_socket options, Ipc peer_addr), w)))"

definition transport_connect ::
    "('c, 'l, 'r, 'w) os \<Rightarrow> endpoint \<Rightarrow> socket_options \<Rightarrow> 'w \<Rightarrow> 'r connection zmq_result \<times> 'w" where
  "transport_connect os endpoint options w =
     (case endpoint of
        Tcp host port \<Rightarrow> tcp_connect os host port options w
      | Ipc (Some path) \<Rightarrow> ipc_connect os path options w
      | Ipc None \<Rightarrow> (Err (ErrSocket ''Cannot connect to an unnamed ipc socket''), w))"

section \<open>Listening\<close>

text \<open>A bound listener's accept task is spawned; the result is the endpoint and the handle that stops it.\<close>

definition tcp_begin_accept_bound ::
    "('c, 'l, 'r, 'w) os \<Rightarrow> 'l \<Rightarrow> endpoint \<Rightarrow> 'w \<Rightarrow> (endpoint \<times> nat) zmq_result \<times> 'w" where
  "tcp_begin_accept_bound os listener endpoint w =
     (let spawned = os_spawn os listener endpoint w in (Ok (endpoint, fst spawned), snd spawned))"

definition ipc_begin_accept_bound ::
    "('c, 'l, 'r, 'w) os \<Rightarrow> 'l \<Rightarrow> bytes option \<Rightarrow> 'w \<Rightarrow> (endpoint \<times> nat) zmq_result \<times> 'w" where
  "ipc_begin_accept_bound os listener resolved_addr w =
     (let spawned = os_spawn os listener (Ipc resolved_addr) w in (Ok (Ipc resolved_addr, fst spawned), snd spawned))"

definition tcp_begin_accept ::
    "('c, 'l, 'r, 'w) os \<Rightarrow> host \<Rightarrow> port \<Rightarrow> 'w \<Rightarrow> (endpoint \<times> nat) zmq_result \<times> 'w" where
  "tcp_begin_accept os host port w =
     io_try (os_tcp_bind os (show_host host) port w) (\<lambda>listener w.
       io_try (os_local_addr os listener w) (\<lambda>resolved_addr w.
         tcp_begin_accept_bound os listener (Tcp host (snd resolved_addr)) w))"

definition tcp_begin_accept_listener ::
    "('c, 'l, 'r, 'w) os \<Rightarrow> 'l \<Rightarrow> 'w \<Rightarrow> (endpoint \<times> nat) zmq_result \<times> 'w" where
  "tcp_begin_accept_listener os listener w =
     io_try (os_local_addr os listener w) (\<lambda>resolved_addr w.
       io_try (os_set_nonblocking os listener w) (\<lambda>_ w.
         io_try (os_from_std os listener w) (\<lambda>listener w.
           tcp_begin_accept_bound os listener (endpoint_from_tcp_addr resolved_addr) w)))"

text \<open>Binding to the path \<open>*\<close> panics (\<open>todo!\<close>): \<open>None\<close>.\<close>

definition ipc_begin_accept ::
    "('c, 'l, 'r, 'w) os \<Rightarrow> bytes \<Rightarrow> 'w \<Rightarrow> ((endpoint \<times> nat) zmq_result \<times> 'w) option" where
  "ipc_begin_accept os path w =
     (if path = str ''*'' then None
      else Some (io_try (os_unix_bind os path w) (\<lambda>listener w.
        io_try (os_unix_local_addr os listener w) (\<lambda>resolved_addr w.
          ipc_begin_accept_bound os listener resolved_addr w))))"

definition ipc_begin_accept_listener ::
    "('c, 'l, 'r, 'w) os \<Rightarrow> 'l \<Rightarrow> 'w \<Rightarrow> (endpoint \<times> nat) zmq_result \<times> 'w" where
  "ipc_begin_accept_listener os listener w =
     io_try (os_unix_local_addr os listener w) (\<lambda>resolved_addr w.
       io_try (os_set_nonblocking os listener w) (\<lambda>_ w.
         io_try (os_from_std os listener w) (\<lambda>listener w.
           ipc_begin_accept_bound os listener resolved_addr w)))"

datatype 'l listener = TcpListener 'l | IpcListener 'l

definition transport_begin_accept ::
    "('c, 'l, 'r, 'w) os \<Rightarrow> endpoint \<Rightarrow> 'w \<Rightarrow> ((endpoint \<times> nat) zmq_result \<times> 'w) option" where
  "transport_begin_accept os endpoint w =
     (case endpoint of
        Tcp host port \<Rightarrow> Some (tcp_begin_accept os host port w)
      | Ipc (Some path) \<Rightarrow> ipc_begin_accept os path w
      | Ipc None \<Rightarrow> Some (Err (ErrSocket ''Cannot begin accepting peers at an unnamed ipc socket''), w))"

definition transport_begin_accept_listener ::
    "('c, 'l, 'r, 'w) os \<Rightarrow> 'l listener \<Rightarrow> 'w \<Rightarrow> (endpoint \<times> nat) zmq_result \<times> 'w" where
  "transport_begin_accept_listener os listener w =
     (case listener of
        TcpListener l \<Rightarrow> tcp_begin_accept_listener os l w
      | IpcListener l \<Rightarrow> ipc_begin_accept_listener os l w)"

section \<open>The accept tasks\<close>

datatype ('c, 'a) accept_event = Incoming "io_error + ('c \<times> 'a)" | StopAccept

text \<open>What becomes of an accepted TCP connection: a failure to set \<open>nodelay\<close> is reported like a failed accept.\<close>

definition tcp_accepted ::
    "('c, 'l, 'r, 'w) os \<Rightarrow> socket_options \<Rightarrow> io_error + ('c \<times> socket_addr) \<Rightarrow> 'w \<Rightarrow> 'r connection zmq_result \<times> 'w" where
  "tcp_accepted os options incoming w =
     io_try (incoming, w) (\<lambda>(raw_socket, remote_addr) w.
       io_try (os_set_nodelay os raw_socket w) (\<lambda>_ w.
         (Ok (make_framed os raw_socket options, endpoint_from_tcp_addr remote_addr),
          tune_socket_buffers os raw_socket w)))"

fun tcp_accept_loop ::
    "('c, 'l, 'r, 'w) os \<Rightarrow> socket_options \<Rightarrow> ('r connection zmq_result \<Rightarrow> 'w \<Rightarrow> 'w)
      \<Rightarrow> ('c, socket_addr) accept_event list \<Rightarrow> 'w \<Rightarrow> 'w" where
  "tcp_accept_loop os options cback [] w = w"
| "tcp_accept_loop os options cback (StopAccept # es) w = w"
| "tcp_accept_loop os options cback (Incoming i # es) w =
     (case tcp_accepted os options i w of (r, w') \<Rightarrow> tcp_accept_loop os options cback es (cback r w'))"

text \<open>The IPC task removes the socket's file when it stops.\<close>

fun ipc_accept_loop ::
    "('c, 'l, 'r, 'w) os \<Rightarrow> socket_options \<Rightarrow> bytes option \<Rightarrow> ('r connection zmq_result \<Rightarrow> 'w \<Rightarrow> 'w)
      \<Rightarrow> ('c, bytes option) accept_event list \<Rightarrow> 'w \<Rightarrow> 'w" where
  "ipc_accept_loop os options listener_addr cback [] w = w"
| "ipc_accept_loop os options listener_addr cback (StopAccept # es) w =
     (case listener_addr of Some path \<Rightarrow> snd (os_remove_file os path w) | None \<Rightarrow> w)"
| "ipc_accept_loop os options listener_addr cback (Incoming i # es) w =
     ipc_accept_loop os options listener_addr cback es
       (cback (case i of
                 Inl e \<Rightarrow> Err (ErrNetwork e)
               | Inr (raw_socket, peer_addr) \<Rightarrow> Ok (make_framed os raw_socket options, Ipc peer_addr)) w)"

section \<open>Lemmas\<close>

text \<open>The reader of every new connection starts in a well-formed state.\<close>

lemma make_framed_wf: "options_wf options \<Longrightarrow> framed_wf (read_half (make_framed os c options))"
  by (auto simp: make_framed_def framed_io_new_def framed_wf_new split: prod.splits)

lemma io_try_Ok: "io_try r f = (Ok y, w') \<longleftrightarrow> (\<exists>x w. r = (Ok x, w) \<and> f x w = (Ok y, w'))"
  by (auto simp: io_try_def split: prod.splits sum.splits)

lemma transport_connect_wf:
  "transport_connect os ep options w = (Ok (io, ep'), w') \<Longrightarrow> options_wf options \<Longrightarrow> framed_wf (read_half io)"
  by (auto simp: transport_connect_def tcp_connect_def ipc_connect_def io_try_Ok make_framed_wf
      split: endpoint.splits option.splits)

text \<open>A bound TCP endpoint keeps its host and has the listener's port.\<close>

lemma tcp_begin_accept_endpoint:
  assumes "transport_begin_accept os (Tcp h p) w = Some (Ok (ep, handle), w')"
  shows "\<exists>p'. ep = Tcp h p'"
  using assms by (auto simp: transport_begin_accept_def tcp_begin_accept_def tcp_begin_accept_bound_def io_try_Ok Let_def)

text \<open>After the stop signal nothing is accepted.\<close>

lemma tcp_accept_loop_stop:
  "tcp_accept_loop os options cback (es @ StopAccept # es') w = tcp_accept_loop os options cback (es @ [StopAccept]) w"
proof (induction es arbitrary: w)
  case (Cons e es)
  then show ?case by (cases e) (auto split: prod.splits)
qed simp

end
