(* ===== verification/Windows_Ipc.thy ===== *)
theory Windows_Ipc
  imports Transport
begin

text \<open>
  \<open>src/transport/ipc/windows.rs\<close>: the adapter that gives the IPC transport Unix-domain streams and listeners on
  Windows, and the Windows branches of \<open>src/transport/ipc.rs\<close>. The socket calls of \<open>socket2\<close> and the readiness of
  \<open>async-io\<close> are the fields of the record \<open>winsock\<close>; an awaited call is given by its result. A socket that goes out of
  scope at an early return is closed by its destructor: \<open>dropping\<close> writes that out.
\<close>

section \<open>Definitions\<close>

record ('a, 's, 'w) winsock =
  sockaddr_unix :: "bytes \<Rightarrow> io_error + 'a"
  socket_new :: "'w \<Rightarrow> (io_error + 's) \<times> 'w"
  socket_set_nonblocking :: "'s \<Rightarrow> bool \<Rightarrow> 'w \<Rightarrow> (io_error + unit) \<times> 'w"
  socket_connect_to :: "'s \<Rightarrow> 'a \<Rightarrow> 'w \<Rightarrow> (io_error + unit) \<times> 'w"
  socket_bind :: "'s \<Rightarrow> 'a \<Rightarrow> 'w \<Rightarrow> (io_error + unit) \<times> 'w"
  socket_listen :: "'s \<Rightarrow> nat \<Rightarrow> 'w \<Rightarrow> (io_error + unit) \<times> 'w"
  socket_take_error :: "'s \<Rightarrow> 'w \<Rightarrow> (io_error + io_error option) \<times> 'w"
  socket_shutdown_write :: "'s \<Rightarrow> 'w \<Rightarrow> (io_error + unit) \<times> 'w"
  socket_close :: "'s \<Rightarrow> 'w \<Rightarrow> 'w"
  async_new :: "'s \<Rightarrow> 'w \<Rightarrow> (io_error + unit) \<times> 'w"
  async_new_nonblocking :: "'s \<Rightarrow> 'w \<Rightarrow> (io_error + unit) \<times> 'w"
  async_writable :: "'s \<Rightarrow> 'w \<Rightarrow> (io_error + unit) \<times> 'w"
  async_accept :: "'s \<Rightarrow> 'w \<Rightarrow> (io_error + 's \<times> 'a) \<times> 'w"
  async_poll_read :: "'s \<Rightarrow> nat \<Rightarrow> 'w \<Rightarrow> (io_error + bytes) poll \<times> 'w"
  async_poll_write :: "'s \<Rightarrow> bytes \<Rightarrow> 'w \<Rightarrow> (io_error + nat) poll \<times> 'w"
  async_poll_flush :: "'s \<Rightarrow> 'w \<Rightarrow> (io_error + unit) poll \<times> 'w"

text \<open>The operator \<open>?\<close> in a function that returns \<open>io::Result\<close>.\<close>

definition io_bind :: "(io_error + 'x) \<times> 'w \<Rightarrow> ('x \<Rightarrow> 'w \<Rightarrow> (io_error + 'y) \<times> 'w) \<Rightarrow> (io_error + 'y) \<times> 'w" where
  "io_bind r f = (case r of (Inl e, w) \<Rightarrow> (Inl e, w) | (Inr x, w) \<Rightarrow> f x w)"

definition dropping :: "('a, 's, 'w) winsock \<Rightarrow> 's \<Rightarrow> (io_error + 'x) \<times> 'w \<Rightarrow> (io_error + 'x) \<times> 'w" where
  "dropping sys s r = (case r of (Inl e, w) \<Rightarrow> (Inl e, socket_close sys s w) | (Inr x, w) \<Rightarrow> (Inr x, w))"

text \<open>\<open>UnixStream\<close> and \<open>UnixListener\<close> wrap a socket registered with the reactor.\<close>

datatype 's unix_stream = UnixStream 's
datatype 's unix_listener = UnixListener 's

text \<open>The rest of \<open>UnixStream::connect\<close> once the connection is under way: wait until the socket is writable and fetch
  the error of the connection, if there is one.\<close>

definition connect_finish :: "('a, 's, 'w) winsock \<Rightarrow> 's \<Rightarrow> 'w \<Rightarrow> (io_error + 's unix_stream) \<times> 'w" where
  "connect_finish sys socket w =
     io_bind (async_new_nonblocking sys socket w) (\<lambda>_ w.
       io_bind (async_writable sys socket w) (\<lambda>_ w.
         io_bind (socket_take_error sys socket w) (\<lambda>pending w.
           case pending of
             Some error \<Rightarrow> (Inl error, w)
           | None \<Rightarrow> (Inr (UnixStream socket), w))))"

definition unix_stream_connect :: "('a, 's, 'w) winsock \<Rightarrow> bytes \<Rightarrow> 'w \<Rightarrow> (io_error + 's unix_stream) \<times> 'w" where
  "unix_stream_connect sys path w =
     io_bind (sockaddr_unix sys path, w) (\<lambda>address w.
       io_bind (socket_new sys w) (\<lambda>socket w.
         dropping sys socket (io_bind (socket_set_nonblocking sys socket True w) (\<lambda>_ w.
           case socket_connect_to sys socket address w of
             (Inr _, w) \<Rightarrow> connect_finish sys socket w
           | (Inl error, w) \<Rightarrow> if error = WouldBlock then connect_finish sys socket w else (Inl error, w)))))"

definition unix_poll_read :: "('a, 's, 'w) winsock \<Rightarrow> 's unix_stream \<Rightarrow> nat \<Rightarrow> 'w \<Rightarrow> (io_error + bytes) poll \<times> 'w" where
  "unix_poll_read sys stream n w = (case stream of UnixStream s \<Rightarrow> async_poll_read sys s n w)"

definition unix_poll_write :: "('a, 's, 'w) winsock \<Rightarrow> 's unix_stream \<Rightarrow> bytes \<Rightarrow> 'w \<Rightarrow> (io_error + nat) poll \<times> 'w" where
  "unix_poll_write sys stream buffer w = (case stream of UnixStream s \<Rightarrow> async_poll_write sys s buffer w)"

definition unix_poll_flush :: "('a, 's, 'w) winsock \<Rightarrow> 's unix_stream \<Rightarrow> 'w \<Rightarrow> (io_error + unit) poll \<times> 'w" where
  "unix_poll_flush sys stream w = (case stream of UnixStream s \<Rightarrow> async_poll_flush sys s w)"

text \<open>Closing shuts down the writing direction only, at once.\<close>

definition unix_poll_close :: "('a, 's, 'w) winsock \<Rightarrow> 's unix_stream \<Rightarrow> 'w \<Rightarrow> (io_error + unit) poll \<times> 'w" where
  "unix_poll_close sys stream w =
     (case stream of UnixStream s \<Rightarrow> (case socket_shutdown_write sys s w of (r, w') \<Rightarrow> (Ready r, w')))"

definition unix_listener_bind :: "('a, 's, 'w) winsock \<Rightarrow> bytes \<Rightarrow> 'w \<Rightarrow> (io_error + 's unix_listener) \<times> 'w" where
  "unix_listener_bind sys path w =
     io_bind (sockaddr_unix sys path, w) (\<lambda>address w.
       io_bind (socket_new sys w) (\<lambda>socket w.
         dropping sys socket (io_bind (socket_bind sys socket address w) (\<lambda>_ w.
           io_bind (socket_listen sys socket 128 w) (\<lambda>_ w.
             io_bind (async_new sys socket w) (\<lambda>_ w. (Inr (UnixListener socket), w)))))))"

definition unix_accept :: "('a, 's, 'w) winsock \<Rightarrow> 's unix_listener \<Rightarrow> 'w \<Rightarrow> (io_error + 's unix_stream \<times> 'a) \<times> 'w" where
  "unix_accept sys listener w = (case listener of UnixListener l \<Rightarrow>
     io_bind (async_accept sys l w) (\<lambda>(socket, address) w.
       dropping sys socket (io_bind (async_new sys socket w) (\<lambda>_ w. (Inr (UnixStream socket, address), w)))))"

section \<open>The Windows branches of the IPC transport\<close>

text \<open>A pathname is not asked of the socket: a connection is known by the path it was made with, an accepted one by
  none. The record \<open>os\<close> gives the halves of a stream, the removal of the file and the spawning of the accept task.\<close>

definition win_make_framed ::
    "('s unix_stream, 's unix_listener, 'r, 'w) os \<Rightarrow> 's unix_stream \<Rightarrow> socket_options \<Rightarrow> 'r framed_read framed_io" where
  "win_make_framed os stream options = (case os_split os stream of (read, write) \<Rightarrow> framed_io_new read write options)"

definition win_ipc_connect ::
    "('a, 's, 'w) winsock \<Rightarrow> ('s unix_stream, 's unix_listener, 'r, 'w) os \<Rightarrow> bytes \<Rightarrow> socket_options \<Rightarrow> 'w
      \<Rightarrow> 'r connection zmq_result \<times> 'w" where
  "win_ipc_connect sys os path options w =
     io_try (unix_stream_connect sys path w) (\<lambda>raw_socket w.
       (Ok (win_make_framed os raw_socket options, Ipc (Some path)), w))"

definition win_ipc_begin_accept ::
    "('a, 's, 'w) winsock \<Rightarrow> ('s unix_stream, 's unix_listener, 'r, 'w) os \<Rightarrow> bytes \<Rightarrow> 'w
      \<Rightarrow> ((endpoint \<times> nat) zmq_result \<times> 'w) option" where
  "win_ipc_begin_accept sys os path w =
     (if path = str ''*'' then None
      else Some (io_try (unix_listener_bind sys path w) (\<lambda>listener w.
        ipc_begin_accept_bound os listener (Some path) w)))"

text \<open>What the accept task passes to its callback.\<close>

definition win_accepted ::
    "('s unix_stream, 's unix_listener, 'r, 'w) os \<Rightarrow> socket_options \<Rightarrow> io_error + 's unix_stream \<times> 'a
      \<Rightarrow> 'r connection zmq_result" where
  "win_accepted os options incoming =
     (case incoming of
        Inl e \<Rightarrow> Err (ErrNetwork e)
      | Inr (raw_socket, _) \<Rightarrow> Ok (win_make_framed os raw_socket options, Ipc None))"

section \<open>Contract\<close>

text \<open>What is used of the system: \<open>live w\<close> are the open sockets, \<open>nonblock w\<close> those in non-blocking mode, and
  \<open>stalls w\<close> counts the calls that have blocked the calling thread. Only \<open>connect\<close> and \<open>accept\<close> can block, and not
  on a socket in non-blocking mode.\<close>

definition quiet_call ::
    "('w \<Rightarrow> 's set) \<Rightarrow> ('w \<Rightarrow> 's set) \<Rightarrow> ('w \<Rightarrow> nat) \<Rightarrow> 'w \<Rightarrow> (io_error + 'x) \<times> 'w \<Rightarrow> bool" where
  "quiet_call live nonblock stalls w r \<longleftrightarrow>
     live (snd r) = live w \<and> nonblock w \<subseteq> nonblock (snd r) \<and> stalls (snd r) = stalls w"

definition winsock_ok :: "('a, 's, 'w) winsock \<Rightarrow> ('w \<Rightarrow> 's set) \<Rightarrow> ('w \<Rightarrow> 's set) \<Rightarrow> ('w \<Rightarrow> nat) \<Rightarrow> bool" where
  "winsock_ok sys live nonblock stalls \<longleftrightarrow>
     (\<forall>w s w'. socket_new sys w = (Inr s, w') \<longrightarrow> s \<notin> live w \<and> live w' = insert s (live w) \<and> stalls w' = stalls w)
     \<and> (\<forall>w e w'. socket_new sys w = (Inl e, w') \<longrightarrow> live w' = live w \<and> stalls w' = stalls w)
     \<and> (\<forall>w s. quiet_call live nonblock stalls w (socket_set_nonblocking sys s True w))
     \<and> (\<forall>w s u w'. socket_set_nonblocking sys s True w = (Inr u, w') \<longrightarrow> s \<in> nonblock w')
     \<and> (\<forall>w s a. s \<in> nonblock w \<longrightarrow> quiet_call live nonblock stalls w (socket_connect_to sys s a w))
     \<and> (\<forall>w s. quiet_call live nonblock stalls w (async_new_nonblocking sys s w))
     \<and> (\<forall>w s. quiet_call live nonblock stalls w (async_writable sys s w))
     \<and> (\<forall>w s. quiet_call live nonblock stalls w (socket_take_error sys s w))
     \<and> (\<forall>w s a. quiet_call live nonblock stalls w (socket_bind sys s a w))
     \<and> (\<forall>w s n. quiet_call live nonblock stalls w (socket_listen sys s n w))
     \<and> (\<forall>w s. quiet_call live nonblock stalls w (async_new sys s w))
     \<and> (\<forall>w s u w'. async_new sys s w = (Inr u, w') \<longrightarrow> s \<in> nonblock w')
     \<and> (\<forall>w l s a w'. async_accept sys l w = (Inr (s, a), w')
          \<longrightarrow> s \<notin> live w \<and> live w' = insert s (live w) \<and> stalls w' = stalls w)
     \<and> (\<forall>w l e w'. async_accept sys l w = (Inl e, w') \<longrightarrow> live w' = live w \<and> stalls w' = stalls w)
     \<and> (\<forall>w s. live (socket_close sys s w) = live w - {s} \<and> stalls (socket_close sys s w) = stalls w)"

text \<open>The result of a constructor: the new socket is open and in non-blocking mode, or nothing is left open; the
  thread has not been blocked.\<close>

definition opens ::
    "('w \<Rightarrow> 's set) \<Rightarrow> ('w \<Rightarrow> 's set) \<Rightarrow> ('w \<Rightarrow> nat) \<Rightarrow> ('x \<Rightarrow> 's) \<Rightarrow> 'w \<Rightarrow> (io_error + 'x) \<times> 'w \<Rightarrow> bool" where
  "opens live nonblock stalls sock w r \<longleftrightarrow> stalls (snd r) = stalls w
     \<and> (case fst r of
          Inr x \<Rightarrow> sock x \<notin> live w \<and> live (snd r) = insert (sock x) (live w) \<and> sock x \<in> nonblock (snd r)
        | Inl _ \<Rightarrow> live (snd r) = live w)"

fun stream_socket :: "'s unix_stream \<Rightarrow> 's" where "stream_socket (UnixStream s) = s"
fun listener_socket :: "'s unix_listener \<Rightarrow> 's" where "listener_socket (UnixListener s) = s"

section \<open>Lemmas\<close>

text \<open>The rest of a constructor after the socket \<open>s\<close> has been made.\<close>

definition keeps ::
    "('w \<Rightarrow> 's set) \<Rightarrow> ('w \<Rightarrow> 's set) \<Rightarrow> ('w \<Rightarrow> nat) \<Rightarrow> ('x \<Rightarrow> 's) \<Rightarrow> 's \<Rightarrow> 'w \<Rightarrow> (io_error + 'x) \<times> 'w \<Rightarrow> bool" where
  "keeps live nonblock stalls sock s w r \<longleftrightarrow> live (snd r) = live w \<and> stalls (snd r) = stalls w
     \<and> (\<forall>x. fst r = Inr x \<longrightarrow> sock x = s \<and> s \<in> nonblock (snd r))"

lemma winsock_new:
  assumes "winsock_ok sys live nonblock stalls" and "socket_new sys w = (x, w')"
  shows "x = Inr s \<Longrightarrow> s \<notin> live w \<and> live w' = insert s (live w) \<and> stalls w' = stalls w"
    and "x = Inl e \<Longrightarrow> live w' = live w \<and> stalls w' = stalls w"
  using assms by (auto simp: winsock_ok_def)

lemma winsock_accept:
  assumes "winsock_ok sys live nonblock stalls" and "async_accept sys l w = (x, w')"
  shows "x = Inr (s, a) \<Longrightarrow> s \<notin> live w \<and> live w' = insert s (live w) \<and> stalls w' = stalls w"
    and "x = Inl e \<Longrightarrow> live w' = live w \<and> stalls w' = stalls w"
  using assms by (auto simp: winsock_ok_def)

lemma winsock_nonblock:
  assumes "winsock_ok sys live nonblock stalls"
  shows "socket_set_nonblocking sys s True w = (Inr u, w') \<Longrightarrow> s \<in> nonblock w'"
    and "async_new sys s w = (Inr u, w') \<Longrightarrow> s \<in> nonblock w'"
  using assms by (auto simp: winsock_ok_def)

lemma winsock_quiet:
  assumes "winsock_ok sys live nonblock stalls"
  shows "quiet_call live nonblock stalls w (socket_set_nonblocking sys s True w)"
    and "s \<in> nonblock w \<Longrightarrow> quiet_call live nonblock stalls w (socket_connect_to sys s a w)"
    and "quiet_call live nonblock stalls w (async_new_nonblocking sys s w)"
    and "quiet_call live nonblock stalls w (async_writable sys s w)"
    and "quiet_call live nonblock stalls w (socket_take_error sys s w)"
    and "quiet_call live nonblock stalls w (socket_bind sys s a w)"
    and "quiet_call live nonblock stalls w (socket_listen sys s n w)"
    and "quiet_call live nonblock stalls w (async_new sys s w)"
  using assms by (simp_all add: winsock_ok_def)

lemma winsock_close:
  assumes "winsock_ok sys live nonblock stalls"
  shows "live (socket_close sys s w) = live w - {s}" and "stalls (socket_close sys s w) = stalls w"
  using assms by (simp_all add: winsock_ok_def)

lemma keeps_bind:
  assumes "quiet_call live nonblock stalls w r"
    and "\<And>x w'. r = (Inr x, w') \<Longrightarrow> keeps live nonblock stalls sock s w' (f x w')"
  shows "keeps live nonblock stalls sock s w (io_bind r f)"
  using assms by (cases r; cases "fst r") (auto simp: keeps_def io_bind_def quiet_call_def)

lemma quiet_nonblock: "quiet_call live nonblock stalls w r \<Longrightarrow> r = (x, w') \<Longrightarrow> s \<in> nonblock w \<Longrightarrow> s \<in> nonblock w'"
  by (auto simp: quiet_call_def)

lemma opens_dropping:
  assumes "winsock_ok sys live nonblock stalls" and "keeps live nonblock stalls sock s w1 r"
    and "s \<notin> live w \<and> live w1 = insert s (live w) \<and> stalls w1 = stalls w"
  shows "opens live nonblock stalls sock w (dropping sys s r)"
proof (cases r)
  case (Pair x w2)
  with assms(2,3) winsock_close [OF assms(1), of s w2] show ?thesis
    by (cases x) (auto simp: opens_def keeps_def dropping_def)
qed

text \<open>Making a socket for an address.\<close>

lemma opens_new:
  assumes "winsock_ok sys live nonblock stalls" and "\<And>a s w. keeps live nonblock stalls sock s w (f a s w)"
  shows "opens live nonblock stalls sock w
    (io_bind (addr, w) (\<lambda>a w. io_bind (socket_new sys w) (\<lambda>s w. dropping sys s (f a s w))))"
proof (cases addr)
  case (Inr a)
  obtain x w1 where n: "socket_new sys w = (x, w1)" by fastforce
  show ?thesis
  proof (cases x)
    case (Inl e)
    then show ?thesis using winsock_new(2) [OF assms(1) n] n \<open>addr = Inr a\<close> by (simp add: io_bind_def opens_def)
  next
    case (Inr s)
    from opens_dropping [OF assms(1) assms(2) winsock_new(1) [OF assms(1) n Inr]] show ?thesis using n Inr \<open>addr = Inr a\<close> by (simp add: io_bind_def)
  qed
qed (simp add: io_bind_def opens_def)

lemma connect_finish_keeps:
  assumes "winsock_ok sys live nonblock stalls" and "s \<in> nonblock w"
  shows "keeps live nonblock stalls stream_socket s w (connect_finish sys s w)"
  unfolding connect_finish_def
proof (intro keeps_bind winsock_quiet [OF assms(1)])
  fix u w1 v w2 pending w3
  assume c: "async_new_nonblocking sys s w = (Inr u, w1)" "async_writable sys s w1 = (Inr v, w2)"
    "socket_take_error sys s w2 = (Inr pending, w3)"
  note q = winsock_quiet [OF assms(1)]
  have "s \<in> nonblock w3"
    by (rule quiet_nonblock [OF q(5) c(3) quiet_nonblock [OF q(4) c(2) quiet_nonblock [OF q(3) c(1) assms(2)]]])
  then show "keeps live nonblock stalls stream_socket s w3
      (case pending of None \<Rightarrow> (Inr (UnixStream s), w3) | Some error \<Rightarrow> (Inl error, w3))"
    by (auto simp: keeps_def split: option.splits)
qed

lemma start_connect_keeps:
  assumes "winsock_ok sys live nonblock stalls"
  shows "keeps live nonblock stalls stream_socket s w (io_bind (socket_set_nonblocking sys s True w) (\<lambda>_ w.
     case socket_connect_to sys s address w of
       (Inr _, w) \<Rightarrow> connect_finish sys s w
     | (Inl error, w) \<Rightarrow> if error = WouldBlock then connect_finish sys s w else (Inl error, w)))"
proof (rule keeps_bind [OF winsock_quiet(1) [OF assms]])
  fix u w1
  assume "socket_set_nonblocking sys s True w = (Inr u, w1)"
  from winsock_nonblock(1) [OF assms this] have nb: "s \<in> nonblock w1" .
  obtain x w2 where c: "socket_connect_to sys s address w1 = (x, w2)" by fastforce
  note q = winsock_quiet(2) [OF assms nb, of address]
  then have "keeps live nonblock stalls stream_socket s w2 (connect_finish sys s w2)"
    using connect_finish_keeps [OF assms] quiet_nonblock [OF q c nb] by blast
  with q c show "keeps live nonblock stalls stream_socket s w1 (case socket_connect_to sys s address w1 of
       (Inr _, w) \<Rightarrow> connect_finish sys s w
     | (Inl error, w) \<Rightarrow> if error = WouldBlock then connect_finish sys s w else (Inl error, w))"
    by (cases x) (auto simp: keeps_def quiet_call_def)
qed

lemma start_listen_keeps:
  assumes "winsock_ok sys live nonblock stalls"
  shows "keeps live nonblock stalls listener_socket s w (io_bind (socket_bind sys s address w) (\<lambda>_ w.
     io_bind (socket_listen sys s 128 w) (\<lambda>_ w. io_bind (async_new sys s w) (\<lambda>_ w. (Inr (UnixListener s), w)))))"
  by (intro keeps_bind winsock_quiet [OF assms]) (simp add: keeps_def winsock_nonblock(2) [OF assms])

section \<open>Properties\<close>


text \<open>A system with as many sockets as one likes: the world is the list of the open sockets, the list of those in
  non-blocking mode and the number of stalls; a connection is refused after the fact when \<open>refuse\<close> says so.\<close>

definition sample_winsock :: "bool \<Rightarrow> (bytes, nat, nat list \<times> nat list \<times> nat) winsock" where
  "sample_winsock refuse =
     \<lparr> sockaddr_unix = (\<lambda>path. Inr path),
       socket_new = (\<lambda>(L, N, k). (Inr (Suc (sum_list L)), (Suc (sum_list L) # L, N, k))),
       socket_set_nonblocking = (\<lambda>s on (L, N, k). (Inr (), (L, s # N, k))),
       socket_connect_to = (\<lambda>s a (L, N, k). if s \<in> set N then (Inl WouldBlock, (L, N, k)) else (Inr (), (L, N, k + 1))),
       socket_bind = (\<lambda>s a w. (Inr (), w)),
       socket_listen = (\<lambda>s n w. (Inr (), w)),
       socket_take_error = (\<lambda>s w. (Inr (if refuse then Some ConnectionRefused else None), w)),
       socket_shutdown_write = (\<lambda>s w. (Inr (), w)),
       socket_close = (\<lambda>s (L, N, k). (removeAll s L, N, k)),
       async_new = (\<lambda>s (L, N, k). (Inr (), (L, s # N, k))),
       async_new_nonblocking = (\<lambda>s w. (Inr (), w)),
       async_writable = (\<lambda>s w. (Inr (), w)),
       async_accept = (\<lambda>l (L, N, k). (Inr (Suc (sum_list L), []), (Suc (sum_list L) # L, N, k))),
       async_poll_read = (\<lambda>s n w. (Pending, w)),
       async_poll_write = (\<lambda>s b w. (Pending, w)),
       async_poll_flush = (\<lambda>s w. (Ready (Inr ()), w)) \<rparr>"

lemma sum_list_fresh: "Suc (sum_list L) \<notin> set (L :: nat list)"
  using member_le_sum_list [of "Suc (sum_list L)" L] by auto

lemma sample_winsock_ok:
  "winsock_ok (sample_winsock refuse) (\<lambda>(L, N, k). set L) (\<lambda>(L, N, k). set N) (\<lambda>(L, N, k). k)"
  by (auto simp: winsock_ok_def quiet_call_def sample_winsock_def sum_list_fresh split: prod.splits)


end
