(* ===== verification/Socket_Api.thy ===== *)
theory Socket_Api
  imports Transport Handshake Reconnect Queue_Sockets Pub Xpub Req_Rep
begin

text \<open>
  The socket trait of \<open>src/lib.rs\<close>: binding, unbinding, connecting, and \<open>proxy\<close>; \<open>connect_with_reconnect\<close> of
  \<open>src/sub_backend.rs\<close>. The operations of the backend and the handshake's transport are parameters, as in
  \<open>Handshake\<close>; a socket's listeners are the map from endpoints to the handles of the accept tasks.
\<close>

section \<open>Binding\<close>

type_synonym binds = "endpoint \<rightharpoonup> nat"

datatype 'l bind_target = BindEndpoint endpoint | BindListener "'l listener"

text \<open>The callback that every accept task runs: handshake and registration, then a monitor event. \<open>None\<close> is a panic
  of the spawned task.\<close>

definition accept_callback ::
    "'w env \<Rightarrow> bytes \<Rightarrow> 'io snd_msg \<Rightarrow> 'io nxt_msg \<Rightarrow> socket_type \<Rightarrow> socket_options \<Rightarrow> ('b \<Rightarrow> nat option)
      \<Rightarrow> (peer_identity \<Rightarrow> 'io \<Rightarrow> 'b \<times> 'w \<Rightarrow> 'b \<times> 'w) \<Rightarrow> ('io \<times> endpoint) zmq_result \<Rightarrow> 'b \<times> 'w \<Rightarrow> ('b \<times> 'w) option" where
  "accept_callback env uuid snd_msg nxt_msg socket_type options monitor backend_connected result bw =
     (case result of
        Inl error \<Rightarrow> Some (fst bw, monitor_event env (monitor (fst bw)) (AcceptFailed error) (snd bw))
      | Inr (io, endpoint) \<Rightarrow>
          (case util_peer_connected uuid snd_msg nxt_msg socket_type options backend_connected io bw of
             None \<Rightarrow> None
           | Some (Inr pid, b', w') \<Rightarrow> Some (b', monitor_event env (monitor b') (Accepted endpoint pid) w')
           | Some (Inl error, b', w') \<Rightarrow> Some (b', monitor_event env (monitor b') (AcceptFailed error) w')))"

definition bind_inner ::
    "('c, 'l, 'r, 'w) os \<Rightarrow> 'w env \<Rightarrow> nat option \<Rightarrow> 'l bind_target \<Rightarrow> binds \<times> 'w
      \<Rightarrow> (endpoint zmq_result \<times> binds \<times> 'w) option" where
  "bind_inner os env monitor target sw = (case sw of (binds, w) \<Rightarrow>
     case (case target of
             BindEndpoint endpoint \<Rightarrow> transport_begin_accept os endpoint w
           | BindListener listener \<Rightarrow> Some (transport_begin_accept_listener os listener w)) of
       None \<Rightarrow> None
     | Some (Inl e, w') \<Rightarrow> Some (Err e, binds, w')
     | Some (Inr (endpoint, stop_handle), w') \<Rightarrow>
         Some (Ok endpoint, binds(endpoint \<mapsto> stop_handle), monitor_event env monitor (Listening endpoint) w'))"

definition socket_bind ::
    "('c, 'l, 'r, 'w) os \<Rightarrow> 'w env \<Rightarrow> nat option \<Rightarrow> bytes \<Rightarrow> binds \<times> 'w
      \<Rightarrow> (endpoint zmq_result \<times> binds \<times> 'w) option" where
  "socket_bind os env monitor s sw =
     (case endpoint_from_str s of
        Inl e \<Rightarrow> Some (Err (ErrEndpoint e), sw)
      | Inr endpoint \<Rightarrow> bind_inner os env monitor (BindEndpoint endpoint) sw)"

definition bind_listener ::
    "('c, 'l, 'r, 'w) os \<Rightarrow> 'w env \<Rightarrow> nat option \<Rightarrow> 'l listener \<Rightarrow> binds \<times> 'w
      \<Rightarrow> (endpoint zmq_result \<times> binds \<times> 'w) option" where
  "bind_listener os env monitor listener sw = bind_inner os env monitor (BindListener listener) sw"

text \<open>\<open>shutdown\<close> is \<open>TaskHandle::shutdown\<close> of the accept task.\<close>

definition unbind ::
    "(nat \<Rightarrow> 'w \<Rightarrow> unit zmq_result \<times> 'w) \<Rightarrow> endpoint \<Rightarrow> binds \<times> 'w \<Rightarrow> unit zmq_result \<times> binds \<times> 'w" where
  "unbind shutdown endpoint sw = (case sw of (binds, w) \<Rightarrow>
     case binds endpoint of
       None \<Rightarrow> (Err (NoSuchBind endpoint), binds, w)
     | Some stop_handle \<Rightarrow> (case shutdown stop_handle w of (r, w') \<Rightarrow> (r, binds(endpoint := None), w')))"

text \<open>\<open>unbind_all\<close> over the given list of the map's keys, and \<open>close\<close>.\<close>

fun unbind_list ::
    "(nat \<Rightarrow> 'w \<Rightarrow> unit zmq_result \<times> 'w) \<Rightarrow> endpoint list \<Rightarrow> binds \<times> 'w \<Rightarrow> zmq_error list \<times> binds \<times> 'w" where
  "unbind_list shutdown [] sw = ([], sw)"
| "unbind_list shutdown (endpoint # endpoints) sw =
     (case unbind shutdown endpoint sw of
        (Inl err, sw') \<Rightarrow> (case unbind_list shutdown endpoints sw' of (errs, sw'') \<Rightarrow> (err # errs, sw''))
      | (Inr _, sw') \<Rightarrow> unbind_list shutdown endpoints sw')"

definition unbind_all ::
    "(nat \<Rightarrow> 'w \<Rightarrow> unit zmq_result \<times> 'w) \<Rightarrow> (endpoint set \<Rightarrow> endpoint list) \<Rightarrow> binds \<times> 'w
      \<Rightarrow> zmq_error list \<times> binds \<times> 'w" where
  "unbind_all shutdown keys sw = unbind_list shutdown (keys (dom (fst sw))) sw"

definition close where "close = unbind_all"

section \<open>Connecting\<close>

text \<open>The future inside \<open>run_with_timeout\<close>: connect, then shake hands. \<open>None\<close> is a panic, or that the fuel did not
  suffice.\<close>

definition establish ::
    "nat \<Rightarrow> bytes \<Rightarrow> 'io snd_msg \<Rightarrow> 'io nxt_msg \<Rightarrow> socket_type \<Rightarrow> socket_options \<Rightarrow> endpoint
      \<Rightarrow> (nat \<Rightarrow> ('io \<times> endpoint) zmq_result) \<Rightarrow> ('io \<times> endpoint \<times> peer_identity) zmq_result option" where
  "establish fuel uuid snd_msg nxt_msg socket_type options endpoint try_connect =
     (case connect_forever fuel endpoint try_connect of
        None \<Rightarrow> None
      | Some (Inl e, _) \<Rightarrow> Some (Err e)
      | Some (Inr (io, endpoint'), _) \<Rightarrow>
          (case peer_handshake uuid snd_msg nxt_msg socket_type options io of
             None \<Rightarrow> None
           | Some (Inl e, _) \<Rightarrow> Some (Err e)
           | Some (Inr pid, io') \<Rightarrow> Some (Ok (io', endpoint', pid))))"

definition socket_connect ::
    "nat \<Rightarrow> 'w env \<Rightarrow> bytes \<Rightarrow> 'io snd_msg \<Rightarrow> 'io nxt_msg \<Rightarrow> socket_type \<Rightarrow> socket_options \<Rightarrow> ('b \<Rightarrow> nat option)
      \<Rightarrow> (peer_identity \<Rightarrow> 'io \<Rightarrow> 'b \<times> 'w \<Rightarrow> 'b \<times> 'w) \<Rightarrow> (duration \<Rightarrow> bool)
      \<Rightarrow> (nat \<Rightarrow> ('io \<times> endpoint) zmq_result) \<Rightarrow> bytes \<Rightarrow> 'b \<times> 'w \<Rightarrow> (peer_identity zmq_result \<times> 'b \<times> 'w) option" where
  "socket_connect fuel env uuid snd_msg nxt_msg socket_type options monitor backend_connected in_time try_connect s bw =
     (case endpoint_from_str s of
        Inl e \<Rightarrow> Some (Err (ErrEndpoint e), bw)
      | Inr endpoint \<Rightarrow>
          (case establish fuel uuid snd_msg nxt_msg socket_type options endpoint try_connect of
             None \<Rightarrow> None
           | Some result \<Rightarrow>
               (case run_with_timeout (connect_timeout options) in_time result of
                  Inl e \<Rightarrow> Some (Err e, bw)
                | Inr (io, endpoint', pid) \<Rightarrow>
                    (case backend_connected pid io bw of
                       (b', w') \<Rightarrow>
                         Some (Ok pid, b', monitor_event env (monitor b') (Connected endpoint' pid) w')))))"

text \<open>\<open>connect_with_reconnect\<close>: connect in the same way, then create the reconnection task, register its channel, of
  number \<open>notifier\<close>, for the peer, and add its handle to the socket's list.\<close>

definition register_task :: "nat \<Rightarrow> peer_identity \<Rightarrow> ('s, 'w) reconnect_task \<Rightarrow> ('s, 'w) reconnect_task" where
  "register_task notifier pid t =
     t \<lparr> pc := AwaitDisconnect,
         socket := (sub_register_disconnect_notifier pid notifier (fst (socket t)), snd (socket t)) \<rparr>"

definition connect_with_reconnect ::
    "nat \<Rightarrow> 'w env \<Rightarrow> bytes \<Rightarrow> 's framed_io snd_msg \<Rightarrow> 's framed_io nxt_msg \<Rightarrow> (duration \<Rightarrow> bool)
      \<Rightarrow> (nat \<Rightarrow> ('s framed_io \<times> endpoint) zmq_result) \<Rightarrow> nat \<Rightarrow> bytes
      \<Rightarrow> ('s, 'w) reconnect_task list \<times> 's sub_backend \<times> 'w
      \<Rightarrow> (unit zmq_result \<times> ('s, 'w) reconnect_task list \<times> 's sub_backend \<times> 'w) option" where
  "connect_with_reconnect fuel env uuid snd_msg nxt_msg in_time try_connect notifier s hbw =
     (case hbw of (handles, b, w) \<Rightarrow>
        case socket_connect fuel env uuid snd_msg nxt_msg (sb_socket_type b) (sb_options b) sb_monitor
               (sub_peer_connected env) in_time try_connect s (b, w) of
          None \<Rightarrow> None
        | Some (Inl e, bw') \<Rightarrow> Some (Err e, handles, bw')
        | Some (Inr pid, bw') \<Rightarrow>
            let t = register_task notifier pid (spawn_reconnect_task pid bw')
            in Some (Ok (), handles @ [t], socket t))"

section \<open>Monitoring and dropping a socket\<close>

text \<open>\<open>monitor\<close> of every socket: a new channel for events replaces the previous one; the receiver is returned.\<close>

definition open_monitor :: "'w env \<Rightarrow> (nat \<Rightarrow> 'b \<Rightarrow> 'b) \<Rightarrow> 'b \<times> 'w \<Rightarrow> nat \<times> 'b \<times> 'w" where
  "open_monitor env replace_monitor bw = (case bw of (b, w) \<Rightarrow>
     case channel env 1024 w of (sender, w') \<Rightarrow> (sender, replace_monitor sender b, w'))"

definition generic_open_monitor :: "'w env \<Rightarrow> 's generic_backend \<times> 'w \<Rightarrow> nat \<times> 's generic_backend \<times> 'w" where
  "generic_open_monitor env = open_monitor env (\<lambda>n b. b \<lparr> socket_monitor := Some n \<rparr>)"

definition pub_open_monitor :: "'w env \<Rightarrow> pub_backend \<times> 'w \<Rightarrow> nat \<times> pub_backend \<times> 'w" where
  "pub_open_monitor env = open_monitor env (\<lambda>n b. b \<lparr> pub_monitor := Some n \<rparr>)"

definition sub_open_monitor :: "'w env \<Rightarrow> 's sub_backend \<times> 'w \<Rightarrow> nat \<times> 's sub_backend \<times> 'w" where
  "sub_open_monitor env = open_monitor env (\<lambda>n b. b \<lparr> sb_monitor := Some n \<rparr>)"

definition xpub_open_monitor :: "'w env \<Rightarrow> 's xpub_backend \<times> 'w \<Rightarrow> nat \<times> 's xpub_backend \<times> 'w" where
  "xpub_open_monitor env = open_monitor env (\<lambda>n b. b \<lparr> xp_monitor := Some n \<rparr>)"

definition req_open_monitor :: "'w env \<Rightarrow> 's req_backend \<times> 'w \<Rightarrow> nat \<times> 's req_backend \<times> 'w" where
  "req_open_monitor env = open_monitor env (\<lambda>n b. b \<lparr> rq_monitor := Some n \<rparr>)"

definition rep_open_monitor :: "'w env \<Rightarrow> 's rep_backend \<times> 'w \<Rightarrow> nat \<times> 's rep_backend \<times> 'w" where
  "rep_open_monitor env = open_monitor env (\<lambda>n b. b \<lparr> rp_monitor := Some n \<rparr>)"

text \<open>Dropping a SUB or XSUB socket stops its reconnection tasks and shuts its backend down; the others only shut
  their backend down.\<close>

definition sub_drop :: "('s, 'w) reconnect_task list \<times> 's sub_backend \<times> 'w \<Rightarrow> ('s, 'w) reconnect_task list \<times> 's sub_backend \<times> 'w" where
  "sub_drop hbw = (case hbw of (handles, bw) \<Rightarrow> (map reconnect_shutdown handles, sub_shutdown bw))"

definition pub_drop :: "pub_backend \<times> 'w \<Rightarrow> pub_backend \<times> 'w" where "pub_drop = pub_shutdown"
definition xpub_drop :: "'s xpub_backend \<times> 'w \<Rightarrow> 's xpub_backend \<times> 'w" where "xpub_drop = xpub_shutdown"
definition req_drop :: "'s req_backend \<times> 'w \<Rightarrow> 's req_backend \<times> 'w" where "req_drop = req_shutdown"
definition rep_drop :: "'s rep_backend \<times> 'w \<Rightarrow> 's rep_backend \<times> 'w" where "rep_drop = rep_shutdown"

section \<open>Proxy\<close>

text \<open>What \<open>select!\<close> yields one after the other: the next result of one of the two receivers.\<close>

datatype proxy_event = FromFrontend "zmq_message zmq_result" | FromBackend "zmq_message zmq_result"

type_synonym 'w sender = "zmq_message \<Rightarrow> 'w \<Rightarrow> unit zmq_result \<times> 'w"

text \<open>Capture, when there is a capture socket, then forward; the first error ends the proxy.\<close>

definition proxy_forward :: "'w sender option \<Rightarrow> 'w sender \<Rightarrow> zmq_message zmq_result \<Rightarrow> 'w \<Rightarrow> unit zmq_result \<times> 'w" where
  "proxy_forward capture target mess w =
     (case mess of
        Inl e \<Rightarrow> (Err e, w)
      | Inr message \<Rightarrow>
          (case (case capture of None \<Rightarrow> (Ok (), w) | Some c \<Rightarrow> c message w) of
             (Inl e, w') \<Rightarrow> (Err e, w')
           | (Inr _, w') \<Rightarrow> target message w'))"

text \<open>The loop over a finite run of events; \<open>None\<close> says that the proxy is still running.\<close>

fun proxy ::
    "'w sender option \<Rightarrow> 'w sender \<Rightarrow> 'w sender \<Rightarrow> proxy_event list \<Rightarrow> 'w \<Rightarrow> zmq_error option \<times> 'w" where
  "proxy capture frontend backend [] w = (None, w)"
| "proxy capture frontend backend (FromFrontend m # es) w =
     (case proxy_forward capture backend m w of
        (Inl e, w') \<Rightarrow> (Some e, w')
      | (Inr _, w') \<Rightarrow> proxy capture frontend backend es w')"
| "proxy capture frontend backend (FromBackend m # es) w =
     (case proxy_forward capture frontend m w of
        (Inl e, w') \<Rightarrow> (Some e, w')
      | (Inr _, w') \<Rightarrow> proxy capture frontend backend es w')"

section \<open>Lemmas\<close>

lemma unbind_list_binds:
  "fst (snd (unbind_list shutdown eps (binds, w))) = (\<lambda>e. if e \<in> set eps then None else binds e)"
proof (induction eps arbitrary: binds w)
  case (Cons ep eps)
  obtain r binds' w' where u: "unbind shutdown ep (binds, w) = (r, binds', w')" by (rule prod_cases3)
  then have "binds' = binds(ep := None)"
    by (auto simp: unbind_def fun_upd_idem split: option.splits prod.splits)
  moreover have "fst (snd (unbind_list shutdown (ep # eps) (binds, w))) = fst (snd (unbind_list shutdown eps (binds', w')))"
    by (simp add: u split: sum.splits prod.splits)
  ultimately show ?case using Cons [of binds' w'] by (simp add: fun_eq_iff)
qed simp

text \<open>What \<open>connect_forever\<close> returns is the outcome of one of its attempts.\<close>

lemma connect_loop_attempt: "connect_loop fuel endpoint f i delay = Some (r, ds) \<Longrightarrow> \<exists>j\<ge>i. r = f j"
proof (induction fuel arbitrary: i delay ds)
  case (Suc fuel)
  show ?case
  proof (cases "\<exists>e. f i = Err e \<and> is_retryable_connect_error endpoint e")
    case True
    with Suc.prems obtain ds' where "connect_loop fuel endpoint f (i + 1) (min (delay * 2) CONNECT_MAX) = Some (r, ds')"
      by auto
    from Suc.IH [OF this] show ?thesis by (metis add_leD1)
  next
    case False
    with Suc.prems have "r = f i" by (auto split: sum.splits if_splits)
    then show ?thesis by blast
  qed
qed simp

lemma socket_connect_Err:
  "socket_connect fuel env uuid snd_msg nxt_msg t opts monitor backend_connected in_time try_connect s bw = Some (Err e, bw')
    \<Longrightarrow> bw' = bw"
  by (auto simp: socket_connect_def split: sum.splits option.splits prod.splits)

lemma socket_connect_Ok:
  assumes "socket_connect fuel env uuid snd_msg nxt_msg t opts monitor backend_connected in_time try_connect s bw
      = Some (Ok pid, bw')"
  shows "\<exists>j io io' ep'. try_connect j = Ok (io, ep') \<and> peer_handshake uuid snd_msg nxt_msg t opts io = Some (Ok pid, io')
    \<and> fst bw' = fst (backend_connected pid io' bw)
    \<and> snd bw' = monitor_event env (monitor (fst bw')) (Connected ep' pid) (snd (backend_connected pid io' bw))"
proof -
  obtain ep res io' ep' where r: "endpoint_from_str s = Ok ep"
    "establish fuel uuid snd_msg nxt_msg t opts ep try_connect = Some res"
    "run_with_timeout (connect_timeout opts) in_time res = Ok (io', ep', pid)"
    and bw': "bw' = (fst (backend_connected pid io' bw),
      monitor_event env (monitor (fst (backend_connected pid io' bw))) (Connected ep' pid) (snd (backend_connected pid io' bw)))"
    using assms by (auto simp: socket_connect_def split: sum.splits option.splits prod.splits)
  have "res = Ok (io', ep', pid)" using r(3) by (auto simp: run_with_timeout_def split: option.splits if_splits)
  with r(2) obtain io ds where e: "connect_forever fuel ep try_connect = Some (Ok (io, ep'), ds)"
    "peer_handshake uuid snd_msg nxt_msg t opts io = Some (Ok pid, io')"
    by (auto simp: establish_def split: option.splits sum.splits prod.splits)
  from connect_loop_attempt [OF e(1) [unfolded connect_forever_def]] obtain j where "try_connect j = Ok (io, ep')"
    by auto
  with e(2) bw' show ?thesis by (intro exI [of _ j] exI [of _ io] exI [of _ io'] exI [of _ ep']) simp
qed

text \<open>Every error of \<open>unbind_list\<close> is one of \<open>shutdown\<close>, when the list names bound endpoints, each once.\<close>

lemma unbind_list_errors:
  assumes "distinct eps" and "set eps \<subseteq> dom binds"
  shows "set (fst (unbind_list shutdown eps (binds, w))) \<subseteq> {e. \<exists>h w. fst (shutdown h w) = Err e}"
  using assms
proof (induction eps arbitrary: binds w)
  case (Cons ep eps)
  then obtain h where h: "binds ep = Some h" by auto
  obtain r w' where r: "shutdown h w = (r, w')" by fastforce
  have "set (fst (unbind_list shutdown eps (binds(ep := None), w'))) \<subseteq> {e. \<exists>h w. fst (shutdown h w) = Err e}"
    using Cons.prems by (intro Cons.IH) auto
  moreover have "\<exists>h w. fst (shutdown h w) = Err e" if "r = Err e" for e
    using r that by (intro exI [of _ h] exI [of _ w]) simp
  ultimately show ?case by (cases r) (auto simp: unbind_def h r split: prod.splits)
qed simp

text \<open>The events before the first receive error, and their messages by source.\<close>

fun received_ok :: "proxy_event \<Rightarrow> bool" where
  "received_ok (FromFrontend (Inr _)) = True"
| "received_ok (FromBackend (Inr _)) = True"
| "received_ok _ = False"

fun from_frontend :: "proxy_event \<Rightarrow> zmq_message list" where
  "from_frontend (FromFrontend (Inr m)) = [m]"
| "from_frontend _ = []"

fun from_backend :: "proxy_event \<Rightarrow> zmq_message list" where
  "from_backend (FromBackend (Inr m)) = [m]"
| "from_backend _ = []"

text \<open>Three sockets that accept every message, each with its own record of them.\<close>

definition recording ::
    "'w sender \<Rightarrow> 'w sender \<Rightarrow> 'w sender \<Rightarrow> ('w \<Rightarrow> zmq_message list) \<Rightarrow> ('w \<Rightarrow> zmq_message list)
      \<Rightarrow> ('w \<Rightarrow> zmq_message list) \<Rightarrow> bool" where
  "recording capture frontend backend cap front rear \<longleftrightarrow>
     (\<forall>m w. fst (capture m w) = Ok () \<and> fst (frontend m w) = Ok () \<and> fst (backend m w) = Ok ()
        \<and> cap (snd (capture m w)) = cap w @ [m] \<and> front (snd (capture m w)) = front w \<and> rear (snd (capture m w)) = rear w
        \<and> cap (snd (frontend m w)) = cap w \<and> front (snd (frontend m w)) = front w @ [m] \<and> rear (snd (frontend m w)) = rear w
        \<and> cap (snd (backend m w)) = cap w \<and> front (snd (backend m w)) = front w \<and> rear (snd (backend m w)) = rear w @ [m])"

lemma proxy_forward_recording:
  assumes "recording capture frontend backend cap front rear"
  shows "\<exists>w'. proxy_forward (Some capture) backend (Ok m) w = (Ok (), w') \<and> cap w' = cap w @ [m]
      \<and> front w' = front w \<and> rear w' = rear w @ [m]"
    and "\<exists>w'. proxy_forward (Some capture) frontend (Ok m) w = (Ok (), w') \<and> cap w' = cap w @ [m]
      \<and> front w' = front w @ [m] \<and> rear w' = rear w"
proof -
  obtain r w1 where c: "capture m w = (r, w1)" by fastforce
  obtain r2 w2 r3 w3 where t: "backend m w1 = (r2, w2)" "frontend m w1 = (r3, w3)" by fastforce
  have c': "r = Ok ()" "cap w1 = cap w @ [m]" "front w1 = front w" "rear w1 = rear w"
    using assms [unfolded recording_def, rule_format, of m w] c by simp_all
  have t': "r2 = Ok ()" "cap w2 = cap w1" "front w2 = front w1" "rear w2 = rear w1 @ [m]"
    "r3 = Ok ()" "cap w3 = cap w1" "front w3 = front w1 @ [m]" "rear w3 = rear w1"
    using assms [unfolded recording_def, rule_format, of m w1] t by simp_all
  show "\<exists>w'. proxy_forward (Some capture) backend (Ok m) w = (Ok (), w') \<and> cap w' = cap w @ [m]
      \<and> front w' = front w \<and> rear w' = rear w @ [m]"
    using c c' t t' by (intro exI [of _ w2]) (simp add: proxy_forward_def)
  show "\<exists>w'. proxy_forward (Some capture) frontend (Ok m) w = (Ok (), w') \<and> cap w' = cap w @ [m]
      \<and> front w' = front w @ [m] \<and> rear w' = rear w"
    using c c' t t' by (intro exI [of _ w3]) (simp add: proxy_forward_def)
qed

section \<open>Properties\<close>

text \<open>C38: Binding and unbinding: a successful bind adds one listener, under the endpoint it returns, and unbinding that
  endpoint stops that listener's task, returns its result and removes it; an endpoint that is not bound is refused
  and nothing changes; \<open>unbind_all\<close> leaves no listener, whatever errors the tasks report, and reports only these.\<close>

theorem bind_unbind:
  assumes "bind_inner os env monitor target (binds, w) = Some (Ok ep, binds', w')"
    and "distinct (keys (dom binds'))" and "set (keys (dom binds')) = dom binds'"
  shows "(\<exists>h. binds' = binds(ep \<mapsto> h)
        \<and> unbind shutdown ep (binds', w') = (fst (shutdown h w'), binds(ep := None), snd (shutdown h w')))
    \<and> (\<forall>ep'. binds' ep' = None \<longrightarrow> unbind shutdown ep' (binds', w') = (Err (NoSuchBind ep'), binds', w'))
    \<and> fst (snd (unbind_all shutdown keys (binds', w'))) = Map.empty
    \<and> set (fst (unbind_all shutdown keys (binds', w'))) \<subseteq> {e. \<exists>h w. fst (shutdown h w) = Err e}"
proof -
  obtain h where h: "binds' = binds(ep \<mapsto> h)"
    using assms(1) by (auto simp: bind_inner_def split: option.splits sum.splits prod.splits bind_target.splits)
  have "unbind shutdown ep (binds', w') = (fst (shutdown h w'), binds(ep := None), snd (shutdown h w'))"
    by (simp add: unbind_def h split: prod.splits)
  moreover have "fst (snd (unbind_all shutdown keys (binds', w'))) = Map.empty"
    using assms(3) by (auto simp: unbind_all_def unbind_list_binds fun_eq_iff)
  moreover have "set (fst (unbind_all shutdown keys (binds', w'))) \<subseteq> {e. \<exists>h w. fst (shutdown h w) = Err e}"
    using unbind_list_errors [OF assms(2), of binds' shutdown w'] assms(3) by (simp add: unbind_all_def)
  ultimately show ?thesis using h by (auto simp: unbind_def)
qed

text \<open>A system whose calls all succeed, on the world of \<open>sample_env\<close>.\<close>

definition sample_os ::
    "(nat, nat, bytes, (nat \<Rightarrow> message list) \<times> (nat \<Rightarrow> message list) \<times> nat) os" where
  "sample_os = \<lparr> os_tcp_connect = (\<lambda>h p w. (Inr 0, w)), os_set_nodelay = (\<lambda>c w. (Inr (), w)),
     os_set_recv_buffer_size = (\<lambda>c n w. (Inr (), w)), os_set_send_buffer_size = (\<lambda>c n w. (Inr (), w)),
     os_peer_addr = (\<lambda>c w. (Inr (V4 (127, 0, 0, 1), 7000), w)), os_tcp_bind = (\<lambda>h p w. (Inr 5, w)),
     os_local_addr = (\<lambda>l w. (Inr (V4 (127, 0, 0, 1), 5555), w)), os_set_nonblocking = (\<lambda>l w. (Inr (), w)),
     os_from_std = (\<lambda>l w. (Inr l, w)), os_unix_connect = (\<lambda>p w. (Inr 0, w)),
     os_unix_peer_addr = (\<lambda>c w. (Inr None, w)), os_unix_bind = (\<lambda>p w. (Inr 6, w)),
     os_unix_local_addr = (\<lambda>l w. (Inr None, w)), os_remove_file = (\<lambda>p w. (Inr (), w)),
     os_split = (\<lambda>c. ([], c)), os_spawn = (\<lambda>l ep (a, o', n). (n, (a, o', n + 1))) \<rparr>"

definition sample_stop ::
    "nat \<Rightarrow> (nat \<Rightarrow> message list) \<times> (nat \<Rightarrow> message list) \<times> nat
      \<Rightarrow> unit zmq_result \<times> (nat \<Rightarrow> message list) \<times> (nat \<Rightarrow> message list) \<times> nat" where
  "sample_stop h w = (Err (ErrOther ''join''), w)"

theorem bind_unbind_witness:
  "let ep = Tcp (Domain [120]) 5555; w = (\<lambda>_. [], \<lambda>_. [], 3); bound = ([ep \<mapsto> 3], (\<lambda>_. [], \<lambda>_. [], 4))
   in bind_inner sample_os (sample_env [] []) None (BindEndpoint (Tcp (Domain [120]) 0)) (Map.empty, w)
        = Some (Ok ep, bound)
    \<and> fst (snd (unbind_all sample_stop (\<lambda>_. [ep]) bound)) = Map.empty
    \<and> fst (unbind sample_stop ep bound) = Err (ErrOther ''join'')"
proof -
  let ?ep = "Tcp (Domain [120]) 5555"
  have b: "bind_inner sample_os (sample_env [] []) None (BindEndpoint (Tcp (Domain [120]) 0)) (Map.empty, (\<lambda>_. [], \<lambda>_. [], 3))
      = Some (Ok ?ep, [?ep \<mapsto> 3], (\<lambda>_. [], \<lambda>_. [], 4))"
    by (simp add: bind_inner_def transport_begin_accept_def tcp_begin_accept_def tcp_begin_accept_bound_def io_try_def
        sample_os_def monitor_event_def)
  show ?thesis using b bind_unbind [OF b, where shutdown = sample_stop and keys = "\<lambda>_. [?ep]"]
    by (auto simp: Let_def sample_stop_def)
qed




text \<open>A connection whose reading half holds what the other side has sent.\<close>

definition script_snd :: "message list framed_io snd_msg" where
  "script_snd io m = (Ok (), io)"

definition script_nxt :: "message list framed_io nxt_msg" where
  "script_nxt io = (case read_half io of [] \<Rightarrow> (None, io) | m # ms \<Rightarrow> (Some (Ok m), io \<lparr> read_half := ms \<rparr>))"



text \<open>Three lists as the records of the three sockets.\<close>

definition log_capture :: "(zmq_message list \<times> zmq_message list \<times> zmq_message list) sender" where
  "log_capture m w = (case w of (c, f, b) \<Rightarrow> (Ok (), (c @ [m], f, b)))"
definition log_frontend :: "(zmq_message list \<times> zmq_message list \<times> zmq_message list) sender" where
  "log_frontend m w = (case w of (c, f, b) \<Rightarrow> (Ok (), (c, f @ [m], b)))"
definition log_backend :: "(zmq_message list \<times> zmq_message list \<times> zmq_message list) sender" where
  "log_backend m w = (case w of (c, f, b) \<Rightarrow> (Ok (), (c, f, b @ [m])))"


end
