(* ===== verification/Spec2Isabelle.thy ===== *)
theory Spec2Isabelle
  imports Options Push_Pull Broadcast Peer_Cache Send_Future Handshake_Protocol Req_Rep Reconnect Windows_Ipc Socket_Api
begin

text \<open>
  \<^bold>\<open>The ZeroMQ sockets of zmq.rs\<close>

  The crate implements ZMTP 3.0 and the ZeroMQ socket patterns in asynchronous Rust. A socket owns a \<^emph>\<open>backend\<close>,
  shared with its background tasks. A connection is made by \<open>connect\<close> or by an accept task, shakes hands, and is
  handed to the backend, which keeps the writing half and enters the reading half into a \<^emph>\<open>fair queue\<close>. Sending
  chooses peers (round robin, by identity, or by subscription) and passes the message to a channel, whose writer task
  feeds the framed sink, or to the sink itself. Receiving polls the fair queue, which polls the framed readers, which
  decode frames. The parts, from the wire upwards, and the theories that model them:

  \<^item> \<open>Prelude\<close>: results as sums, polls, bytes, the machine's bounds, big-endian numbers, UTF-8.
  \<^item> \<open>Message\<close> (\<open>message.rs\<close>), \<open>SocketTypes\<close> (\<open>SocketType\<close> and the compatibility matrix of \<open>lib.rs\<close>), \<open>Options\<close>
    (\<open>SocketOptions\<close>), \<open>Errors\<close> (\<open>error.rs\<close>, \<open>task_handle.rs\<close>, \<open>JoinHandle\<close> of \<open>async_rt\<close>,
    \<open>SocketEvent\<close>).
  \<^item> \<open>Greeting\<close>, \<open>Command\<close>, \<open>Zmq_Codec\<close>, \<open>Framed\<close> (\<open>codec/\<close>): the wire format, the incremental decoder as a step
    function, the encoder, the reader with its adaptive buffer. \<open>Write_Queue\<close> (\<open>write_queue.rs\<close>): the writer task.
    \<open>Delivery\<close> composes them into a connection.
  \<^item> \<open>Fair_Queue\<close> (\<open>fair_queue.rs\<close>): ready heap, wakers, polling.
  \<^item> \<open>Endpoint\<close> (\<open>endpoint/\<close>): parsing and printing. \<open>Transport\<close> (\<open>transport/\<close>): TCP and IPC over system calls;
    \<open>Windows_Ipc\<close> (\<open>transport/ipc/windows.rs\<close>): the Unix-domain sockets of Windows.
  \<^item> \<open>Environment\<close>, \<open>Multi_Peer\<close>, \<open>Queue_Backend\<close>, \<open>Socket_Recv\<close>: what the backends share: the channels and sinks of
    other crates as a record of functions on a world, the trait \<open>MultiPeerBackend\<close>, the disconnection callback of a fair
    queue, the receiving loop.
  \<^item> \<open>Generic_Backend\<close> (\<open>backend.rs\<close>) and \<open>Queue_Sockets\<close> (\<open>push.rs\<close>, \<open>pull.rs\<close>, \<open>dealer.rs\<close>, \<open>router.rs\<close>);
    \<open>Peer_Cache\<close> has the refresh of the single-peer cache of \<open>backend.rs\<close> step by step, interleaved with other tasks,
    \<open>Send_Future\<close> the round-robin send with its await points.
  \<^item> \<open>Peer_Streams\<close> follows the messages of every peer through fair queue and receiving loop, \<open>Fan_In\<close> the peers that join,
    and \<open>Pipeline\<close> puts everything together: many senders with their writers, transports and readers, one receiving
    socket. \<open>Push_Pull\<close> adds the distribution of a PUSH socket over PULL sockets, \<open>Broadcast\<close> publishers and a
    SUB socket.
  \<^item> \<open>Pub\<close> (\<open>pub.rs\<close>), \<open>Xpub\<close> (\<open>xpub.rs\<close>), \<open>Sub_Backend\<close> (\<open>sub_backend.rs\<close>, \<open>sub.rs\<close>, \<open>xsub.rs\<close>) and \<open>Pub_Sub\<close>, which
    relates the two sides. \<open>Req_Rep\<close> (\<open>req.rs\<close>, \<open>rep.rs\<close>).
  \<^item> \<open>Handshake\<close> (\<open>util.rs\<close>): greeting and READY exchange, connecting with back-off; \<open>Handshake_Protocol\<close> runs the two
    ends against each other. \<open>Reconnect\<close> (\<open>reconnect.rs\<close>).
  \<^item> \<open>Socket_Api\<close> (the trait \<open>Socket\<close> and \<open>proxy\<close> of \<open>lib.rs\<close>, \<open>connect_with_reconnect\<close>).

  \<^bold>\<open>How the code is modelled.\<close> Structs are records, enums datatypes, \<open>Result\<close> a sum, a panic a value of its own
  (\<open>None\<close>, \<open>DecPanic\<close>, \<open>NextPanic\<close>), so that its absence is a theorem. Shared state is passed explicitly: an operation
  of a backend maps \<open>(backend, world)\<close> to a result and the new pair. The world \<open>'w\<close> belongs to code outside the
  crate (channels, sinks, spawned tasks, system calls, the iteration order of hash maps); the records \<open>env\<close> and \<open>os\<close>
  hold its operations (\<open>winsock\<close> those of Windows), and \<open>env_ok\<close>, \<open>winsock_ok\<close>, \<open>transport\<close>, \<open>receiver\<close>, \<open>sink\<close>, \<open>sinks_work\<close> state what is assumed of them.
  Each assumption is shown satisfiable by a concrete instance in the witnesses. Tasks that share state with others
  are step relations: the publisher's queue and worker (\<open>fan_step\<close>), the reconnection task and the world (\<open>task_step\<close>,
  \<open>world_step\<close>), connections coming and going on a backend (\<open>step\<close>), a receiving socket with its peers (\<open>socket_run\<close>),
  subscriptions on both sides (\<open>sub_reachable\<close>), the cache of the generic backend (\<open>cache_step\<close>), a send that may be
  dropped (\<open>send_step\<close>), the two ends of a handshake (\<open>hs_step\<close>).

  \<^bold>\<open>Interfaces.\<close> Each interface is a locale, interpreted on the model's own definitions:

  \<^item> \<open>fifo_queue\<close>: what polling needs of the ready heap; interpreted on \<open>push_ready\<close> and \<open>pop_ready\<close>.
  \<^item> \<open>multi_peer_backend\<close> and \<open>reliable_backend\<close>: the trait \<open>MultiPeerBackend\<close>; interpreted for the generic, PUB, SUB,
    XPUB, REQ and REP backends.
  \<^item> \<open>queue_backend\<close> and \<open>owning_backend\<close>: a backend with a fair queue whose callback disconnects the peer; interpreted
    for the generic, SUB, XPUB and REP backends. The receiving loops of all sockets get their facts there.
  \<^item> \<open>message_streams\<close>: a stream is known by the messages it still holds; interpreted on the framed reader.
    \<open>stream_backend\<close> joins it with \<open>owning_backend\<close>, \<open>complete_backend\<close> adds that no stream is pending or fails, and
    \<open>joining_backend\<close> and \<open>complete_joining\<close> add what \<open>peer_connected\<close> does to the queue; they are interpreted on the
    generic backend and the last on the subscribing backend too, over framed readers.

  \<^bold>\<open>What is proved.\<close> A connection delivers what was queued, in order and unchanged, a prefix when it is cut, everything
  when it is not (\<open>Delivery\<close>); so do any number of connections into one receiver, whatever peers come and go, each
  peer's messages in its order (\<open>Pipeline\<close>); what a PUSH socket sends reaches its PULL sockets exactly once
  (\<open>Push_Pull\<close>), what publishers publish reaches a subscriber if it matches its subscriptions and no queue
  is full, and only if it matches (\<open>Broadcast\<close>); the decoder does not depend on how input is cut, never panics, inverts the encoder
  (\<open>Zmq_Codec\<close>); the reader refines the decoder and keeps its bounds (\<open>Framed\<close>); the heap is a queue in spite of its
  reversed order, polling is fair and loses no wake-up (\<open>Fair_Queue\<close>); round robin balances, the cache of a single
  peer is invisible, the books of the backend stay consistent (\<open>Generic_Backend\<close>); the cache heals when a refresh runs
  alone (\<open>Peer_Cache\<close>); a send that is not dropped is the same step by step (\<open>Send_Future\<close>); two ends of a handshake do not block each other and agree (\<open>Handshake\<close>, \<open>Handshake_Protocol\<close>); a publisher's filters are those of its subscriber, no published message is stuck (\<open>Pub\<close>, \<open>Pub_Sub\<close>);
  requests and replies alternate and find their way back (\<open>Req_Rep\<close>); reconnection backs off and is not
  orphaned, but for a race that is exhibited (\<open>Reconnect\<close>); binding, connecting and the proxy (\<open>Socket_Api\<close>); endpoints are
  parsed as they are printed (\<open>Endpoint\<close>); the sockets of Windows never block the executor and do not leak
  (\<open>Windows_Ipc\<close>). Where the code deviates from what it means, a theorem exhibits it:
  \<open>handshake_panic_iff_stream\<close>, \<open>encode_underflow_iff\<close>, \<open>rep_empty_request\<close>, \<open>duplicate_subscription_diverges\<close>,
  \<open>subscribe_during_connect_is_lost\<close>, \<open>reconnect_race_orphans\<close>, \<open>rep_keeps_stream_of_dead_peer\<close>, \<open>peer_cache_race\<close>,
  \<open>reconnect_doubles_share\<close>, \<open>stale_writer_drops_new_connection\<close>, \<open>reinsert_doubles_turns\<close>,
  \<open>dropped_send_starves_peer\<close>, \<open>req_dropped_send_shifts_replies\<close>.

  \<^bold>\<open>Bounds and fuel.\<close> \<open>usize\<close> has 64 bits: sizes are natural numbers with \<open>usize_MAX\<close> and \<open>isize_MAX\<close> as limits, the
  counter of the fair queue wraps. Loops that wait for input take fuel: the reader needs more than the bytes still to
  come (\<open>framed_poll_next_terminates\<close>), the writer more than the queued messages (\<open>write_message_queue_terminates\<close>),
  \<open>connect_forever\<close> more than the attempts that fail (\<open>connect_forever_backoff\<close>); the loop of \<open>decode\<close> and
  the polling loop of the fair queue are total. A receiving loop that waits for nothing needs no more fuel than there
  are items in the streams (\<open>recv_all\<close>).

  \<^bold>\<open>Not modelled.\<close> The runtimes behind \<open>async_rt\<close> and their scheduling, beyond the interleavings of the step
  relations; cancellation of futures, except of the sends of the generic backend and of REQ; weaker memory orders (atomics are sequentially consistent); the containers
  of other crates, which are represented by their contents; the rounding of \<open>f64\<close> durations (reals instead); the
  capacity of buffers, beyond the sizes that are asked for; builds without one of the transports; log output; the module \<open>__bench\<close>,
  benchmarks, examples and tests.
\<close>

end
